(* ===== verification/Prelude.thy ===== *)
theory Prelude
  imports "HOL-Library.Word"
begin

text \<open>
  The vocabulary shared by every component: machine integers, the result type of
  fallible Rust code, the functions of the Rust standard library that the crates use
  on integers and byte strings, and the interface of a self-delimiting binary codec.

  Rust code that may fail returns a value of type \<open>('a, 'e) result\<close>; \<open>Panic\<close> stands
  for an \<open>expect\<close>, \<open>unwrap\<close>, \<open>panic!\<close> or \<open>unreachable!\<close> that fires.  A method that takes
  \<open>&mut self\<close> returns the updated state together with its result, so that the state left
  behind by an early return is visible.  The model is of a release build: a
  \<open>debug_assert!\<close> is compiled out and unchecked integer arithmetic wraps.
\<close>

unbundle bit_operations_syntax

type_synonym u8 = "8 word"
type_synonym u16 = "16 word"
type_synonym u32 = "32 word"
type_synonym u64 = "64 word"

named_theorems res_simps "rewriting of the result combinators"
named_theorems codec_simps "reading back what was written"

section \<open>Results\<close>

datatype ('a, 'e) result = Ok 'a | Err 'e | Panic string

fun and_then :: "('a, 'e) result \<Rightarrow> ('a \<Rightarrow> ('b, 'e) result) \<Rightarrow> ('b, 'e) result" where
  "and_then (Ok x) f = f x"
| "and_then (Err e) f = Err e"
| "and_then (Panic m) f = Panic m"

fun map_err :: "('e \<Rightarrow> 'f) \<Rightarrow> ('a, 'e) result \<Rightarrow> ('a, 'f) result" where
  "map_err f (Ok x) = Ok x"
| "map_err f (Err e) = Err (f e)"
| "map_err f (Panic m) = Panic m"

fun map_ok :: "('a \<Rightarrow> 'b) \<Rightarrow> ('a, 'e) result \<Rightarrow> ('b, 'e) result" where
  "map_ok f (Ok x) = Ok (f x)"
| "map_ok f (Err e) = Err e"
| "map_ok f (Panic m) = Panic m"

fun is_ok :: "('a, 'e) result \<Rightarrow> bool" where
  "is_ok (Ok x) = True"
| "is_ok (Err e) = False"
| "is_ok (Panic m) = False"

fun ok_or :: "'e \<Rightarrow> 'a option \<Rightarrow> ('a, 'e) result" where
  "ok_or e None = Err e"
| "ok_or e (Some x) = Ok x"

fun expect :: "string \<Rightarrow> ('a, 'e) result \<Rightarrow> ('a, 'f) result" where
  "expect m (Ok x) = Ok x"
| "expect m (Err e) = Panic m"
| "expect m (Panic m') = Panic m'"

fun expect_some :: "string \<Rightarrow> 'a option \<Rightarrow> ('a, 'e) result" where
  "expect_some m None = Panic m"
| "expect_some m (Some x) = Ok x"

lemma and_then_cong [fundef_cong]:
  "r = r' \<Longrightarrow> (\<And>x. r' = Ok x \<Longrightarrow> f x = f' x) \<Longrightarrow> and_then r f = and_then r' f'"
  by (cases r') auto

lemma and_then_eq_Ok [res_simps]:
  "and_then r f = Ok y \<longleftrightarrow> (\<exists>x. r = Ok x \<and> f x = Ok y)"
  by (cases r) auto

lemma Ok_eq_and_then [res_simps]:
  "Ok y = and_then r f \<longleftrightarrow> (\<exists>x. r = Ok x \<and> f x = Ok y)"
  by (cases r) auto

lemma and_then_eq_Err [res_simps]:
  "and_then r f = Err e \<longleftrightarrow> r = Err e \<or> (\<exists>x. r = Ok x \<and> f x = Err e)"
  by (cases r) auto

lemma and_then_eq_Panic [res_simps]:
  "and_then r f = Panic m \<longleftrightarrow> r = Panic m \<or> (\<exists>x. r = Ok x \<and> f x = Panic m)"
  by (cases r) auto

lemma map_err_eq_Ok [res_simps]: "map_err f r = Ok y \<longleftrightarrow> r = Ok y"
  by (cases r) auto

lemma map_err_eq_Err [res_simps]: "map_err f r = Err e \<longleftrightarrow> (\<exists>e'. r = Err e' \<and> e = f e')"
  by (cases r) auto

lemma map_err_eq_Panic [res_simps]: "map_err f r = Panic m \<longleftrightarrow> r = Panic m"
  by (cases r) auto

lemma map_ok_eq_Ok [res_simps]: "map_ok f r = Ok y \<longleftrightarrow> (\<exists>x. r = Ok x \<and> y = f x)"
  by (cases r) auto

lemma map_ok_eq_Err [res_simps]: "map_ok f r = Err e \<longleftrightarrow> r = Err e"
  by (cases r) auto

lemma map_ok_eq_Panic [res_simps]: "map_ok f r = Panic m \<longleftrightarrow> r = Panic m"
  by (cases r) auto

lemma ok_or_eq_Ok [res_simps]: "ok_or e r = Ok y \<longleftrightarrow> r = Some y"
  by (cases r) auto

lemma ok_or_eq_Err [res_simps]: "ok_or e r = Err e' \<longleftrightarrow> r = None \<and> e' = e"
  by (cases r) auto

lemma ok_or_no_Panic [res_simps]: "ok_or e r \<noteq> Panic m"
  by (cases r) auto

lemma expect_eq_Ok [res_simps]: "expect m r = Ok y \<longleftrightarrow> r = Ok y"
  by (cases r) auto

lemma expect_some_eq_Ok [res_simps]: "expect_some m r = Ok y \<longleftrightarrow> r = Some y"
  by (cases r) auto

lemma is_ok_iff: "is_ok r \<longleftrightarrow> (\<exists>x. r = Ok x)"
  by (cases r) auto

text \<open>
  \<open>iter().map(f).collect::<Result<Vec<_>, _>>()\<close>: the first failure is the result.
\<close>

fun try_map :: "('a \<Rightarrow> ('b, 'e) result) \<Rightarrow> 'a list \<Rightarrow> ('b list, 'e) result" where
  "try_map f [] = Ok []"
| "try_map f (x # xs) = and_then (f x) (\<lambda>y. and_then (try_map f xs) (\<lambda>ys. Ok (y # ys)))"

lemma try_map_eq_Ok:
  "try_map f xs = Ok ys \<longleftrightarrow> map f xs = map Ok ys"
  by (induction xs arbitrary: ys) (auto simp: res_simps Cons_eq_map_conv)

lemma try_map_Ok_length: "try_map f xs = Ok ys \<Longrightarrow> length ys = length xs"
  by (metis length_map try_map_eq_Ok)

lemma try_map_id: "(\<And>x. x \<in> set xs \<Longrightarrow> f (g x) = Ok x) \<Longrightarrow> try_map f (map g xs) = Ok xs"
  by (induction xs) auto

text \<open>
  A \<open>for\<close> loop whose body is a mutating call followed by \<open>?\<close>: the state of the failing
  iteration is kept.
\<close>

fun try_for :: "('s \<Rightarrow> 'a \<Rightarrow> 's \<times> ('b, 'e) result) \<Rightarrow> 's \<Rightarrow> 'a list \<Rightarrow> 's \<times> (unit, 'e) result" where
  "try_for f s [] = (s, Ok ())"
| "try_for f s (x # xs) =
    (case f s x of
       (s', Ok y) \<Rightarrow> try_for f s' xs
     | (s', Err e) \<Rightarrow> (s', Err e)
     | (s', Panic m) \<Rightarrow> (s', Panic m))"

lemma try_for_simulation:
  assumes step: "\<And>s a s' r. I s \<Longrightarrow> ok a \<Longrightarrow> f s a = (s', r) \<Longrightarrow> I s' \<and> g (\<alpha> s) a = (\<alpha> s', r)"
    and "I s" "list_all ok xs" "try_for f s xs = (s', r)"
  shows "I s' \<and> try_for g (\<alpha> s) xs = (\<alpha> s', r)"
  using assms(2-4)
proof (induction xs arbitrary: s)
  case (Cons x xs)
  obtain s1 r1 where f: "f s x = (s1, r1)" by fastforce
  with step [of s x s1 r1] Cons.prems have "I s1" "g (\<alpha> s) x = (\<alpha> s1, r1)" by auto
  with Cons f show ?case by (cases r1) auto
qed simp

section \<open>Vectors\<close>

text \<open>\<open>Vec::resize\<close>: cut or fill up to the given length.\<close>

definition resize :: "nat \<Rightarrow> 'a \<Rightarrow> 'a list \<Rightarrow> 'a list" where
  "resize n z xs = take n xs @ replicate (n - length xs) z"

lemma length_resize [simp]: "length (resize n z xs) = n"
  by (simp add: resize_def)

lemma map_of_unique:
  assumes "distinct (map fst xs)" "\<And>v. (k, v) \<in> set xs \<longleftrightarrow> c \<and> v = w"
  shows "map_of xs k = (if c then Some w else None)"
proof (cases c)
  case True
  with assms show ?thesis by simp
next
  case False
  with assms(2) have "k \<notin> fst ` set xs" by auto
  with False show ?thesis by (simp add: map_of_eq_None_iff)
qed

section \<open>Integers\<close>

definition checked_add :: "'a::len word \<Rightarrow> 'a word \<Rightarrow> 'a word option" where
  "checked_add a b = (if unat a + unat b < 2 ^ LENGTH('a) then Some (a + b) else None)"

definition checked_sub :: "'a::len word \<Rightarrow> 'a word \<Rightarrow> 'a word option" where
  "checked_sub a b = (if b \<le> a then Some (a - b) else None)"

definition count_ones :: "'a::len word \<Rightarrow> nat" where
  "count_ones w = length (filter (bit w) [0..<LENGTH('a)])"

definition trailing_zeros :: "'a::len word \<Rightarrow> nat" where
  "trailing_zeros w = length (takeWhile (\<lambda>i. \<not> bit w i) [0..<LENGTH('a)])"

lemma checked_add_eq_Some:
  "checked_add a b = Some c \<longleftrightarrow> unat c = unat a + unat b" for a b c :: "'a::len word"
proof -
  have "unat (a + b) = unat a + unat b" if "unat a + unat b < 2 ^ LENGTH('a)"
    using that by (simp add: unat_word_ariths)
  moreover have "unat a + unat b < 2 ^ LENGTH('a)" if "unat c = unat a + unat b"
    using that by (metis unsigned_less)
  ultimately show ?thesis
    by (auto simp: checked_add_def word_unat_eq_iff split: if_splits)
qed

lemma checked_sub_eq_Some:
  "checked_sub a b = Some c \<longleftrightarrow> unat a = unat b + unat c" for a b c :: "'a::len word"
proof
  assume "checked_sub a b = Some c"
  then show "unat a = unat b + unat c"
    by (auto simp: checked_sub_def word_le_nat_alt unat_sub split: if_splits)
next
  assume *: "unat a = unat b + unat c"
  then have "b \<le> a" by (simp add: word_le_nat_alt)
  with * show "checked_sub a b = Some c"
    by (auto simp: checked_sub_def word_unat_eq_iff word_le_nat_alt unat_sub)
qed

lemma checked_sub_eq_None: "checked_sub a b = None \<longleftrightarrow> unat a < unat b"
  by (auto simp: checked_sub_def word_le_nat_alt)

lemma trailing_zeros_le: "trailing_zeros (w :: 'a::len word) \<le> LENGTH('a)"
  unfolding trailing_zeros_def by (metis diff_zero length_takeWhile_le length_upt)

lemma take_bit_two:
  "take_bit 2 w = of_bool (bit w 0) + 2 * of_bool (bit w 1)" for w :: "'a::len word"
  by (simp add: numeral_2_eq_2 take_bit_Suc bit_0 bit_Suc odd_iff_mod_2_eq_one)

lemma trailing_zeros_zero [simp]: "trailing_zeros (0 :: 'a::len word) = LENGTH('a)"
  by (simp add: trailing_zeros_def takeWhile_eq_all_conv [THEN iffD2])

lemma upt_64:
  "[0..<64] = [0, 1, 2, 3, 4, 5, 6, 7, 8, 9, 10, 11, 12, 13, 14, 15, 16, 17, 18, 19, 20, 21,
     22, 23, 24, 25, 26, 27, 28, 29, 30, 31, 32, 33, 34, 35, 36, 37, 38, 39, 40, 41,
     42, 43, 44, 45, 46, 47, 48, 49, 50, 51, 52, 53, 54, 55, 56, 57, 58, 59, 60, 61,
     62, 63 :: nat]"
  by code_simp

lemmas bit_eval = count_ones_def trailing_zeros_def upt_64

lemma bit_trailing_zeros:
  assumes "i < trailing_zeros (w :: 'a::len word)"
  shows "\<not> bit w i"
proof -
  from assms have i: "i < length (takeWhile (\<lambda>i. \<not> bit w i) [0..<LENGTH('a)])"
    by (simp add: trailing_zeros_def)
  then have "takeWhile (\<lambda>i. \<not> bit w i) [0..<LENGTH('a)] ! i = [0..<LENGTH('a)] ! i"
    by (simp add: takeWhile_nth)
  moreover have "i < LENGTH('a)"
    using assms trailing_zeros_le [of w] by linarith
  ultimately have "takeWhile (\<lambda>i. \<not> bit w i) [0..<LENGTH('a)] ! i = i" by simp
  then show ?thesis using nth_mem [OF i] set_takeWhileD by fastforce
qed

section \<open>Casts\<close>

lemma unat_u8_less: "unat (i :: u8) < 256"
  using unsigned_less [of i, where 'a = nat] by simp

lemma unat_u8_u64 [simp]: "unat (ucast (i :: u8) :: u64) = unat i"
  using unat_u8_less [of i] by (simp add: unsigned_ucast_eq take_bit_nat_eq_self)

lemma u8_u64_inject [simp]: "(ucast (i :: u8) :: u64) = ucast k \<longleftrightarrow> i = k"
  by (metis unat_u8_u64 word_unat_eq_iff)

lemma u8_u64_u8 [simp]: "ucast (ucast (i :: u8) :: u64) = i"
  by (auto intro!: bit_word_eqI simp: bit_simps)

lemma u64_u8_u64: "unat (j :: u64) < 256 \<Longrightarrow> ucast (ucast j :: u8) = j"
  by (simp add: word_unat_eq_iff unsigned_ucast_eq unsigned_take_bit_eq take_bit_nat_eq_self)

lemma u8_of_u16_pair: "ucast (push_bit 8 (ucast (a :: u8)) OR ucast (b :: u8) :: u16) = b"
  by (auto intro!: bit_word_eqI simp: bit_simps)

lemma u8_of_u16_pair_high: "ucast (drop_bit 8 (push_bit 8 (ucast (a :: u8)) OR ucast (b :: u8) :: u16)) = a"
proof (rule bit_word_eqI)
  fix n assume "n < LENGTH(8)"
  moreover have "\<not> bit b (8 + n)" using bit_imp_le_length [of b] by force
  ultimately show "bit (ucast (drop_bit 8 (push_bit 8 (ucast a) OR ucast b :: u16)) :: u8) n = bit a n"
    by (auto simp: bit_simps)
qed

lemma u16_pair: "push_bit 8 (ucast (ucast (drop_bit 8 v) :: u8)) OR ucast (ucast v :: u8) = (v :: u16)"
  by (auto intro!: bit_word_eqI simp: bit_simps dest: bit_imp_le_length)

text \<open>The checked narrowing conversions \<open>try_into\<close> from \<open>u64\<close>.\<close>

definition try_into_u8 :: "u64 \<Rightarrow> u8 option" where
  "try_into_u8 x = (if unat x < 2 ^ 8 then Some (ucast x) else None)"

definition try_into_u32 :: "u64 \<Rightarrow> u32 option" where
  "try_into_u32 x = (if unat x < 2 ^ 32 then Some (ucast x) else None)"

lemma try_into_u32_ucast: "try_into_u32 (ucast x) = Some x"
proof -
  have "unat (ucast x :: u64) = unat x"
    using unsigned_less [of x, where 'a = nat] by (simp add: unsigned_ucast_eq take_bit_nat_eq_self)
  moreover have "ucast (ucast x :: u64) = x" by (auto intro!: bit_word_eqI simp: bit_simps)
  ultimately show ?thesis using unsigned_less [of x, where 'a = nat] by (simp add: try_into_u32_def)
qed

lemma try_into_u32_Some: "try_into_u32 x = Some y \<Longrightarrow> x = ucast y"
  by (auto simp: try_into_u32_def word_unat_eq_iff unsigned_ucast_eq unsigned_take_bit_eq take_bit_nat_eq_self
      split: if_splits)

section \<open>Byte strings\<close>

text \<open>
  \<open>to_le_bytes\<close> and \<open>from_le_bytes\<close> of the integer types, with the number of bytes as an
  argument, and the hexadecimal rendering \<open>{:02x}\<close> of a byte.
\<close>

definition le_bytes :: "nat \<Rightarrow> 'a::len word \<Rightarrow> u8 list" where
  "le_bytes n w = map (\<lambda>i. ucast (drop_bit (8 * i) w)) [0..<n]"

fun from_le_bytes :: "u8 list \<Rightarrow> 'a::len word" where
  "from_le_bytes [] = 0"
| "from_le_bytes (b # bs) = ucast b OR push_bit 8 (from_le_bytes bs)"

definition hex_digit :: "nat \<Rightarrow> char" where
  "hex_digit n = ''0123456789abcdef'' ! n"

definition byte_hex :: "u8 \<Rightarrow> string" where
  "byte_hex b = [hex_digit (unat b div 16), hex_digit (unat b mod 16)]"

text \<open>The decimal rendering \<open>{}\<close> of an integer.\<close>

fun show_nat :: "nat \<Rightarrow> string" where
  "show_nat n = (if n < 10 then [hex_digit n] else show_nat (n div 10) @ [hex_digit (n mod 10)])"

declare show_nat.simps [simp del]

lemma length_le_bytes [simp]: "length (le_bytes n w) = n"
  by (simp add: le_bytes_def)

lemma bit_from_le_bytes:
  "bit (from_le_bytes bs :: 'a::len word) i \<longleftrightarrow>
     i < LENGTH('a) \<and> i div 8 < length bs \<and> bit (bs ! (i div 8)) (i mod 8)"
proof (induction bs arbitrary: i)
  case Nil
  show ?case by simp
next
  case (Cons b bs)
  show ?case
  proof (cases "i < 8")
    case True
    then show ?thesis by (auto simp: bit_or_iff bit_push_bit_iff bit_simps)
  next
    case False
    then have "i div 8 = Suc ((i - 8) div 8)" "(i - 8) mod 8 = i mod 8"
      by (simp_all add: le_div_geq le_mod_geq not_less)
    moreover have "\<not> bit b i" using False by (auto dest: bit_imp_le_length)
    ultimately show ?thesis using False Cons.IH [of "i - 8"] by (auto simp: bit_simps)
  qed
qed

lemma from_le_bytes_le_bytes:
  assumes "LENGTH('a::len) \<le> 8 * n"
  shows "from_le_bytes (le_bytes n w) = (w :: 'a word)"
proof (rule bit_word_eqI)
  fix i assume i: "i < LENGTH('a)"
  with assms have "i div 8 < n" by simp
  moreover have "8 * (i div 8) + i mod 8 = i" by (rule mult_div_mod_eq)
  ultimately show "bit (from_le_bytes (le_bytes n w) :: 'a word) i = bit w i"
    using i by (simp add: bit_from_le_bytes le_bytes_def bit_simps)
qed

lemma le_bytes_from_le_bytes:
  assumes "8 * length bs \<le> LENGTH('a::len)"
  shows "le_bytes (length bs) (from_le_bytes bs :: 'a word) = bs"
proof (rule nth_equalityI)
  fix k assume "k < length (le_bytes (length bs) (from_le_bytes bs :: 'a word))"
  then have k: "k < length bs" by simp
  show "le_bytes (length bs) (from_le_bytes bs :: 'a word) ! k = bs ! k"
  proof (rule bit_word_eqI)
    fix j assume j: "j < LENGTH(8)"
    then have "8 * k + j < LENGTH('a)" using k assms by simp
    with k j show "bit (le_bytes (length bs) (from_le_bytes bs :: 'a word) ! k) j = bit (bs ! k) j"
      by (simp add: le_bytes_def bit_simps bit_from_le_bytes)
  qed
qed simp

lemma le_bytes_inject:
  "LENGTH('a::len) \<le> 8 * n \<Longrightarrow> le_bytes n v = le_bytes n w \<longleftrightarrow> v = (w :: 'a word)"
  by (metis from_le_bytes_le_bytes)

section \<open>Binary codecs\<close>

text \<open>
  A writer appends the bytes of a value to the output; a reader consumes bytes from the
  front of its input and returns the value with what is left.  \<open>write_many\<close> and
  \<open>read_many\<close> are the sequence operations of the byte reader and writer.
\<close>

type_synonym ('a, 'e) reader = "u8 list \<Rightarrow> ('a \<times> u8 list, 'e) result"

definition write_many :: "('a \<Rightarrow> u8 list) \<Rightarrow> 'a list \<Rightarrow> u8 list" where
  "write_many wr xs = concat (map wr xs)"

fun read_many :: "nat \<Rightarrow> ('a, 'e) reader \<Rightarrow> ('a list, 'e) reader" where
  "read_many 0 rd bs = Ok ([], bs)"
| "read_many (Suc n) rd bs = and_then (rd bs) (\<lambda>(x, bs').
     and_then (read_many n rd bs') (\<lambda>(xs, bs''). Ok (x # xs, bs'')))"

lemma write_many_simps [simp]:
  "write_many wr [] = []"
  "write_many wr (x # xs) = wr x @ write_many wr xs"
  by (simp_all add: write_many_def)

lemma read_many_length:
  "read_many n rd bs = Ok (xs, bs') \<Longrightarrow> length xs = n"
  by (induction n arbitrary: bs xs bs') (auto simp: res_simps split: prod.splits)

locale codec =
  fixes wr :: "'a \<Rightarrow> u8 list"
    and rd :: "u8 list \<Rightarrow> ('a \<times> u8 list, 'e) result"
    and valid :: "'a \<Rightarrow> bool"
  assumes rd_wr: "valid x \<Longrightarrow> rd (wr x @ bs) = Ok (x, bs)"
begin

lemma rd_wr_all: "valid x \<Longrightarrow> rd (wr x) = Ok (x, [])"
  using rd_wr [of x "[]"] by simp

lemma wr_prefix_free:
  assumes "valid x" "valid y" "wr x @ bs = wr y @ cs"
  shows "x = y \<and> bs = cs"
proof -
  have "Ok (x, bs) = rd (wr x @ bs)" by (rule rd_wr [OF assms(1), symmetric])
  also have "\<dots> = rd (wr y @ cs)" by (simp only: assms(3))
  also have "\<dots> = Ok (y, cs)" by (rule rd_wr [OF assms(2)])
  finally show ?thesis by simp
qed

lemma wr_inject: "valid x \<Longrightarrow> valid y \<Longrightarrow> wr x = wr y \<longleftrightarrow> x = y"
  using wr_prefix_free [of x y "[]" "[]"] by auto

lemma read_many_write_many:
  "list_all valid xs \<Longrightarrow> n = length xs \<Longrightarrow> read_many n rd (write_many wr xs @ bs) = Ok (xs, bs)"
proof (induction xs arbitrary: n)
  case (Cons x xs)
  then show ?case using rd_wr [of x "write_many wr xs @ bs"] by simp
qed simp

end

end
