(* ===== verification/Types.thy ===== *)
theory Types
  imports Prelude
begin

text \<open>
  The data the crates exchange: field elements, words and digests, account identifiers
  and their metadata enumerations, assets, and the error enumerations of
  \<open>objects/src/errors.rs\<close>.

  A field element is given by its canonical integer, the value \<open>as_int()\<close> returns.
  Errors of third-party crates (\<open>MerkleError\<close>, \<open>AssemblyError\<close>) are opaque.
\<close>

section \<open>Field elements, words, digests\<close>

type_synonym felt = u64

datatype word4 = W (w0: felt) (w1: felt) (w2: felt) (w3: felt)

type_synonym digest = word4

abbreviation EMPTY_WORD :: word4 where
  "EMPTY_WORD \<equiv> W 0 0 0 0"

fun elements :: "word4 \<Rightarrow> felt list" where
  "elements (W a b c d) = [a, b, c, d]"

lemma length_elements [simp]: "length (elements w) = 4"
  by (cases w) simp

lemma elements_inject [simp]: "elements v = elements w \<longleftrightarrow> v = w"
  by (cases v; cases w) simp

section \<open>Accounts and assets\<close>

datatype account_type =
    FungibleFaucet
  | NonFungibleFaucet
  | RegularAccountImmutableCode
  | RegularAccountUpdatableCode

datatype account_storage_type = OnChain | OffChain

datatype account_id = AccountId (id_felt: felt)

text \<open>The ordering of account identifiers compares the integer values.\<close>

definition account_id_le :: "account_id \<Rightarrow> account_id \<Rightarrow> bool" where
  "account_id_le a b \<longleftrightarrow> id_felt a \<le> id_felt b"

instantiation account_id :: linorder
begin

definition less_eq_account_id :: "account_id \<Rightarrow> account_id \<Rightarrow> bool" where
  "less_eq_account_id = account_id_le"

definition less_account_id :: "account_id \<Rightarrow> account_id \<Rightarrow> bool" where
  "less_account_id a b \<longleftrightarrow> \<not> account_id_le b a"

instance
  by standard (auto simp: less_eq_account_id_def less_account_id_def account_id_le_def account_id.expand)

end

datatype storage_slot_type =
    Value (value_arity: u8)
  | Map (value_arity: u8)
  | Array (depth: u8) (value_arity: u8)

record fungible_asset =
  fa_faucet_id :: account_id
  fa_amount :: u64

datatype non_fungible_asset = NonFungibleAsset (nfa_word: word4)

datatype asset = Fungible fungible_asset | NonFungible non_fungible_asset

section \<open>Notes\<close>

datatype note_type = Public | OffChainNote | Encrypted

datatype note_id = NoteId (note_id_digest: digest)

section \<open>Errors\<close>

datatype merkle_error = MerkleError string

datatype assembly_error = AssemblyError string

datatype deserialization_error =
    InvalidValue string
  | UnexpectedEOF
  | UnknownError string

datatype asset_error =
    AmountTooBig u64
  | AssetAmountNotSufficient u64 u64
  | FungibleAssetInvalidTag u32
  | FungibleAssetInvalidWord word4
  | InconsistentFaucetIds account_id account_id
  | InvalidAccountId string
  | InvalidFieldElement string
  | NonFungibleAssetInvalidTag u32
  | NotAFungibleFaucetId account_id account_type
  | NotANonFungibleFaucetId account_id
  | NotAnAsset word4
  | TokenSymbolError string

datatype asset_vault_error =
    AddFungibleAssetBalanceError asset_error
  | DuplicateAsset merkle_error
  | DuplicateNonFungibleAsset non_fungible_asset
  | FungibleAssetNotFound fungible_asset
  | NotANonFungibleAsset asset
  | VaultNotAFungibleFaucetId account_id
  | NonFungibleAssetNotFound non_fungible_asset
  | SubtractFungibleAssetBalanceError asset_error

datatype account_error =
    AccountCodeAssemblerError assembly_error
  | AccountCodeNoProcedures
  | AccountCodeTooManyProcedures nat nat
  | AccountIdInvalidFieldElement string
  | AccountIdTooFewOnes nat nat
  | AssetVaultUpdateError asset_vault_error
  | DuplicateStorageItems merkle_error
  | FungibleFaucetIdInvalidFirstBit
  | FungibleFaucetInvalidMetadata string
  | HexParseError string
  | InvalidAccountStorageType
  | NonceNotMonotonicallyIncreasing u64 u64
  | SeedDigestTooFewTrailingZeros nat nat
  | StorageSlotInvalidValueArity u8 u8 u8
  | StorageSlotIsReserved u8
  | StorageSlotNotValueSlot u8 storage_slot_type
  | StubDataIncorrectLength nat nat

datatype account_delta_error =
    DuplicateStorageItemUpdate nat
  | DuplicateVaultUpdate asset
  | InconsistentNonceUpdate string
  | ImmutableStorageSlot nat
  | TooManyAddedAsset nat nat
  | TooManyClearedStorageItems nat nat
  | TooManyRemovedAssets nat nat
  | TooManyUpdatedStorageItems nat nat

datatype note_error =
    DuplicateFungibleAsset account_id
  | DuplicateNonFungibleNoteAsset non_fungible_asset
  | EmptyAssetList
  | InconsistentNoteTag note_type u64
  | InconsistentStubAssetHash digest digest
  | InconsistentStubId note_id note_id
  | InvalidAssetData asset_error
  | InvalidOriginIndex string
  | InvalidStubDataLen nat
  | InvalidNoteSender account_error
  | InvalidNoteType note_type
  | InvalidNoteTypeValue u64
  | NetworkExecutionRequiresOnChainAccount
  | NoteDeserializationError deserialization_error
  | ScriptCompilationError assembly_error
  | TooManyAssets nat
  | TooManyInputs nat

datatype transaction_input_error =
    AccountSeedNotProvidedForNewAccount
  | AccountSeedProvidedForExistingAccount
  | DuplicateInputNote digest
  | InconsistentAccountSeed account_id account_id
  | InconsistentChainLength u32 u32
  | InconsistentChainRoot digest digest
  | InputNoteBlockNotInChainMmr note_id
  | InputNoteNotInBlock note_id u32
  | InvalidAccountSeed account_error
  | TooManyInputNotes nat nat

datatype transaction_output_error =
    DuplicateOutputNote note_id
  | FinalAccountDataNotFound
  | FinalAccountStubDataInvalid account_error
  | OutputNoteDataNotFound
  | OutputNoteDataInvalid note_error
  | OutputNotesCommitmentInconsistent digest digest
  | TooManyOutputNotes nat nat

datatype proven_transaction_error =
    AccountFinalHashMismatch digest digest
  | AccountIdMismatch account_id account_id
  | InputNotesError transaction_input_error
  | NoteDetailsForUnknownNotes "note_id list"
  | OffChainAccountWithDetails account_id
  | OnChainAccountMissingDetails account_id
  | NewOnChainAccountRequiresFullDetails account_id
  | ExistingOnChainAccountRequiresDeltaDetails account_id
  | OutputNotesError transaction_output_error

datatype chain_mmr_error =
    BlockNumTooBig nat u32
  | DuplicateBlock u32
  | UntrackedBlock u32

datatype transaction_script_error = TxScriptCompilationError assembly_error

end
