(* ===== verification/Primitives.thy ===== *)
theory Primitives
  imports Types
begin

text \<open>
  The third-party code the crates are built on, as a record of operations that every
  definition using them takes as its argument \<open>P\<close>: field arithmetic (\<open>vm_core::Felt\<close>), the
  hash function (\<open>miden_crypto::hash::rpo::Rpo256\<close>), hexadecimal parsing
  (\<open>miden_crypto::utils\<close>), the byte reader and writer (\<open>miden_crypto::utils\<close>) and the
  rendering of errors as text that \<open>derive(Debug)\<close> generates.

  What the code relies on is stated by the locales \<open>felt_spec\<close>, \<open>hash_spec\<close> and \<open>io_spec\<close>,
  collected in \<open>prims_spec\<close>; theorems name the one they need as a hypothesis.  The record
  \<open>sample_prims\<close> satisfies all of them; it stands for no particular hash function.
\<close>

section \<open>Operations\<close>

record prims =
  modulus :: u64
  felt_new :: "u64 \<Rightarrow> felt"
  felt_add :: "felt \<Rightarrow> felt \<Rightarrow> felt"
  felt_try_from_bytes :: "u8 list \<Rightarrow> (felt, string) result"
  hash_elements :: "felt list \<Rightarrow> digest"
  hash_merge :: "digest \<Rightarrow> digest \<Rightarrow> digest"
  hash_bytes :: "u8 list \<Rightarrow> digest"
  digest_as_bytes :: "digest \<Rightarrow> u8 list"
  digest_le :: "digest \<Rightarrow> digest \<Rightarrow> bool"
  hex_to_bytes :: "nat \<Rightarrow> string \<Rightarrow> (u8 list, string) result"
  put_u8 :: "u8 \<Rightarrow> u8 list"
  get_u8 :: "(u8, deserialization_error) reader"
  put_u16 :: "u16 \<Rightarrow> u8 list"
  get_u16 :: "(u16, deserialization_error) reader"
  put_u32 :: "u32 \<Rightarrow> u8 list"
  get_u32 :: "(u32, deserialization_error) reader"
  put_u64 :: "u64 \<Rightarrow> u8 list"
  get_u64 :: "(u64, deserialization_error) reader"
  put_bool :: "bool \<Rightarrow> u8 list"
  get_bool :: "(bool, deserialization_error) reader"
  put_felt :: "felt \<Rightarrow> u8 list"
  get_felt :: "(felt, deserialization_error) reader"
  put_word :: "word4 \<Rightarrow> u8 list"
  get_word :: "(word4, deserialization_error) reader"
  put_digest :: "digest \<Rightarrow> u8 list"
  get_digest :: "(digest, deserialization_error) reader"
  put_opt_felt :: "felt option \<Rightarrow> u8 list"
  get_opt_felt :: "(felt option, deserialization_error) reader"
  put_opt_word :: "word4 option \<Rightarrow> u8 list"
  get_opt_word :: "(word4 option, deserialization_error) reader"
  get_vec :: "nat \<Rightarrow> (u8 list, deserialization_error) reader"
  show_account_error :: "account_error \<Rightarrow> string"
  show_asset_error :: "asset_error \<Rightarrow> string"
  show_asset_vault_error :: "asset_vault_error \<Rightarrow> string"
  show_account_delta_error :: "account_delta_error \<Rightarrow> string"
  show_note_error :: "note_error \<Rightarrow> string"
  show_tx_input_error :: "transaction_input_error \<Rightarrow> string"
  show_tx_output_error :: "transaction_output_error \<Rightarrow> string"
  show_proven_tx_error :: "proven_transaction_error \<Rightarrow> string"

text \<open>The integers and words that are canonical representations.\<close>

definition felt_ok :: "prims \<Rightarrow> felt \<Rightarrow> bool" where
  "felt_ok P x \<longleftrightarrow> x < modulus P"

fun word_ok :: "prims \<Rightarrow> word4 \<Rightarrow> bool" where
  "word_ok P (W a b c d) \<longleftrightarrow> felt_ok P a \<and> felt_ok P b \<and> felt_ok P c \<and> felt_ok P d"

lemma word_ok_iff: "word_ok P w \<longleftrightarrow> list_all (felt_ok P) (elements w)"
  by (cases w) simp

section \<open>Contracts\<close>

locale felt_spec =
  fixes P :: prims
  assumes modulus_value: "modulus P = 0xFFFFFFFF00000001"
    and felt_new_mod: "felt_new P x = x mod modulus P"
    and felt_add_mod: "felt_ok P x \<Longrightarrow> felt_ok P y \<Longrightarrow>
      unat (felt_add P x y) = (unat x + unat y) mod unat (modulus P)"
    and felt_from_bytes_ok: "length bs = 8 \<Longrightarrow> felt_ok P (from_le_bytes bs) \<Longrightarrow>
      felt_try_from_bytes P bs = Ok (from_le_bytes bs)"
    and felt_from_bytes_err: "length bs = 8 \<Longrightarrow> \<not> felt_ok P (from_le_bytes bs) \<Longrightarrow>
      \<exists>e. felt_try_from_bytes P bs = Err e"
begin

lemma felt_new_id: "felt_ok P x \<Longrightarrow> felt_new P x = x"
  by (simp add: felt_new_mod felt_ok_def word_unat_eq_iff unat_mod word_less_nat_alt)

lemma felt_new_ok: "felt_ok P (felt_new P x)"
  by (simp add: felt_new_mod felt_ok_def modulus_value word_mod_less_divisor)

lemma felt_ok_zero: "felt_ok P 0"
  by (simp add: felt_ok_def modulus_value)

lemma felt_ok_small: "x \<le> 0xFFFFFFFF00000000 \<Longrightarrow> felt_ok P x"
  by (simp add: felt_ok_def modulus_value word_less_nat_alt word_le_nat_alt)

lemma felt_ok_63_bits: "unat x < 2 ^ 63 \<Longrightarrow> felt_ok P x"
  by (simp add: felt_ok_def modulus_value word_less_nat_alt)

lemma felt_add_ok: "felt_ok P x \<Longrightarrow> felt_ok P y \<Longrightarrow> felt_ok P (felt_add P x y)"
  using felt_add_mod [of x y] modulus_value by (simp add: felt_ok_def word_less_nat_alt)

lemma felt_add_0: "felt_ok P x \<Longrightarrow> felt_add P x 0 = x"
  using felt_add_mod [of x 0] felt_ok_zero by (simp add: word_unat_eq_iff felt_ok_def word_less_nat_alt)

lemma felt_add_assoc:
  "felt_ok P x \<Longrightarrow> felt_ok P y \<Longrightarrow> felt_ok P z \<Longrightarrow> felt_add P (felt_add P x y) z = felt_add P x (felt_add P y z)"
  by (simp add: word_unat_eq_iff felt_add_mod felt_add_ok mod_simps add.assoc)

lemma felt_add_eq_self: "felt_ok P x \<Longrightarrow> felt_ok P y \<Longrightarrow> felt_add P x y = x \<longleftrightarrow> y = 0"
proof
  assume ok: "felt_ok P x" "felt_ok P y" and "felt_add P x y = x"
  then have "(unat x + unat y) mod unat (modulus P) = unat x" using felt_add_mod [OF ok] by simp
  moreover have "unat x < unat (modulus P)" "unat y < unat (modulus P)" using ok by (simp_all add: felt_ok_def word_less_nat_alt)
  ultimately have "unat y = 0" by (cases "unat x + unat y < unat (modulus P)") (auto simp: mod_if split: if_splits)
  then show "y = 0" by (simp add: unat_eq_0)
qed (simp add: felt_add_0)

lemma felt_try_from_le_bytes: "felt_ok P x \<Longrightarrow> felt_try_from_bytes P (le_bytes 8 x) = Ok x"
  using felt_from_bytes_ok [of "le_bytes 8 x"] by (simp add: from_le_bytes_le_bytes)

lemma word_ok_EMPTY_WORD: "word_ok P EMPTY_WORD"
  by (simp add: felt_ok_zero)

end

locale hash_spec =
  fixes P :: prims
  assumes hash_elements_ok: "word_ok P (hash_elements P es)"
    and hash_merge_ok: "word_ok P (hash_merge P a b)"
    and hash_bytes_ok: "word_ok P (hash_bytes P bs)"
    and digest_as_bytes_inject: "word_ok P a \<Longrightarrow> word_ok P b \<Longrightarrow>
      digest_as_bytes P a = digest_as_bytes P b \<longleftrightarrow> a = b"
    and digest_le_refl: "digest_le P a a"
    and digest_le_antisym: "digest_le P a b \<Longrightarrow> digest_le P b a \<Longrightarrow> a = b"
    and digest_le_trans: "digest_le P a b \<Longrightarrow> digest_le P b c \<Longrightarrow> digest_le P a c"
    and digest_le_total: "digest_le P a b \<or> digest_le P b a"

locale io_spec =
  fixes P :: prims
  assumes get_put_u8: "get_u8 P (put_u8 P a @ bs) = Ok (a, bs)"
    and get_put_u16: "get_u16 P (put_u16 P b @ bs) = Ok (b, bs)"
    and get_put_u32: "get_u32 P (put_u32 P c @ bs) = Ok (c, bs)"
    and get_put_u64: "get_u64 P (put_u64 P d @ bs) = Ok (d, bs)"
    and get_put_bool: "get_bool P (put_bool P f @ bs) = Ok (f, bs)"
    and get_put_felt: "felt_ok P x \<Longrightarrow> get_felt P (put_felt P x @ bs) = Ok (x, bs)"
    and get_felt_ok: "get_felt P bs = Ok (x, bs') \<Longrightarrow> felt_ok P x"
    and get_put_word: "word_ok P w \<Longrightarrow> get_word P (put_word P w @ bs) = Ok (w, bs)"
    and get_word_ok: "get_word P bs = Ok (w, bs') \<Longrightarrow> word_ok P w"
    and get_put_digest: "word_ok P w \<Longrightarrow> get_digest P (put_digest P w @ bs) = Ok (w, bs)"
    and get_digest_ok: "get_digest P bs = Ok (w, bs') \<Longrightarrow> word_ok P w"
    and get_put_opt_felt: "pred_option (felt_ok P) ox \<Longrightarrow>
      get_opt_felt P (put_opt_felt P ox @ bs) = Ok (ox, bs)"
    and get_opt_felt_ok: "get_opt_felt P bs = Ok (ox, bs') \<Longrightarrow> pred_option (felt_ok P) ox"
    and get_put_opt_word: "pred_option (word_ok P) ow \<Longrightarrow>
      get_opt_word P (put_opt_word P ow @ bs) = Ok (ow, bs)"
    and get_opt_word_ok: "get_opt_word P bs = Ok (ow, bs') \<Longrightarrow> pred_option (word_ok P) ow"
    and get_vec_append: "get_vec P (length v) (v @ bs) = Ok (v, bs)"
    and get_vec_split: "get_vec P n bs = Ok (v, bs') \<Longrightarrow> bs = v @ bs' \<and> length v = n"
    and hex_round_trip: "length bs = n \<Longrightarrow>
      hex_to_bytes P n (''0x'' @ concat (map byte_hex bs)) = Ok bs"

locale prims_spec = felt_spec P + hash_spec P + io_spec P for P

section \<open>The base codecs\<close>

sublocale io_spec \<subseteq> c_u8: codec "put_u8 P" "get_u8 P" "\<lambda>_. True"
  by unfold_locales (rule get_put_u8)

sublocale io_spec \<subseteq> c_u16: codec "put_u16 P" "get_u16 P" "\<lambda>_. True"
  by unfold_locales (rule get_put_u16)

sublocale io_spec \<subseteq> c_u32: codec "put_u32 P" "get_u32 P" "\<lambda>_. True"
  by unfold_locales (rule get_put_u32)

sublocale io_spec \<subseteq> c_felt: codec "put_felt P" "get_felt P" "felt_ok P"
  by unfold_locales (rule get_put_felt)

sublocale io_spec \<subseteq> c_word: codec "put_word P" "get_word P" "word_ok P"
  by unfold_locales (rule get_put_word)

sublocale io_spec \<subseteq> c_digest: codec "put_digest P" "get_digest P" "word_ok P"
  by unfold_locales (rule get_put_digest)

section \<open>A concrete instance\<close>

text \<open>
  Little-endian integers, the field of order \<open>2^64 - 2^32 + 1\<close>, and an additive mixing
  function in place of the hash; used to show that the contracts can hold.
\<close>

abbreviation (input) P64 :: u64 where
  "P64 \<equiv> 0xFFFFFFFF00000001"

definition sample_felt :: "u8 list \<Rightarrow> (felt, string) result" where
  "sample_felt bs =
    (if length bs \<noteq> 8 then Err ''length''
     else if from_le_bytes bs < P64 then Ok (from_le_bytes bs) else Err ''range'')"

definition sample_get :: "nat \<Rightarrow> ('a::len word, deserialization_error) reader" where
  "sample_get n bs = (if length bs < n then Err UnexpectedEOF
     else Ok (from_le_bytes (take n bs), drop n bs))"

definition sample_get_felt :: "(felt, deserialization_error) reader" where
  "sample_get_felt bs = and_then (sample_get 8 bs) (\<lambda>(x, bs').
     if x < P64 then Ok (x, bs') else Err (InvalidValue ''range''))"

definition sample_put_word :: "word4 \<Rightarrow> u8 list" where
  "sample_put_word w = concat (map (le_bytes 8) (elements w))"

definition sample_get_word :: "(word4, deserialization_error) reader" where
  "sample_get_word bs =
    and_then (sample_get_felt bs) (\<lambda>(a, bs1).
    and_then (sample_get_felt bs1) (\<lambda>(b, bs2).
    and_then (sample_get_felt bs2) (\<lambda>(c, bs3).
    and_then (sample_get_felt bs3) (\<lambda>(d, bs4). Ok (W a b c d, bs4)))))"

definition sample_put_opt :: "('a \<Rightarrow> u8 list) \<Rightarrow> 'a option \<Rightarrow> u8 list" where
  "sample_put_opt wr x = (case x of None \<Rightarrow> [0] | Some y \<Rightarrow> 1 # wr y)"

definition sample_get_opt :: "('a, deserialization_error) reader \<Rightarrow> ('a option, deserialization_error) reader" where
  "sample_get_opt rd bs =
    (case bs of
       [] \<Rightarrow> Err UnexpectedEOF
     | b # bs' \<Rightarrow>
         if b = 0 then Ok (None, bs')
         else if b = 1 then map_ok (\<lambda>(x, r). (Some x, r)) (rd bs')
         else Err (InvalidValue ''flag''))"

definition hex_index :: "char \<Rightarrow> nat" where
  "hex_index c = length (takeWhile (\<lambda>x. x \<noteq> c) ''0123456789abcdef'')"

fun sample_unhex :: "string \<Rightarrow> u8 list" where
  "sample_unhex (c # d # cs) = of_nat (16 * hex_index c + hex_index d) # sample_unhex cs"
| "sample_unhex _ = []"

definition sample_hash :: "felt list \<Rightarrow> digest" where
  "sample_hash es = W (foldr (\<lambda>e h. e + 3 * h) es 7 mod P64) (of_nat (length es) mod P64) 0 0"

fun sample_merge :: "digest \<Rightarrow> digest \<Rightarrow> digest" where
  "sample_merge (W a b c d) (W a' b' c' d') =
     W ((a + 5 * a') mod P64) ((b + 5 * b') mod P64) ((c + 5 * c' + 1) mod P64) ((d + 5 * d') mod P64)"

fun sample_le :: "digest \<Rightarrow> digest \<Rightarrow> bool" where
  "sample_le (W a b c d) (W a' b' c' d') \<longleftrightarrow>
     a < a' \<or> a = a' \<and> (b < b' \<or> b = b' \<and> (c < c' \<or> c = c' \<and> d \<le> d'))"

definition sample_prims :: prims where
  "sample_prims = \<lparr>
     modulus = P64,
     felt_new = (\<lambda>x. x mod P64),
     felt_add = (\<lambda>x y. of_nat ((unat x + unat y) mod unat P64)),
     felt_try_from_bytes = sample_felt,
     hash_elements = sample_hash,
     hash_merge = sample_merge,
     hash_bytes = (\<lambda>bs. W (foldr (\<lambda>b h. ucast b + 31 * h) bs 7 mod P64) 0 0 0),
     digest_as_bytes = sample_put_word,
     digest_le = sample_le,
     hex_to_bytes = (\<lambda>n s. if length s = 2 * n + 2 then Ok (sample_unhex (drop 2 s)) else Err ''length''),
     put_u8 = le_bytes 1, get_u8 = sample_get 1,
     put_u16 = le_bytes 2, get_u16 = sample_get 2,
     put_u32 = le_bytes 4, get_u32 = sample_get 4,
     put_u64 = le_bytes 8, get_u64 = sample_get 8,
     put_bool = (\<lambda>f. [if f then 1 else 0]),
     get_bool = (\<lambda>bs. map_ok (\<lambda>(x :: u8, r). (x = 1, r)) (sample_get 1 bs)),
     put_felt = le_bytes 8, get_felt = sample_get_felt,
     put_word = sample_put_word, get_word = sample_get_word,
     put_digest = sample_put_word, get_digest = sample_get_word,
     put_opt_felt = sample_put_opt (le_bytes 8), get_opt_felt = sample_get_opt sample_get_felt,
     put_opt_word = sample_put_opt sample_put_word, get_opt_word = sample_get_opt sample_get_word,
     get_vec = (\<lambda>n bs. if length bs < n then Err UnexpectedEOF else Ok (take n bs, drop n bs)),
     show_account_error = (\<lambda>_. []),
     show_asset_error = (\<lambda>_. []),
     show_asset_vault_error = (\<lambda>_. []),
     show_account_delta_error = (\<lambda>_. []),
     show_note_error = (\<lambda>_. []),
     show_tx_input_error = (\<lambda>_. []),
     show_tx_output_error = (\<lambda>_. []),
     show_proven_tx_error = (\<lambda>_. []) \<rparr>"

lemma sample_get_le_bytes:
  "LENGTH('a::len) = 8 * n \<Longrightarrow> sample_get n (le_bytes n (x :: 'a word) @ bs) = Ok (x, bs)"
  by (simp add: sample_get_def from_le_bytes_le_bytes)

lemma sample_get_felt_le_bytes:
  "x < P64 \<Longrightarrow> sample_get_felt (le_bytes 8 x @ bs) = Ok (x, bs)"
  by (simp add: sample_get_felt_def sample_get_le_bytes)

lemma sample_get_word_put_word:
  "list_all (\<lambda>x. x < P64) (elements w) \<Longrightarrow> sample_get_word (sample_put_word w @ bs) = Ok (w, bs)"
  by (cases w) (simp add: sample_get_word_def sample_put_word_def sample_get_felt_le_bytes)

lemma sample_get_felt_range: "sample_get_felt bs = Ok (x, bs') \<Longrightarrow> x < P64"
  by (auto simp: sample_get_felt_def res_simps split: if_splits)

lemma sample_get_word_range:
  "sample_get_word bs = Ok (w, bs') \<Longrightarrow> list_all (\<lambda>x. x < P64) (elements w)"
  by (auto simp: sample_get_word_def res_simps dest: sample_get_felt_range)

lemma sample_get_opt_put_opt:
  assumes "\<And>x. x \<in> set_option ox \<Longrightarrow> rd (wr x @ bs) = Ok (x, bs)"
  shows "sample_get_opt rd (sample_put_opt wr ox @ bs) = Ok (ox, bs)"
  using assms by (cases ox) (auto simp: sample_get_opt_def sample_put_opt_def)

lemma sample_get_opt_range:
  assumes "sample_get_opt rd bs = Ok (ox, bs')" "\<And>bs x bs'. rd bs = Ok (x, bs') \<Longrightarrow> V x"
  shows "pred_option V ox"
  using assms by (auto simp: sample_get_opt_def res_simps split: list.splits if_splits)

lemma sample_put_word_inject: "sample_put_word v = sample_put_word w \<longleftrightarrow> v = w"
  by (cases v; cases w) (auto simp: sample_put_word_def le_bytes_inject)

lemma hex_index_digit: "n < 16 \<Longrightarrow> hex_index (hex_digit n) = n"
  by (simp add: hex_index_def hex_digit_def numeral_eq_Suc less_Suc_eq) (elim disjE; simp)

lemma sample_unhex_byte_hex: "sample_unhex (concat (map byte_hex bs)) = bs"
proof (induction bs)
  case (Cons b bs)
  have "unat b div 16 < 16" using unsigned_less [of b, where 'a = nat] by simp
  moreover have "unat b mod 16 < 16" by simp
  moreover have "of_nat (16 * (unat b div 16) + unat b mod 16) = b"
    by (simp only: mult_div_mod_eq) simp
  ultimately show ?case using Cons by (simp add: byte_hex_def hex_index_digit del: of_nat_add)
qed simp

lemma sample_le_order:
  "sample_le a a"
  "sample_le a b \<Longrightarrow> sample_le b a \<Longrightarrow> a = b"
  "sample_le a b \<Longrightarrow> sample_le b c \<Longrightarrow> sample_le a c"
  "\<not> sample_le b a \<Longrightarrow> sample_le a b"
  by (cases a; cases b; cases c; auto)+

lemma sample_mod_less: "(x :: u64) mod P64 < P64"
  by (rule word_mod_less_divisor) simp

lemma sample_felt_ok: "felt_ok sample_prims x \<longleftrightarrow> x < P64"
  by (simp add: felt_ok_def sample_prims_def)

lemma sample_word_ok: "word_ok sample_prims w \<longleftrightarrow> list_all (\<lambda>x. x < P64) (elements w)"
  by (cases w) (simp add: felt_ok_def sample_prims_def)

interpretation sample_felt_laws: felt_spec sample_prims
  by unfold_locales
    (auto simp: sample_prims_def felt_ok_def sample_felt_def unat_of_nat)

interpretation sample_hash_laws: hash_spec sample_prims
proof unfold_locales
  show "word_ok sample_prims (hash_elements sample_prims es)" for es
    by (simp add: sample_word_ok) (simp add: sample_prims_def sample_hash_def sample_mod_less)
  show "word_ok sample_prims (hash_merge sample_prims a b)" for a b
    by (cases a; cases b) (simp add: sample_word_ok, simp add: sample_prims_def sample_mod_less)
  show "word_ok sample_prims (hash_bytes sample_prims bs)" for bs
    by (simp add: sample_word_ok) (simp add: sample_prims_def sample_mod_less)
  show "digest_as_bytes sample_prims a = digest_as_bytes sample_prims b \<longleftrightarrow> a = b" for a b
    by (simp add: sample_prims_def sample_put_word_inject)
  have le: "digest_le sample_prims = sample_le" by (simp add: sample_prims_def)
  show "digest_le sample_prims a a" for a
    unfolding le by (rule sample_le_order)
  show "a = b" if "digest_le sample_prims a b" "digest_le sample_prims b a" for a b
    using that unfolding le by (rule sample_le_order)
  show "digest_le sample_prims a c" if "digest_le sample_prims a b" "digest_le sample_prims b c" for a b c
    using that unfolding le by (rule sample_le_order)
  show "digest_le sample_prims a b \<or> digest_le sample_prims b a" for a b
    unfolding le using sample_le_order(4) by blast
qed

interpretation sample_io_laws: io_spec sample_prims
proof unfold_locales
  show "hex_to_bytes sample_prims n (''0x'' @ concat (map byte_hex bs)) = Ok bs"
    if "length bs = n" for bs n
  proof -
    have "length (concat (map byte_hex bs)) = 2 * length bs"
      by (induction bs) (simp_all add: byte_hex_def)
    with that show ?thesis by (simp add: sample_prims_def sample_unhex_byte_hex)
  qed
  show "get_word sample_prims bs = Ok (w, bs') \<Longrightarrow> word_ok sample_prims w" for bs w bs'
    unfolding sample_word_ok by (rule sample_get_word_range) (simp add: sample_prims_def)
  show "get_digest sample_prims bs = Ok (w, bs') \<Longrightarrow> word_ok sample_prims w" for bs w bs'
    unfolding sample_word_ok by (rule sample_get_word_range) (simp add: sample_prims_def)
  show "get_felt sample_prims bs = Ok (x, bs') \<Longrightarrow> felt_ok sample_prims x" for bs x bs'
    by (simp add: sample_prims_def felt_ok_def sample_get_felt_range)
  show "get_opt_felt sample_prims (put_opt_felt sample_prims ox @ bs) = Ok (ox, bs)"
    if "pred_option (felt_ok sample_prims) ox" for ox bs
  proof -
    have "sample_get_felt (le_bytes 8 x @ bs) = Ok (x, bs)" if "x \<in> set_option ox" for x
      using that \<open>pred_option (felt_ok sample_prims) ox\<close>
      by (auto simp: felt_ok_def sample_prims_def intro: sample_get_felt_le_bytes)
    from sample_get_opt_put_opt [of ox sample_get_felt, OF this] show ?thesis by (simp add: sample_prims_def)
  qed
  show "get_opt_word sample_prims (put_opt_word sample_prims ow @ bs) = Ok (ow, bs)"
    if "pred_option (word_ok sample_prims) ow" for ow bs
  proof -
    have "sample_get_word (sample_put_word w @ bs) = Ok (w, bs)" if "w \<in> set_option ow" for w
      using that \<open>pred_option (word_ok sample_prims) ow\<close>
      by (auto simp: sample_word_ok intro: sample_get_word_put_word)
    from sample_get_opt_put_opt [of ow sample_get_word, OF this] show ?thesis by (simp add: sample_prims_def)
  qed
  show "pred_option (felt_ok sample_prims) ox" if "get_opt_felt sample_prims bs = Ok (ox, bs')" for bs ox bs'
    using that by (intro sample_get_opt_range [of sample_get_felt bs ox bs'])
      (auto simp: sample_prims_def felt_ok_def dest: sample_get_felt_range)
  show "pred_option (word_ok sample_prims) ow" if "get_opt_word sample_prims bs = Ok (ow, bs')" for bs ow bs'
    using that by (intro sample_get_opt_range [of sample_get_word bs ow bs'])
      (simp_all add: sample_word_ok sample_get_word_range, simp add: sample_prims_def)
  show "get_bool sample_prims (put_bool sample_prims f @ bs) = Ok (f, bs)" for f bs
    by (simp add: sample_prims_def sample_get_def)
qed (simp_all add: sample_word_ok, simp_all add: sample_prims_def felt_ok_def sample_get_le_bytes sample_get_felt_le_bytes
      sample_get_word_put_word split: if_splits, auto)

interpretation sample_laws: prims_spec sample_prims
  by unfold_locales

end
