(* ===== verification/Account_Id.thy ===== *)
theory Account_Id
  imports Primitives
begin

text \<open>
  Account identifiers (\<open>objects/src/accounts/account_id.rs\<close>): the metadata bits, the
  proof-of-work rule on the seed digest, and the conversions from and to integers,
  bytes, hexadecimal text and the binary format.  The proof-of-work bounds are those of
  a build without the \<open>testing\<close> feature.
\<close>

section \<open>Constants\<close>

definition ACCOUNT_STORAGE_MASK_SHIFT :: nat where
  "ACCOUNT_STORAGE_MASK_SHIFT = 62"

definition ACCOUNT_STORAGE_MASK :: u64 where
  "ACCOUNT_STORAGE_MASK = push_bit ACCOUNT_STORAGE_MASK_SHIFT 0b11"

definition ACCOUNT_TYPE_MASK_SHIFT :: nat where
  "ACCOUNT_TYPE_MASK_SHIFT = 60"

definition ACCOUNT_TYPE_MASK :: u64 where
  "ACCOUNT_TYPE_MASK = push_bit ACCOUNT_TYPE_MASK_SHIFT 0b11"

definition ACCOUNT_ISFAUCET_MASK :: u64 where
  "ACCOUNT_ISFAUCET_MASK = push_bit ACCOUNT_TYPE_MASK_SHIFT 0b10"

definition FUNGIBLE_FAUCET :: u64 where
  "FUNGIBLE_FAUCET = 0b10"

definition NON_FUNGIBLE_FAUCET :: u64 where
  "NON_FUNGIBLE_FAUCET = 0b11"

definition REGULAR_ACCOUNT_IMMUTABLE_CODE :: u64 where
  "REGULAR_ACCOUNT_IMMUTABLE_CODE = 0b00"

definition REGULAR_ACCOUNT_UPDATABLE_CODE :: u64 where
  "REGULAR_ACCOUNT_UPDATABLE_CODE = 0b01"

definition ON_CHAIN :: u64 where
  "ON_CHAIN = 0b00"

definition OFF_CHAIN :: u64 where
  "OFF_CHAIN = 0b10"

definition REGULAR_ACCOUNT_SEED_DIGEST_MIN_TRAILING_ZEROS :: nat where
  "REGULAR_ACCOUNT_SEED_DIGEST_MIN_TRAILING_ZEROS = 23"

definition FAUCET_SEED_DIGEST_MIN_TRAILING_ZEROS :: nat where
  "FAUCET_SEED_DIGEST_MIN_TRAILING_ZEROS = 31"

definition MIN_ACCOUNT_ONES :: nat where
  "MIN_ACCOUNT_ONES = 5"

lemmas account_id_consts =
  ACCOUNT_STORAGE_MASK_SHIFT_def ACCOUNT_STORAGE_MASK_def ACCOUNT_TYPE_MASK_SHIFT_def
  ACCOUNT_TYPE_MASK_def ACCOUNT_ISFAUCET_MASK_def FUNGIBLE_FAUCET_def NON_FUNGIBLE_FAUCET_def
  REGULAR_ACCOUNT_IMMUTABLE_CODE_def REGULAR_ACCOUNT_UPDATABLE_CODE_def ON_CHAIN_def OFF_CHAIN_def

section \<open>Account and storage types\<close>

definition account_type_from :: "u64 \<Rightarrow> (account_type, unit) result" where
  "account_type_from value =
    (let bits = drop_bit ACCOUNT_TYPE_MASK_SHIFT (value AND ACCOUNT_TYPE_MASK) in
     if bits = REGULAR_ACCOUNT_UPDATABLE_CODE then Ok RegularAccountUpdatableCode
     else if bits = REGULAR_ACCOUNT_IMMUTABLE_CODE then Ok RegularAccountImmutableCode
     else if bits = FUNGIBLE_FAUCET then Ok FungibleFaucet
     else if bits = NON_FUNGIBLE_FAUCET then Ok NonFungibleFaucet
     else Panic ''account_type mask contains only 2bits, there are 4 options total'')"

text \<open>
  The last branch is unreachable (\<open>account_type_from_bits\<close> below), so callers take the
  value.
\<close>

definition account_type_of :: "u64 \<Rightarrow> account_type" where
  "account_type_of value = (case account_type_from value of Ok t \<Rightarrow> t)"

definition account_type :: "account_id \<Rightarrow> account_type" where
  "account_type i = account_type_of (id_felt i)"

definition is_faucet :: "account_id \<Rightarrow> bool" where
  "is_faucet i \<longleftrightarrow> account_type i = FungibleFaucet \<or> account_type i = NonFungibleFaucet"

definition is_regular_account_int :: "u64 \<Rightarrow> bool" where
  "is_regular_account_int v \<longleftrightarrow>
     account_type_of v = RegularAccountUpdatableCode \<or> account_type_of v = RegularAccountImmutableCode"

definition is_regular_account :: "account_id \<Rightarrow> bool" where
  "is_regular_account i \<longleftrightarrow> is_regular_account_int (id_felt i)"

definition storage_type :: "account_id \<Rightarrow> (account_storage_type, 'e) result" where
  "storage_type i =
    (let bits = drop_bit ACCOUNT_STORAGE_MASK_SHIFT (id_felt i AND ACCOUNT_STORAGE_MASK) in
     if bits = ON_CHAIN then Ok OnChain
     else if bits = OFF_CHAIN then Ok OffChain
     else Panic ''Account with invalid storage bits created'')"

definition is_on_chain :: "account_id \<Rightarrow> (bool, 'e) result" where
  "is_on_chain i = map_ok (\<lambda>t. t = OnChain) (storage_type i)"

section \<open>Seed digests\<close>

definition compute_digest :: "prims \<Rightarrow> word4 \<Rightarrow> digest \<Rightarrow> digest \<Rightarrow> digest" where
  "compute_digest P seed code_root storage_root =
     hash_elements P (resize 16 0 (elements seed @ elements code_root @ elements storage_root))"

definition digest_pow :: "digest \<Rightarrow> nat" where
  "digest_pow d = trailing_zeros (w3 d)"

definition validate_seed_digest :: "digest \<Rightarrow> (unit, account_error) result" where
  "validate_seed_digest d =
    (let required_zeros = (if is_regular_account_int (w0 d)
           then REGULAR_ACCOUNT_SEED_DIGEST_MIN_TRAILING_ZEROS
           else FAUCET_SEED_DIGEST_MIN_TRAILING_ZEROS);
         zeros = digest_pow d in
     if required_zeros > zeros then Err (SeedDigestTooFewTrailingZeros required_zeros zeros)
     else Ok ())"

section \<open>Conversions\<close>

definition try_from_felt :: "felt \<Rightarrow> (account_id, account_error) result" where
  "try_from_felt value =
    (let count = count_ones value;
         bits = drop_bit ACCOUNT_STORAGE_MASK_SHIFT (value AND ACCOUNT_STORAGE_MASK) in
     if count < MIN_ACCOUNT_ONES then Err (AccountIdTooFewOnes MIN_ACCOUNT_ONES count)
     else if bits = ON_CHAIN \<or> bits = OFF_CHAIN then Ok (AccountId value)
     else Err InvalidAccountStorageType)"

definition account_id_new :: "prims \<Rightarrow> word4 \<Rightarrow> digest \<Rightarrow> digest \<Rightarrow> (account_id, account_error) result" where
  "account_id_new P seed code_root storage_root =
    (let seed_digest = compute_digest P seed code_root storage_root in
     and_then (validate_seed_digest seed_digest) (\<lambda>_. try_from_felt (w0 seed_digest)))"

definition account_id_parse_felt :: "prims \<Rightarrow> u8 list \<Rightarrow> (felt, account_error) result" where
  "account_id_parse_felt P bs = map_err AccountIdInvalidFieldElement (felt_try_from_bytes P bs)"

definition account_id_to_bytes :: "account_id \<Rightarrow> u8 list" where
  "account_id_to_bytes i = le_bytes 8 (id_felt i)"

definition account_id_try_from_bytes :: "prims \<Rightarrow> u8 list \<Rightarrow> (account_id, account_error) result" where
  "account_id_try_from_bytes P bs = and_then (account_id_parse_felt P (take 8 bs)) try_from_felt"

definition account_id_try_from_u64 :: "prims \<Rightarrow> u64 \<Rightarrow> (account_id, account_error) result" where
  "account_id_try_from_u64 P v = and_then (account_id_parse_felt P (le_bytes 8 v)) try_from_felt"

definition account_id_from_hex :: "prims \<Rightarrow> string \<Rightarrow> (account_id, account_error) result" where
  "account_id_from_hex P s =
     and_then (map_err HexParseError (hex_to_bytes P 8 s))
       (\<lambda>bs. account_id_try_from_bytes P (rev bs))"

text \<open>\<open>format!("0x{:016x}")\<close>: sixteen nibbles, the most significant first.\<close>

definition account_id_to_hex :: "account_id \<Rightarrow> string" where
  "account_id_to_hex i =
     ''0x'' @ map (\<lambda>k. hex_digit (unat (drop_bit (4 * k) (id_felt i) AND 0xF))) (rev [0..<16])"

definition write_account_id :: "prims \<Rightarrow> account_id \<Rightarrow> u8 list" where
  "write_account_id P i = put_felt P (id_felt i)"

definition read_account_id :: "prims \<Rightarrow> (account_id, deserialization_error) reader" where
  "read_account_id P bs = and_then (get_felt P bs) (\<lambda>(x, bs').
     and_then (map_err (\<lambda>e. InvalidValue (show_account_error P e)) (try_from_felt x))
       (\<lambda>i. Ok (i, bs')))"

section \<open>Properties\<close>

text \<open>The invariant of an identifier that passed validation.\<close>

definition account_id_valid :: "account_id \<Rightarrow> bool" where
  "account_id_valid i \<longleftrightarrow> 5 \<le> count_ones (id_felt i) \<and> \<not> bit (id_felt i) 62"

definition account_id_ok :: "prims \<Rightarrow> account_id \<Rightarrow> bool" where
  "account_id_ok P i \<longleftrightarrow> account_id_valid i \<and> felt_ok P (id_felt i)"

lemma masked_bits: "drop_bit n (v AND push_bit n 3) = take_bit 2 (drop_bit n v)" for v :: u64
proof -
  have three: "(3 :: u64) = mask 2" by (simp add: mask_eq_exp_minus_1)
  show ?thesis
    unfolding three by (auto intro!: bit_word_eqI simp: bit_simps)
      (use bit_imp_le_length [of v] in force)
qed

lemma type_bits:
  "drop_bit ACCOUNT_TYPE_MASK_SHIFT (v AND ACCOUNT_TYPE_MASK) = of_bool (bit v 60) + 2 * of_bool (bit v 61)"
  by (simp add: account_id_consts masked_bits [of 60, simplified] take_bit_two bit_drop_bit_eq)

lemma storage_bits:
  "drop_bit ACCOUNT_STORAGE_MASK_SHIFT (v AND ACCOUNT_STORAGE_MASK)
     = of_bool (bit v 62) + 2 * of_bool (bit v 63)"
  by (simp add: account_id_consts masked_bits [of 62, simplified] take_bit_two bit_drop_bit_eq)

lemma account_type_from_bits:
  "account_type_from v = Ok
    (if bit v 61 then if bit v 60 then NonFungibleFaucet else FungibleFaucet
     else if bit v 60 then RegularAccountUpdatableCode else RegularAccountImmutableCode)"
  unfolding account_type_from_def type_bits
  by (simp add: account_id_consts)

lemma account_type_of_bits:
  "account_type_of v =
    (if bit v 61 then if bit v 60 then NonFungibleFaucet else FungibleFaucet
     else if bit v 60 then RegularAccountUpdatableCode else RegularAccountImmutableCode)"
  by (simp add: account_type_of_def account_type_from_bits)

lemma is_faucet_bit: "is_faucet i \<longleftrightarrow> bit (id_felt i) 61"
  by (simp add: is_faucet_def account_type_def account_type_of_bits)

lemma is_regular_account_int_bit: "is_regular_account_int v \<longleftrightarrow> \<not> bit v 61"
  by (simp add: is_regular_account_int_def account_type_of_bits)

lemma storage_type_bits:
  "storage_type i =
    (if bit (id_felt i) 62 then Panic ''Account with invalid storage bits created''
     else Ok (if bit (id_felt i) 63 then OffChain else OnChain))"
  unfolding storage_type_def storage_bits
  by (simp add: account_id_consts)

lemma try_from_felt_cases:
  "try_from_felt v =
    (if count_ones v < 5 then Err (AccountIdTooFewOnes 5 (count_ones v))
     else if bit v 62 then Err InvalidAccountStorageType
     else Ok (AccountId v))"
  unfolding try_from_felt_def storage_bits
  by (simp add: account_id_consts MIN_ACCOUNT_ONES_def)

lemma try_from_felt_eq_Ok:
  "try_from_felt v = Ok i \<longleftrightarrow> i = AccountId v \<and> account_id_valid i"
  by (auto simp: try_from_felt_cases account_id_valid_def)

lemma try_from_felt_valid: "account_id_valid i \<Longrightarrow> try_from_felt (id_felt i) = Ok i"
  by (cases i) (simp add: try_from_felt_eq_Ok)

lemma try_from_felt_no_Panic: "try_from_felt v \<noteq> Panic m"
  by (simp add: try_from_felt_cases)

lemma storage_type_valid:
  "account_id_valid i \<Longrightarrow> storage_type i = Ok (if bit (id_felt i) 63 then OffChain else OnChain)"
  by (simp add: storage_type_bits account_id_valid_def)

lemma validate_seed_digest_Ok:
  "validate_seed_digest d = Ok () \<longleftrightarrow>
     (if bit (w0 d) 61 then 31 else 23) \<le> trailing_zeros (w3 d)"
  by (auto simp: validate_seed_digest_def is_regular_account_int_bit digest_pow_def Let_def
      REGULAR_ACCOUNT_SEED_DIGEST_MIN_TRAILING_ZEROS_def FAUCET_SEED_DIGEST_MIN_TRAILING_ZEROS_def)

lemma and_15_mod: "w AND 15 = w mod 16" for w :: u64
proof -
  have "w AND 15 = w AND mask 4" by (simp add: mask_eq_exp_minus_1)
  also have "\<dots> = w mod 16" by (simp add: take_bit_eq_mod flip: take_bit_eq_mask)
  finally show ?thesis .
qed

lemma nibble_high: "unat (ucast w :: u8) div 16 = unat (drop_bit 4 w AND 15)" for w :: u64
proof -
  have "unat (drop_bit 4 w AND 15) = unat w div 16 mod 16"
    by (simp add: and_15_mod unat_mod unat_div drop_bit_eq_div)
  moreover have "unat (ucast w :: u8) = unat w mod 256"
    by (simp add: unsigned_ucast_eq take_bit_eq_mod)
  ultimately show ?thesis using mod_mult2_eq [of "unat w" 16 16] by simp
qed

lemma nibble_low: "unat (ucast w :: u8) mod 16 = unat (w AND 15)" for w :: u64
proof -
  have "unat (w AND 15) = unat w mod 16"
    by (simp add: and_15_mod unat_mod)
  moreover have "unat (ucast w :: u8) = unat w mod 256"
    by (simp add: unsigned_ucast_eq take_bit_eq_mod)
  ultimately show ?thesis by (simp add: mod_mod_cancel)
qed

lemma byte_hex_nibbles:
  "byte_hex (ucast (drop_bit (8 * i) x))
     = map (\<lambda>k. hex_digit (unat (drop_bit (4 * k) x AND 15))) [2 * i + 1, 2 * i]" for x :: u64
proof -
  have "drop_bit 4 (drop_bit (8 * i) x) = drop_bit (4 * (2 * i + 1)) x"
    by (simp add: drop_bit_drop_bit add.commute algebra_simps)
  then show ?thesis by (simp add: byte_hex_def nibble_high nibble_low)
qed

lemma rev_upt_pairs:
  "map f (rev [0..<2 * n]) = concat (map (\<lambda>k. map f [2 * k + 1, 2 * k]) (rev [0..<n]))"
  by (induction n) simp_all

lemma account_id_to_hex_bytes:
  "account_id_to_hex i = ''0x'' @ concat (map byte_hex (rev (account_id_to_bytes i)))"
proof -
  define nib where "nib k = hex_digit (unat (drop_bit (4 * k) (id_felt i) AND 15))" for k
  have "map nib (rev [0..<16]) = concat (map (\<lambda>k. map nib [2 * k + 1, 2 * k]) (rev [0..<8]))"
    using rev_upt_pairs [of nib 8] by simp
  also have "\<dots> = concat (map byte_hex (rev (account_id_to_bytes i)))"
    by (simp only: account_id_to_bytes_def le_bytes_def rev_map map_map comp_def byte_hex_nibbles
        nib_def [abs_def])
  finally show ?thesis by (simp only: account_id_to_hex_def nib_def [abs_def])
qed

lemma compute_digest_elements:
  "compute_digest P seed code stg =
     hash_elements P (elements seed @ elements code @ elements stg @ [0, 0, 0, 0])"
  by (simp add: compute_digest_def resize_def numeral_eq_Suc)

lemma account_id_new_Ok:
  "account_id_new P seed code stg = Ok i \<longleftrightarrow>
     i = AccountId (w0 (compute_digest P seed code stg)) \<and> account_id_valid i \<and>
     (if is_faucet i then 31 else 23) \<le> trailing_zeros (w3 (compute_digest P seed code stg))"
proof -
  have "validate_seed_digest d = Ok u \<longleftrightarrow> (if bit (w0 d) 61 then 31 else 23) \<le> trailing_zeros (w3 d)"
    for d u using validate_seed_digest_Ok [of d] by simp
  then show ?thesis
    by (auto simp: account_id_new_def Let_def res_simps try_from_felt_eq_Ok is_faucet_bit)
qed

context felt_spec
begin

lemma account_id_bytes_round_trip:
  "account_id_ok P i \<Longrightarrow> account_id_try_from_bytes P (account_id_to_bytes i) = Ok i"
  by (simp add: account_id_try_from_bytes_def account_id_to_bytes_def account_id_parse_felt_def
      felt_try_from_le_bytes account_id_ok_def try_from_felt_valid)

lemma account_id_u64_round_trip:
  "account_id_ok P i \<Longrightarrow> account_id_try_from_u64 P (id_felt i) = Ok i"
  by (simp add: account_id_try_from_u64_def account_id_parse_felt_def
      felt_try_from_le_bytes account_id_ok_def try_from_felt_valid)

lemma account_id_try_from_u64_Ok:
  "account_id_try_from_u64 P v = Ok i \<longleftrightarrow> i = AccountId v \<and> account_id_ok P i"
proof (cases "felt_ok P v")
  case True
  then show ?thesis
    by (auto simp: account_id_try_from_u64_def account_id_parse_felt_def felt_try_from_le_bytes
        try_from_felt_eq_Ok account_id_ok_def)
next
  case False
  then obtain e where "felt_try_from_bytes P (le_bytes 8 v) = Err e"
    using felt_from_bytes_err [of "le_bytes 8 v"] by (auto simp: from_le_bytes_le_bytes)
  then show ?thesis using False
    by (auto simp: account_id_try_from_u64_def account_id_parse_felt_def account_id_ok_def)
qed

end

context io_spec
begin

lemma read_write_account_id:
  "account_id_ok P i \<Longrightarrow> read_account_id P (write_account_id P i @ bs) = Ok (i, bs)"
  by (simp add: read_account_id_def write_account_id_def account_id_ok_def get_put_felt
      try_from_felt_valid)

lemma read_account_id_ok:
  "read_account_id P bs = Ok (i, bs') \<Longrightarrow> account_id_ok P i"
  by (auto simp: read_account_id_def res_simps try_from_felt_eq_Ok account_id_ok_def
      dest: get_felt_ok)

end

sublocale io_spec \<subseteq> c_account_id: codec "write_account_id P" "read_account_id P" "account_id_ok P"
  by unfold_locales (rule read_write_account_id)

context prims_spec
begin

lemma account_id_hex_round_trip:
  "account_id_ok P i \<Longrightarrow> account_id_from_hex P (account_id_to_hex i) = Ok i"
  using hex_round_trip [of "rev (account_id_to_bytes i)" 8] account_id_bytes_round_trip [of i]
  by (simp add: account_id_from_hex_def account_id_to_hex_bytes account_id_to_bytes_def)

end

section \<open>Theorems\<close>

text \<open>
  C35. Creating an identifier from a seed succeeds exactly when element 0 of the seed digest
  has at least five one bits and a valid storage tag, and element 3 has at least 31 (faucet)
  or 23 (regular account) trailing zeros; the identifier is element 0.
\<close>

theorem account_id_new_iff:
  "account_id_new P seed code stg = Ok i \<longleftrightarrow>
     i = AccountId (w0 (compute_digest P seed code stg)) \<and>
     5 \<le> count_ones (id_felt i) \<and> \<not> bit (id_felt i) 62 \<and>
     (if is_faucet i then 31 else 23) \<le> trailing_zeros (w3 (compute_digest P seed code stg))"
  by (auto simp: account_id_new_Ok account_id_valid_def)

text \<open>
  An identifier accepted from a field element carries valid metadata: reading its
  storage type does not panic and returns what the top bit says, and it is either a faucet
  or a regular account.
\<close>

theorem account_id_accepted_metadata:
  assumes "try_from_felt v = Ok i"
  shows "storage_type i = (Ok (if bit v 63 then OffChain else OnChain) :: (account_storage_type, account_error) result)
    \<and> is_on_chain i = (Ok (\<not> bit v 63) :: (bool, account_error) result)
    \<and> (is_faucet i \<longleftrightarrow> \<not> is_regular_account i)"
  using assms
  by (auto simp: try_from_felt_eq_Ok is_on_chain_def storage_type_valid is_faucet_bit
      is_regular_account_def is_regular_account_int_bit)

theorem account_id_accepted_metadata_witness:
  "storage_type (AccountId 0x900000000000001F)
     = (Ok OffChain :: (account_storage_type, account_error) result)"
proof -
  have "try_from_felt 0x900000000000001F = Ok (AccountId 0x900000000000001F)"
    by (simp add: try_from_felt_cases bit_eval)
  from account_id_accepted_metadata [OF this] show ?thesis by simp
qed

text \<open>
  C36. The encodings of an identifier as bytes, as an integer, as hexadecimal text and in the
  binary format are all read back as the same identifier.
\<close>

theorem account_id_round_trips:
  assumes "prims_spec P" "account_id_ok P i"
  shows "account_id_try_from_bytes P (account_id_to_bytes i) = Ok i
    \<and> account_id_try_from_u64 P (id_felt i) = Ok i
    \<and> account_id_from_hex P (account_id_to_hex i) = Ok i
    \<and> read_account_id P (write_account_id P i @ bs) = Ok (i, bs)"
  using assms prims_spec.axioms
  by (simp add: felt_spec.account_id_bytes_round_trip felt_spec.account_id_u64_round_trip
      prims_spec.account_id_hex_round_trip io_spec.read_write_account_id)

theorem account_id_round_trips_witness:
  "account_id_from_hex sample_prims (account_id_to_hex (AccountId 0x900000000000001F))
     = Ok (AccountId 0x900000000000001F)"
  using account_id_round_trips [OF sample_laws.prims_spec_axioms, of "AccountId 0x900000000000001F"]
  by (simp add: account_id_ok_def account_id_valid_def felt_ok_def bit_eval sample_prims_def)

end
