(* ===== verification/Asset.thy ===== *)
theory Asset
  imports Account_Id
begin

text \<open>
  Assets (\<open>objects/src/assets/mod.rs\<close>, \<open>fungible.rs\<close>, \<open>nonfungible.rs\<close>): validation,
  arithmetic of fungible amounts, vault keys, and the word, byte and binary encodings.
\<close>

section \<open>Fungible assets\<close>

definition MAX_AMOUNT :: u64 where
  "MAX_AMOUNT = push_bit 63 1 - 1"

definition is_not_a_non_fungible_asset :: "word4 \<Rightarrow> bool" where
  "is_not_a_non_fungible_asset w \<longleftrightarrow> w3 w AND ACCOUNT_ISFAUCET_MASK = ACCOUNT_ISFAUCET_MASK"

definition fungible_validate :: "fungible_asset \<Rightarrow> (unit, asset_error) result" where
  "fungible_validate a =
    (let ty = account_type (fa_faucet_id a) in
     if ty \<noteq> FungibleFaucet then Err (NotAFungibleFaucetId (fa_faucet_id a) ty)
     else if fa_amount a > MAX_AMOUNT then Err (AmountTooBig (fa_amount a))
     else Ok ())"

definition fungible_new :: "account_id \<Rightarrow> u64 \<Rightarrow> (fungible_asset, asset_error) result" where
  "fungible_new faucet_id amount =
    (let a = \<lparr> fa_faucet_id = faucet_id, fa_amount = amount \<rparr> in
     and_then (fungible_validate a) (\<lambda>_. Ok a))"

definition fungible_new_unchecked :: "word4 \<Rightarrow> fungible_asset" where
  "fungible_new_unchecked w = \<lparr> fa_faucet_id = AccountId (w3 w), fa_amount = w0 w \<rparr>"

definition is_from_same_faucet :: "fungible_asset \<Rightarrow> fungible_asset \<Rightarrow> bool" where
  "is_from_same_faucet a b \<longleftrightarrow> fa_faucet_id a = fa_faucet_id b"

definition fungible_vault_key :: "fungible_asset \<Rightarrow> word4" where
  "fungible_vault_key a = W 0 0 0 (id_felt (fa_faucet_id a))"

definition fungible_add :: "fungible_asset \<Rightarrow> fungible_asset \<Rightarrow> (fungible_asset, asset_error) result" where
  "fungible_add a b =
    (if fa_faucet_id a \<noteq> fa_faucet_id b then
       Err (InconsistentFaucetIds (fa_faucet_id a) (fa_faucet_id b))
     else
       and_then (expect_some ''overflow!'' (checked_add (fa_amount a) (fa_amount b))) (\<lambda>amount.
         if amount > MAX_AMOUNT then Err (AmountTooBig amount)
         else Ok \<lparr> fa_faucet_id = fa_faucet_id a, fa_amount = amount \<rparr>))"

definition fungible_sub :: "fungible_asset \<Rightarrow> u64 \<Rightarrow> fungible_asset \<times> (fungible_asset, asset_error) result" where
  "fungible_sub a amount =
    (case checked_sub (fa_amount a) amount of
       None \<Rightarrow> (a, Err (AssetAmountNotSufficient (fa_amount a) amount))
     | Some rest \<Rightarrow> (a\<lparr> fa_amount := rest \<rparr>,
         Ok \<lparr> fa_faucet_id = fa_faucet_id a, fa_amount = amount \<rparr>))"

definition fungible_to_word :: "prims \<Rightarrow> fungible_asset \<Rightarrow> word4" where
  "fungible_to_word P a = W (felt_new P (fa_amount a)) 0 0 (id_felt (fa_faucet_id a))"

definition fungible_to_bytes :: "fungible_asset \<Rightarrow> u8 list" where
  "fungible_to_bytes a =
     le_bytes 8 (fa_amount a) @ replicate 16 0 @ account_id_to_bytes (fa_faucet_id a)"

definition fungible_try_from_word :: "prims \<Rightarrow> word4 \<Rightarrow> (fungible_asset, asset_error) result" where
  "fungible_try_from_word P w =
    (if (w1 w, w2 w) \<noteq> (0, 0) then Err (FungibleAssetInvalidWord w)
     else and_then (map_err (\<lambda>e. InvalidAccountId (show_account_error P e)) (try_from_felt (w3 w)))
       (\<lambda>faucet_id. fungible_new faucet_id (w0 w)))"

section \<open>Non-fungible assets\<close>

text \<open>Position 1 of the word holds the faucet identifier (\<open>FAUCET_ID_POS\<close>).\<close>

definition non_fungible_from_parts :: "prims \<Rightarrow> account_id \<Rightarrow> word4 \<Rightarrow> (non_fungible_asset, asset_error) result" where
  "non_fungible_from_parts P faucet_id data_hash =
    (if account_type faucet_id \<noteq> NonFungibleFaucet then Err (NotANonFungibleFaucetId faucet_id)
     else
       let d3 = w3 data_hash in
       Ok (NonFungibleAsset (W (w0 data_hash) (id_felt faucet_id) (w2 data_hash)
         (felt_new P ((d3 AND ACCOUNT_ISFAUCET_MASK) XOR d3)))))"

record non_fungible_details =
  nfd_faucet_id :: account_id
  nfd_asset_data :: "u8 list"

definition non_fungible_details_new :: "account_id \<Rightarrow> u8 list \<Rightarrow> (non_fungible_details, asset_error) result" where
  "non_fungible_details_new faucet_id asset_data =
    (if account_type faucet_id \<noteq> NonFungibleFaucet then Err (NotANonFungibleFaucetId faucet_id)
     else Ok \<lparr> nfd_faucet_id = faucet_id, nfd_asset_data = asset_data \<rparr>)"

definition non_fungible_new :: "prims \<Rightarrow> non_fungible_details \<Rightarrow> (non_fungible_asset, asset_error) result" where
  "non_fungible_new P details =
     non_fungible_from_parts P (nfd_faucet_id details) (hash_bytes P (nfd_asset_data details))"

definition non_fungible_vault_key :: "non_fungible_asset \<Rightarrow> word4" where
  "non_fungible_vault_key a = nfa_word a"

definition non_fungible_faucet_id :: "non_fungible_asset \<Rightarrow> account_id" where
  "non_fungible_faucet_id a = AccountId (w1 (nfa_word a))"

definition non_fungible_validate :: "prims \<Rightarrow> non_fungible_asset \<Rightarrow> (unit, asset_error) result" where
  "non_fungible_validate P a =
     and_then (map_err (\<lambda>e. InvalidAccountId (show_account_error P e)) (try_from_felt (w1 (nfa_word a))))
       (\<lambda>faucet_id.
          let ty = account_type faucet_id in
          if ty \<noteq> NonFungibleFaucet then Err (NotAFungibleFaucetId faucet_id ty)
          else Ok ())"

definition non_fungible_to_bytes :: "non_fungible_asset \<Rightarrow> u8 list" where
  "non_fungible_to_bytes a =
     le_bytes 8 (w0 (nfa_word a)) @ le_bytes 8 (w1 (nfa_word a))
       @ le_bytes 8 (w2 (nfa_word a)) @ le_bytes 8 (w3 (nfa_word a))"

definition non_fungible_try_from_word :: "prims \<Rightarrow> word4 \<Rightarrow> (non_fungible_asset, asset_error) result" where
  "non_fungible_try_from_word P w =
    (let a = NonFungibleAsset w in and_then (non_fungible_validate P a) (\<lambda>_. Ok a))"

section \<open>Assets\<close>

definition asset_new_unchecked :: "word4 \<Rightarrow> asset" where
  "asset_new_unchecked w =
    (if is_not_a_non_fungible_asset w then Fungible (fungible_new_unchecked w)
     else NonFungible (NonFungibleAsset w))"

fun is_same :: "asset \<Rightarrow> asset \<Rightarrow> bool" where
  "is_same (Fungible l) (Fungible r) \<longleftrightarrow> is_from_same_faucet l r"
| "is_same (NonFungible l) (NonFungible r) \<longleftrightarrow> l = r"
| "is_same _ _ \<longleftrightarrow> False"

fun is_fungible :: "asset \<Rightarrow> bool" where
  "is_fungible (Fungible _) \<longleftrightarrow> True"
| "is_fungible (NonFungible _) \<longleftrightarrow> False"

fun asset_vault_key :: "asset \<Rightarrow> word4" where
  "asset_vault_key (Fungible a) = fungible_vault_key a"
| "asset_vault_key (NonFungible a) = non_fungible_vault_key a"

fun asset_to_word :: "prims \<Rightarrow> asset \<Rightarrow> word4" where
  "asset_to_word P (Fungible a) = fungible_to_word P a"
| "asset_to_word P (NonFungible a) = nfa_word a"

fun asset_to_bytes :: "asset \<Rightarrow> u8 list" where
  "asset_to_bytes (Fungible a) = fungible_to_bytes a"
| "asset_to_bytes (NonFungible a) = non_fungible_to_bytes a"

definition asset_try_from_word :: "prims \<Rightarrow> word4 \<Rightarrow> (asset, asset_error) result" where
  "asset_try_from_word P w =
    (if is_not_a_non_fungible_asset w then map_ok Fungible (fungible_try_from_word P w)
     else map_ok NonFungible (non_fungible_try_from_word P w))"

definition asset_parse_felt :: "prims \<Rightarrow> u8 list \<Rightarrow> (felt, asset_error) result" where
  "asset_parse_felt P bs = map_err InvalidFieldElement (felt_try_from_bytes P bs)"

definition parse_word :: "prims \<Rightarrow> u8 list \<Rightarrow> (word4, asset_error) result" where
  "parse_word P bs =
     and_then (asset_parse_felt P (take 8 bs)) (\<lambda>a.
     and_then (asset_parse_felt P (take 8 (drop 8 bs))) (\<lambda>b.
     and_then (asset_parse_felt P (take 8 (drop 16 bs))) (\<lambda>c.
     and_then (asset_parse_felt P (drop 24 bs)) (\<lambda>d. Ok (W a b c d)))))"

definition asset_try_from_bytes :: "prims \<Rightarrow> u8 list \<Rightarrow> (asset, asset_error) result" where
  "asset_try_from_bytes P bs = and_then (parse_word P bs) (asset_try_from_word P)"

definition write_asset :: "prims \<Rightarrow> asset \<Rightarrow> u8 list" where
  "write_asset P a = asset_to_bytes a"

definition read_asset :: "prims \<Rightarrow> (asset, deserialization_error) reader" where
  "read_asset P bs =
     and_then (get_vec P 32 bs) (\<lambda>(data_vec, bs').
       if length data_vec \<noteq> 32 then Panic ''Vec must be of size 32''
       else and_then (map_err (\<lambda>e. InvalidValue (show_asset_error P e)) (asset_try_from_bytes P data_vec))
         (\<lambda>a. Ok (a, bs')))"

section \<open>Well-formed assets\<close>

definition fungible_ok :: "prims \<Rightarrow> fungible_asset \<Rightarrow> bool" where
  "fungible_ok P a \<longleftrightarrow>
     account_id_ok P (fa_faucet_id a) \<and> account_type (fa_faucet_id a) = FungibleFaucet \<and>
     fa_amount a \<le> MAX_AMOUNT"

definition non_fungible_ok :: "prims \<Rightarrow> non_fungible_asset \<Rightarrow> bool" where
  "non_fungible_ok P a \<longleftrightarrow>
     word_ok P (nfa_word a) \<and> account_id_valid (non_fungible_faucet_id a) \<and>
     account_type (non_fungible_faucet_id a) = NonFungibleFaucet \<and> \<not> bit (w3 (nfa_word a)) 61"

fun asset_ok :: "prims \<Rightarrow> asset \<Rightarrow> bool" where
  "asset_ok P (Fungible a) \<longleftrightarrow> fungible_ok P a"
| "asset_ok P (NonFungible a) \<longleftrightarrow> non_fungible_ok P a"

lemma is_same_sym: "is_same a b = is_same b a"
  by (cases a; cases b) (auto simp: is_from_same_faucet_def)

lemma unat_MAX_AMOUNT: "unat MAX_AMOUNT = 2 ^ 63 - 1"
  by (simp add: MAX_AMOUNT_def)

lemma le_MAX_AMOUNT_iff: "x \<le> MAX_AMOUNT \<longleftrightarrow> unat x < 2 ^ 63"
  unfolding word_le_nat_alt unat_MAX_AMOUNT by auto

lemma faucet_mask_bit: "bit ACCOUNT_ISFAUCET_MASK n \<longleftrightarrow> n = 61"
proof -
  have mask: "ACCOUNT_ISFAUCET_MASK = push_bit 61 1"
    by (simp add: account_id_consts)
  show ?thesis unfolding mask push_bit_of_1 bit_exp_iff by auto
qed

lemma is_not_a_non_fungible_asset_bit: "is_not_a_non_fungible_asset w \<longleftrightarrow> bit (w3 w) 61"
proof
  assume "is_not_a_non_fungible_asset w"
  then have "bit (w3 w AND ACCOUNT_ISFAUCET_MASK) 61"
    by (simp add: is_not_a_non_fungible_asset_def faucet_mask_bit)
  then show "bit (w3 w) 61" by (simp add: bit_and_iff)
next
  assume "bit (w3 w) 61"
  then show "is_not_a_non_fungible_asset w"
    unfolding is_not_a_non_fungible_asset_def
    by (intro bit_word_eqI) (auto simp only: bit_and_iff faucet_mask_bit)
qed

lemma clear_faucet_bit:
  "bit ((d AND ACCOUNT_ISFAUCET_MASK) XOR d) n \<longleftrightarrow> bit d n \<and> n \<noteq> 61"
  by (auto simp: bit_xor_iff bit_and_iff faucet_mask_bit)

lemma clear_faucet_bit_le: "(d AND ACCOUNT_ISFAUCET_MASK) XOR d \<le> d"
proof -
  have "(d AND ACCOUNT_ISFAUCET_MASK) XOR d = d AND NOT ACCOUNT_ISFAUCET_MASK"
    by (rule bit_word_eqI) (auto simp: clear_faucet_bit bit_simps faucet_mask_bit)
  then show ?thesis by (simp add: word_and_le2)
qed

lemma fungible_faucet_bits: "account_type i = FungibleFaucet \<Longrightarrow> bit (id_felt i) 61"
  by (auto simp: account_type_def account_type_of_bits split: if_splits)

lemma fungible_validate_Ok:
  "fungible_validate a = Ok u \<longleftrightarrow> account_type (fa_faucet_id a) = FungibleFaucet \<and> fa_amount a \<le> MAX_AMOUNT"
  by (auto simp: fungible_validate_def Let_def not_less)

lemma fungible_new_Ok:
  "fungible_new f x = Ok a \<longleftrightarrow>
     a = \<lparr> fa_faucet_id = f, fa_amount = x \<rparr> \<and> account_type f = FungibleFaucet \<and> x \<le> MAX_AMOUNT"
  by (auto simp: fungible_new_def Let_def res_simps fungible_validate_Ok)

lemma fungible_add_cases:
  assumes "fa_faucet_id a = fa_faucet_id b" "fa_amount a \<le> MAX_AMOUNT" "fa_amount b \<le> MAX_AMOUNT"
  shows "fungible_add a b =
    (if unat (fa_amount a) + unat (fa_amount b) < 2 ^ 63
     then Ok \<lparr> fa_faucet_id = fa_faucet_id a, fa_amount = fa_amount a + fa_amount b \<rparr>
     else Err (AmountTooBig (fa_amount a + fa_amount b)))"
proof -
  have "unat (fa_amount a) + unat (fa_amount b) < 2 ^ 64"
    using assms by (simp add: le_MAX_AMOUNT_iff)
  moreover from this have "unat (fa_amount a + fa_amount b) = unat (fa_amount a) + unat (fa_amount b)"
    by (simp add: unat_word_ariths)
  ultimately show ?thesis using assms(1)
    by (simp add: fungible_add_def checked_add_def word_less_nat_alt unat_MAX_AMOUNT)
qed

lemma non_fungible_validate_Ok:
  "non_fungible_validate P a = Ok u \<longleftrightarrow>
     account_id_valid (non_fungible_faucet_id a) \<and> account_type (non_fungible_faucet_id a) = NonFungibleFaucet"
  by (auto simp: non_fungible_validate_def res_simps Let_def try_from_felt_eq_Ok non_fungible_faucet_id_def)

lemma asset_try_from_word_ok:
  assumes "asset_try_from_word P w = Ok a" "word_ok P w"
  shows "asset_ok P a"
  using assms
  by (cases w) (auto simp: asset_try_from_word_def res_simps fungible_try_from_word_def fungible_new_Ok
      non_fungible_try_from_word_def Let_def non_fungible_validate_Ok try_from_felt_eq_Ok fungible_ok_def
      non_fungible_ok_def account_id_ok_def is_not_a_non_fungible_asset_bit split: if_splits)

lemma asset_try_from_word_no_Panic: "asset_try_from_word P w \<noteq> Panic m"
  by (auto simp: asset_try_from_word_def res_simps fungible_try_from_word_def fungible_new_def
      fungible_validate_def non_fungible_validate_def
      non_fungible_try_from_word_def Let_def try_from_felt_no_Panic split: if_splits)

context felt_spec
begin

lemma amount_felt_new: "x \<le> MAX_AMOUNT \<Longrightarrow> felt_new P x = x"
  by (rule felt_new_id) (simp add: felt_ok_63_bits le_MAX_AMOUNT_iff)

lemma fungible_to_word_ok:
  "fungible_ok P a \<Longrightarrow> fungible_to_word P a = W (fa_amount a) 0 0 (id_felt (fa_faucet_id a))"
  by (simp add: fungible_to_word_def fungible_ok_def amount_felt_new)

lemma fungible_new_unchecked_to_word:
  "fungible_ok P a \<Longrightarrow> fungible_new_unchecked (fungible_to_word P a) = a"
  by (simp add: fungible_to_word_ok fungible_new_unchecked_def)

lemma asset_word_ok: "asset_ok P a \<Longrightarrow> word_ok P (asset_to_word P a)"
  by (cases a) (auto simp: fungible_to_word_ok fungible_ok_def account_id_ok_def felt_ok_zero
      non_fungible_ok_def le_MAX_AMOUNT_iff felt_ok_63_bits)

lemma asset_word_round_trip:
  assumes "asset_ok P a"
  shows "asset_try_from_word P (asset_to_word P a) = Ok a"
proof (cases a)
  case (Fungible fa)
  with assms have fa: "fungible_ok P fa" by simp
  then have "bit (id_felt (fa_faucet_id fa)) 61" by (simp add: fungible_ok_def fungible_faucet_bits)
  moreover have "fungible_new (fa_faucet_id fa) (fa_amount fa) = Ok fa"
    using fa by (simp add: fungible_new_Ok fungible_ok_def)
  ultimately show ?thesis using fa Fungible
    by (simp add: asset_try_from_word_def is_not_a_non_fungible_asset_bit fungible_to_word_ok
        fungible_try_from_word_def try_from_felt_valid fungible_ok_def account_id_ok_def)
next
  case (NonFungible nfa)
  with assms have nfa: "non_fungible_ok P nfa" by simp
  then have "non_fungible_validate P nfa = Ok ()"
    by (simp add: non_fungible_validate_Ok non_fungible_ok_def)
  with nfa NonFungible show ?thesis
    by (simp add: asset_try_from_word_def is_not_a_non_fungible_asset_bit non_fungible_ok_def
        non_fungible_try_from_word_def)
qed

lemma asset_new_unchecked_to_word: "asset_ok P a \<Longrightarrow> asset_new_unchecked (asset_to_word P a) = a"
  by (cases a) (auto simp: asset_new_unchecked_def is_not_a_non_fungible_asset_bit fungible_to_word_ok
      fungible_new_unchecked_def fungible_ok_def fungible_faucet_bits non_fungible_ok_def)

lemma asset_word_inject:
  "asset_ok P a \<Longrightarrow> asset_ok P b \<Longrightarrow> asset_to_word P a = asset_to_word P b \<longleftrightarrow> a = b"
  using asset_word_round_trip by (metis result.inject(1))

lemma asset_try_from_word_to_word:
  assumes "asset_try_from_word P w = Ok a" "word_ok P w"
  shows "asset_to_word P a = w"
  using assms asset_try_from_word_ok [OF assms]
  by (cases w) (auto simp: asset_try_from_word_def res_simps fungible_try_from_word_def fungible_new_Ok
      non_fungible_try_from_word_def Let_def try_from_felt_eq_Ok fungible_to_word_ok split: if_splits)

lemma asset_to_bytes_words:
  "asset_ok P a \<Longrightarrow> asset_to_bytes a = concat (map (le_bytes 8) (elements (asset_to_word P a)))"
  by (cases a; cases "asset_to_word P a")
    (auto simp: fungible_to_word_ok fungible_to_bytes_def account_id_to_bytes_def
      non_fungible_to_bytes_def le_bytes_def numeral_eq_Suc)

lemma parse_word_le_bytes:
  "word_ok P w \<Longrightarrow> parse_word P (concat (map (le_bytes 8) (elements w))) = Ok w"
  by (cases w) (simp add: parse_word_def asset_parse_felt_def felt_try_from_le_bytes)

lemma asset_bytes_round_trip:
  "asset_ok P a \<Longrightarrow> asset_try_from_bytes P (asset_to_bytes a) = Ok a"
  by (simp add: asset_try_from_bytes_def asset_to_bytes_words parse_word_le_bytes asset_word_ok
      asset_word_round_trip)

lemma asset_vault_key_iff:
  "asset_ok P a \<Longrightarrow> asset_ok P b \<Longrightarrow> asset_vault_key a = asset_vault_key b \<longleftrightarrow> is_same a b"
  by (cases a; cases b)
    (auto simp: fungible_vault_key_def non_fungible_vault_key_def is_from_same_faucet_def
      non_fungible_asset.expand account_id.expand fungible_ok_def non_fungible_ok_def
      dest!: fungible_faucet_bits, metis word4.sel(4))

end

context prims_spec
begin

lemma read_write_asset:
  "asset_ok P a \<Longrightarrow> read_asset P (write_asset P a @ bs) = Ok (a, bs)"
proof -
  assume ok: "asset_ok P a"
  then have len: "length (asset_to_bytes a) = 32"
    by (cases "asset_to_word P a") (simp add: asset_to_bytes_words)
  have "get_vec P 32 (asset_to_bytes a @ bs) = Ok (asset_to_bytes a, bs)"
    using get_vec_append [of "asset_to_bytes a" bs] len by simp
  then show ?thesis using len ok
    by (simp add: read_asset_def write_asset_def asset_bytes_round_trip)
qed

lemma asset_parse_felt_ok:
  "asset_parse_felt P bs = Ok x \<Longrightarrow> length bs = 8 \<Longrightarrow> felt_ok P x"
  using felt_from_bytes_ok [of bs] felt_from_bytes_err [of bs]
  by (cases "felt_ok P (from_le_bytes bs)") (auto simp: asset_parse_felt_def res_simps)

lemma parse_word_word_ok: "length bs = 32 \<Longrightarrow> parse_word P bs = Ok w \<Longrightarrow> word_ok P w"
  by (auto simp: parse_word_def res_simps) (erule asset_parse_felt_ok, simp)+

lemma read_asset_ok:
  "read_asset P bs = Ok (a, bs') \<Longrightarrow> asset_ok P a"
  by (auto simp: read_asset_def res_simps asset_try_from_bytes_def split: if_splits
      dest: parse_word_word_ok intro: asset_try_from_word_ok)

end

sublocale prims_spec \<subseteq> c_asset: codec "write_asset P" "read_asset P" "asset_ok P"
  by unfold_locales (rule read_write_asset)

section \<open>Theorems\<close>

text \<open>
  Two well-formed assets have the same vault key exactly when they are the same asset:
  fungible assets of one faucet, or one and the same non-fungible asset.  In particular a
  fungible and a non-fungible asset never share a key.
\<close>

theorem asset_keys_identify_assets:
  assumes "felt_spec P" "asset_ok P a" "asset_ok P b"
  shows "asset_vault_key a = asset_vault_key b \<longleftrightarrow> is_same a b"
  using assms by (rule felt_spec.asset_vault_key_iff)

definition sample_faucet :: account_id where
  "sample_faucet = AccountId 0x200000000000001F"

definition sample_nft_faucet :: account_id where
  "sample_nft_faucet = AccountId 0x300000000000001F"

definition sample_coin :: asset where
  "sample_coin = Fungible \<lparr> fa_faucet_id = sample_faucet, fa_amount = 100 \<rparr>"

definition sample_nft :: asset where
  "sample_nft = NonFungible (NonFungibleAsset (W 1 0x300000000000001F 2 3))"

lemma sample_assets_ok [simp]: "asset_ok sample_prims sample_coin" "asset_ok sample_prims sample_nft"
  by (simp_all add: sample_coin_def sample_nft_def fungible_ok_def non_fungible_ok_def
      account_id_ok_def account_id_valid_def bit_eval felt_ok_def sample_prims_def sample_faucet_def
      account_type_def account_type_of_bits MAX_AMOUNT_def non_fungible_faucet_id_def)

theorem asset_keys_identify_assets_witness:
  "asset_vault_key sample_coin \<noteq> asset_vault_key sample_nft"
  using asset_keys_identify_assets [OF sample_felt_laws.felt_spec_axioms sample_assets_ok]
  by (simp add: sample_coin_def sample_nft_def)

text \<open>
  C37. The word, byte and binary encodings of a well-formed asset are read back as the asset.
\<close>

theorem asset_round_trips:
  assumes "prims_spec P" "asset_ok P a"
  shows "asset_try_from_word P (asset_to_word P a) = Ok a
    \<and> asset_try_from_bytes P (asset_to_bytes a) = Ok a
    \<and> read_asset P (write_asset P a @ bs) = Ok (a, bs)"
  using assms prims_spec.axioms
  by (simp add: felt_spec.asset_word_round_trip felt_spec.asset_bytes_round_trip
      prims_spec.read_write_asset)

theorem asset_round_trips_witness:
  "read_asset sample_prims (write_asset sample_prims sample_nft) = Ok (sample_nft, [])"
  using asset_round_trips [OF sample_laws.prims_spec_axioms sample_assets_ok(2), of "[]"] by simp

text \<open>
  A word is accepted as an asset only if it is the encoding of a well-formed asset, so
  no two words are read as the same asset.
\<close>

theorem asset_try_from_word_canonical:
  assumes "felt_spec P" "word_ok P w" "asset_try_from_word P w = Ok a"
  shows "asset_ok P a \<and> asset_to_word P a = w"
  using assms by (metis asset_try_from_word_ok felt_spec.asset_try_from_word_to_word)

theorem asset_try_from_word_canonical_witness:
  "asset_ok sample_prims sample_coin \<and> asset_to_word sample_prims sample_coin = W 100 0 0 0x200000000000001F"
proof -
  have "asset_try_from_word sample_prims (W 100 0 0 0x200000000000001F) = Ok sample_coin"
    by (simp add: asset_try_from_word_def is_not_a_non_fungible_asset_bit fungible_try_from_word_def
        try_from_felt_cases bit_eval fungible_new_def fungible_validate_def account_type_def
        account_type_of_bits MAX_AMOUNT_def sample_coin_def sample_faucet_def)
  from asset_try_from_word_canonical [OF sample_felt_laws.felt_spec_axioms _ this] show ?thesis
    by (simp add: felt_ok_def sample_prims_def)
qed

text \<open>
  A non-fungible asset created from its details is well-formed: it carries the faucet
  identifier, its faucet bit is cleared, and it is canonical.
\<close>

theorem non_fungible_new_ok:
  assumes "prims_spec P" "non_fungible_new P details = Ok a" "account_id_ok P (nfd_faucet_id details)"
  shows "non_fungible_ok P a \<and> non_fungible_faucet_id a = nfd_faucet_id details"
proof -
  have h: "word_ok P (hash_bytes P (nfd_asset_data details))"
    using assms(1) by (simp add: hash_spec.hash_bytes_ok prims_spec.axioms)
  let ?d = "w3 (hash_bytes P (nfd_asset_data details))"
  let ?c = "(?d AND ACCOUNT_ISFAUCET_MASK) XOR ?d"
  have "felt_ok P ?c"
    using h clear_faucet_bit_le [of ?d]
    by (cases "hash_bytes P (nfd_asset_data details)") (auto simp: felt_ok_def)
  then have "felt_new P ?c = ?c" "felt_ok P ?c"
    using assms(1) by (simp_all add: felt_spec.felt_new_id prims_spec.axioms)
  then show ?thesis using assms(2,3) h
    by (cases "hash_bytes P (nfd_asset_data details)")
      (auto simp: non_fungible_new_def non_fungible_from_parts_def Let_def non_fungible_ok_def
        non_fungible_faucet_id_def clear_faucet_bit account_id_ok_def split: if_splits)
qed

theorem non_fungible_new_ok_witness:
  "\<exists>a. non_fungible_new sample_prims \<lparr> nfd_faucet_id = sample_nft_faucet, nfd_asset_data = [1, 2] \<rparr> = Ok a
     \<and> non_fungible_ok sample_prims a"
proof -
  have "account_type sample_nft_faucet = NonFungibleFaucet"
    by (simp add: account_type_def account_type_of_bits sample_nft_faucet_def)
  then obtain a where
    "non_fungible_new sample_prims \<lparr> nfd_faucet_id = sample_nft_faucet, nfd_asset_data = [1, 2] \<rparr> = Ok a"
    by (simp add: non_fungible_new_def non_fungible_from_parts_def Let_def)
  from this non_fungible_new_ok [OF sample_laws.prims_spec_axioms this] show ?thesis
    by (simp add: account_id_ok_def account_id_valid_def bit_eval felt_ok_def sample_prims_def
        sample_nft_faucet_def)
qed

end
