(* ===== verification/Vault.thy ===== *)
theory Vault
  imports Asset "HOL-Library.AList"
begin

text \<open>
  The asset vault (\<open>objects/src/assets/vault.rs\<close>) over a sparse Merkle tree.  The tree
  (\<open>miden_crypto::merkle::Smt\<close>) is third-party code: a record of operations \<open>T\<close> with the
  contract \<open>smt_spec\<close>.  The vault is shown to refine an abstract vault, which is a finite
  set of balances and a set of non-fungible assets; clients of the vault use the contract
  \<open>asset_store\<close> only.
\<close>

section \<open>Sparse Merkle trees\<close>

record 'v smt_ops =
  smt_empty :: 'v
  smt_with_entries :: "(digest \<times> word4) list \<Rightarrow> ('v, merkle_error) result"
  smt_get :: "'v \<Rightarrow> digest \<Rightarrow> word4"
  smt_insert :: "'v \<Rightarrow> digest \<Rightarrow> word4 \<Rightarrow> 'v \<times> word4"
  smt_entries :: "'v \<Rightarrow> (digest \<times> word4) list"
  smt_root :: "'v \<Rightarrow> digest"

locale smt_spec =
  fixes T :: "'v smt_ops"
  assumes smt_get_empty: "smt_get T (smt_empty T) k = EMPTY_WORD"
    and smt_with_entries_ok: "distinct (map fst es) \<Longrightarrow>
      \<exists>t. smt_with_entries T es = Ok t \<and>
        (\<forall>k. smt_get T t k = (case map_of es k of None \<Rightarrow> EMPTY_WORD | Some w \<Rightarrow> w))"
    and smt_with_entries_err: "\<not> distinct (map fst es) \<Longrightarrow> \<exists>e. smt_with_entries T es = Err e"
    and smt_get_insert: "smt_get T (fst (smt_insert T t k w)) k' = (if k' = k then w else smt_get T t k')"
    and smt_insert_old: "snd (smt_insert T t k w) = smt_get T t k"
    and smt_entries_distinct: "distinct (map fst (smt_entries T t))"
    and smt_entries_set: "(k, w) \<in> set (smt_entries T t) \<longleftrightarrow> smt_get T t k = w \<and> w \<noteq> EMPTY_WORD"
    and smt_root_ext: "(\<And>k. smt_get T t k = smt_get T t' k) \<Longrightarrow> smt_root T t = smt_root T t'"
    and smt_root_canonical: "list_all (\<lambda>x. x < 0xFFFFFFFF00000001) (elements (smt_root T t))"

section \<open>The vault\<close>

record 'v asset_vault =
  asset_tree :: 'v

definition vault_new :: "prims \<Rightarrow> 'v smt_ops \<Rightarrow> asset list \<Rightarrow> ('v asset_vault, asset_vault_error) result" where
  "vault_new P T assets =
     and_then (map_err DuplicateAsset
         (smt_with_entries T (map (\<lambda>a. (asset_vault_key a, asset_to_word P a)) assets)))
       (\<lambda>t. Ok \<lparr> asset_tree = t \<rparr>)"

definition vault_commitment :: "'v smt_ops \<Rightarrow> 'v asset_vault \<Rightarrow> digest" where
  "vault_commitment T v = smt_root T (asset_tree v)"

definition has_non_fungible_asset :: "'v smt_ops \<Rightarrow> 'v asset_vault \<Rightarrow> asset \<Rightarrow> (bool, asset_vault_error) result" where
  "has_non_fungible_asset T v a =
    (if is_fungible a then Err (NotANonFungibleAsset a)
     else Ok (smt_get T (asset_tree v) (asset_vault_key a) \<noteq> EMPTY_WORD))"

definition get_balance :: "'v smt_ops \<Rightarrow> 'v asset_vault \<Rightarrow> account_id \<Rightarrow> (u64, asset_vault_error) result" where
  "get_balance T v faucet_id =
    (if account_type faucet_id \<noteq> FungibleFaucet then Err (VaultNotAFungibleFaucetId faucet_id)
     else
       let w = smt_get T (asset_tree v) (W 0 0 0 (id_felt faucet_id)) in
       if w = EMPTY_WORD then Ok 0 else Ok (fa_amount (fungible_new_unchecked w)))"

definition vault_assets :: "'v smt_ops \<Rightarrow> 'v asset_vault \<Rightarrow> asset list" where
  "vault_assets T v = map (\<lambda>x. asset_new_unchecked (snd x)) (smt_entries T (asset_tree v))"

definition vault_insert :: "'v smt_ops \<Rightarrow> 'v asset_vault \<Rightarrow> digest \<Rightarrow> word4 \<Rightarrow> 'v asset_vault" where
  "vault_insert T v k w = v\<lparr> asset_tree := fst (smt_insert T (asset_tree v) k w) \<rparr>"

definition add_fungible_asset ::
    "prims \<Rightarrow> 'v smt_ops \<Rightarrow> 'v asset_vault \<Rightarrow> fungible_asset
       \<Rightarrow> 'v asset_vault \<times> (fungible_asset, asset_vault_error) result" where
  "add_fungible_asset P T v a =
    (let current = smt_get T (asset_tree v) (fungible_vault_key a) in
     case (if current = EMPTY_WORD then Ok a
           else map_err AddFungibleAssetBalanceError (fungible_add (fungible_new_unchecked current) a)) of
       Ok new \<Rightarrow> (vault_insert T v (fungible_vault_key new) (fungible_to_word P new), Ok new)
     | Err e \<Rightarrow> (v, Err e)
     | Panic m \<Rightarrow> (v, Panic m))"

definition add_non_fungible_asset ::
    "'v smt_ops \<Rightarrow> 'v asset_vault \<Rightarrow> non_fungible_asset
       \<Rightarrow> 'v asset_vault \<times> (non_fungible_asset, asset_vault_error) result" where
  "add_non_fungible_asset T v a =
    (let old = snd (smt_insert T (asset_tree v) (non_fungible_vault_key a) (nfa_word a));
         v' = vault_insert T v (non_fungible_vault_key a) (nfa_word a) in
     if old \<noteq> EMPTY_WORD then (v', Err (DuplicateNonFungibleAsset a)) else (v', Ok a))"

fun add_asset ::
    "prims \<Rightarrow> 'v smt_ops \<Rightarrow> 'v asset_vault \<Rightarrow> asset \<Rightarrow> 'v asset_vault \<times> (asset, asset_vault_error) result" where
  "add_asset P T v (Fungible a) = map_prod id (map_ok Fungible) (add_fungible_asset P T v a)"
| "add_asset P T v (NonFungible a) = map_prod id (map_ok NonFungible) (add_non_fungible_asset T v a)"

definition remove_fungible_asset ::
    "prims \<Rightarrow> 'v smt_ops \<Rightarrow> 'v asset_vault \<Rightarrow> fungible_asset
       \<Rightarrow> 'v asset_vault \<times> (fungible_asset, asset_vault_error) result" where
  "remove_fungible_asset P T v a =
    (let w = smt_get T (asset_tree v) (fungible_vault_key a) in
     if w = EMPTY_WORD then (v, Err (FungibleAssetNotFound a))
     else
       let (current, r) = fungible_sub (fungible_new_unchecked w) (fa_amount a) in
       case map_err SubtractFungibleAssetBalanceError r of
         Ok _ \<Rightarrow>
           let new = (if fa_amount current = 0 then EMPTY_WORD else fungible_to_word P current) in
           (vault_insert T v (fungible_vault_key a) new, Ok a)
       | Err e \<Rightarrow> (v, Err e)
       | Panic m \<Rightarrow> (v, Panic m))"

definition remove_non_fungible_asset ::
    "'v smt_ops \<Rightarrow> 'v asset_vault \<Rightarrow> non_fungible_asset
       \<Rightarrow> 'v asset_vault \<times> (non_fungible_asset, asset_vault_error) result" where
  "remove_non_fungible_asset T v a =
    (let old = snd (smt_insert T (asset_tree v) (non_fungible_vault_key a) EMPTY_WORD);
         v' = vault_insert T v (non_fungible_vault_key a) EMPTY_WORD in
     if old = EMPTY_WORD then (v', Err (NonFungibleAssetNotFound a)) else (v', Ok a))"

fun remove_asset ::
    "prims \<Rightarrow> 'v smt_ops \<Rightarrow> 'v asset_vault \<Rightarrow> asset \<Rightarrow> 'v asset_vault \<times> (asset, asset_vault_error) result" where
  "remove_asset P T v (Fungible a) = map_prod id (map_ok Fungible) (remove_fungible_asset P T v a)"
| "remove_asset P T v (NonFungible a) = map_prod id (map_ok NonFungible) (remove_non_fungible_asset T v a)"

definition write_vault :: "prims \<Rightarrow> 'v smt_ops \<Rightarrow> 'v asset_vault \<Rightarrow> (u8 list, unit) result" where
  "write_vault P T v =
    (let assets = vault_assets T v in
     if length assets < 2 ^ 32
     then Ok (put_u32 P (of_nat (length assets)) @ write_many (write_asset P) assets)
     else Panic ''too many assets in the vault'')"

definition read_vault :: "prims \<Rightarrow> 'v smt_ops \<Rightarrow> ('v asset_vault, deserialization_error) reader" where
  "read_vault P T bs =
     and_then (get_u32 P bs) (\<lambda>(num_assets, bs1).
     and_then (read_many (unat num_assets) (read_asset P) bs1) (\<lambda>(assets, bs2).
     and_then (map_err (\<lambda>e. InvalidValue (show_asset_vault_error P e)) (vault_new P T assets))
       (\<lambda>v. Ok (v, bs2))))"

section \<open>The abstract vault\<close>

text \<open>
  A balance per faucet (\<open>None\<close> when the faucet has no entry; an entry may hold amount 0) and
  a set of non-fungible assets.
\<close>

record abs_vault =
  av_balance :: "account_id \<Rightarrow> u64 option"
  av_nfts :: "non_fungible_asset set"

fun abs_add :: "abs_vault \<Rightarrow> asset \<Rightarrow> abs_vault \<times> (asset, asset_vault_error) result" where
  "abs_add v (Fungible a) =
    (case av_balance v (fa_faucet_id a) of
       None \<Rightarrow> (v\<lparr> av_balance := (av_balance v)(fa_faucet_id a \<mapsto> fa_amount a) \<rparr>, Ok (Fungible a))
     | Some b \<Rightarrow>
         if unat b + unat (fa_amount a) < 2 ^ 63
         then (v\<lparr> av_balance := (av_balance v)(fa_faucet_id a \<mapsto> b + fa_amount a) \<rparr>,
               Ok (Fungible (a\<lparr> fa_amount := b + fa_amount a \<rparr>)))
         else (v, Err (AddFungibleAssetBalanceError (AmountTooBig (b + fa_amount a)))))"
| "abs_add v (NonFungible a) =
    (if a \<in> av_nfts v then (v, Err (DuplicateNonFungibleAsset a))
     else (v\<lparr> av_nfts := insert a (av_nfts v) \<rparr>, Ok (NonFungible a)))"

fun abs_remove :: "abs_vault \<Rightarrow> asset \<Rightarrow> abs_vault \<times> (asset, asset_vault_error) result" where
  "abs_remove v (Fungible a) =
    (case av_balance v (fa_faucet_id a) of
       None \<Rightarrow> (v, Err (FungibleAssetNotFound a))
     | Some b \<Rightarrow>
         if fa_amount a \<le> b
         then (v\<lparr> av_balance := (av_balance v)(fa_faucet_id a :=
                   if b = fa_amount a then None else Some (b - fa_amount a)) \<rparr>, Ok (Fungible a))
         else (v, Err (SubtractFungibleAssetBalanceError (AssetAmountNotSufficient b (fa_amount a)))))"
| "abs_remove v (NonFungible a) =
    (if a \<in> av_nfts v then (v\<lparr> av_nfts := av_nfts v - {a} \<rparr>, Ok (NonFungible a))
     else (v, Err (NonFungibleAssetNotFound a)))"

definition vault_abs :: "'v smt_ops \<Rightarrow> 'v asset_vault \<Rightarrow> abs_vault" where
  "vault_abs T v = \<lparr>
     av_balance = (\<lambda>f. let w = smt_get T (asset_tree v) (W 0 0 0 (id_felt f)) in
       if account_type f = FungibleFaucet \<and> w \<noteq> EMPTY_WORD then Some (w0 w) else None),
     av_nfts = {a. \<not> bit (w3 (nfa_word a)) 61 \<and> smt_get T (asset_tree v) (nfa_word a) \<noteq> EMPTY_WORD} \<rparr>"

text \<open>Every entry of the tree is a well-formed asset stored under its key.\<close>

definition vault_inv :: "prims \<Rightarrow> 'v smt_ops \<Rightarrow> 'v asset_vault \<Rightarrow> bool" where
  "vault_inv P T v \<longleftrightarrow> (\<forall>k. smt_get T (asset_tree v) k \<noteq> EMPTY_WORD \<longrightarrow>
     (\<exists>a. asset_ok P a \<and> k = asset_vault_key a \<and> smt_get T (asset_tree v) k = asset_to_word P a))"

section \<open>The contract of an asset store\<close>

locale asset_store =
  fixes inv :: "'s \<Rightarrow> bool"
    and abs :: "'s \<Rightarrow> abs_vault"
    and ok :: "asset \<Rightarrow> bool"
    and add :: "'s \<Rightarrow> asset \<Rightarrow> 's \<times> (asset, asset_vault_error) result"
    and rem :: "'s \<Rightarrow> asset \<Rightarrow> 's \<times> (asset, asset_vault_error) result"
  assumes add_refines: "inv s \<Longrightarrow> ok a \<Longrightarrow> add s a = (s', r) \<Longrightarrow> inv s' \<and> abs_add (abs s) a = (abs s', r)"
    and rem_refines: "inv s \<Longrightarrow> ok a \<Longrightarrow> rem s a = (s', r) \<Longrightarrow> inv s' \<and> abs_remove (abs s) a = (abs s', r)"
begin

lemma add_all_refines:
  "inv s \<Longrightarrow> list_all ok as \<Longrightarrow> try_for add s as = (s', r) \<Longrightarrow>
   inv s' \<and> try_for abs_add (abs s) as = (abs s', r)"
  by (rule try_for_simulation [of inv ok add abs_add abs]) (auto dest: add_refines)

lemma rem_all_refines:
  "inv s \<Longrightarrow> list_all ok as \<Longrightarrow> try_for rem s as = (s', r) \<Longrightarrow>
   inv s' \<and> try_for abs_remove (abs s) as = (abs s', r)"
  by (rule try_for_simulation [of inv ok rem abs_remove abs]) (auto dest: rem_refines)

lemma add_no_Panic: "inv s \<Longrightarrow> ok a \<Longrightarrow> snd (add s a) \<noteq> Panic m"
  using add_refines [of s a "fst (add s a)" "snd (add s a)"]
  by (cases a) (auto split: option.splits if_splits)

lemma rem_no_Panic: "inv s \<Longrightarrow> ok a \<Longrightarrow> snd (rem s a) \<noteq> Panic m"
  using rem_refines [of s a "fst (rem s a)" "snd (rem s a)"]
  by (cases a) (auto split: option.splits if_splits)

end

section \<open>The vault implements the contract\<close>

locale vault_spec = felt_spec P + smt_spec T for P :: prims and T :: "'v smt_ops"
begin

lemma get_vault_insert:
  "smt_get T (asset_tree (vault_insert T v k w)) k' = (if k' = k then w else smt_get T (asset_tree v) k')"
  by (simp add: vault_insert_def smt_get_insert)

lemma vault_inv_insert:
  assumes "vault_inv P T v"
    and "w = EMPTY_WORD \<or> (\<exists>a. asset_ok P a \<and> k = asset_vault_key a \<and> w = asset_to_word P a)"
  shows "vault_inv P T (vault_insert T v k w)"
  using assms unfolding vault_inv_def get_vault_insert by metis

lemma vault_abs_insert_fungible:
  assumes "account_type f = FungibleFaucet"
  shows "vault_abs T (vault_insert T v (W 0 0 0 (id_felt f)) w) =
    (vault_abs T v)\<lparr> av_balance := (av_balance (vault_abs T v))(f := if w = EMPTY_WORD then None else Some (w0 w)) \<rparr>"
proof -
  have nft: "nfa_word a \<noteq> W 0 0 0 (id_felt f)" if "\<not> bit (w3 (nfa_word a)) 61" for a
    using that fungible_faucet_bits [OF assms] by (metis word4.sel(4))
  have id: "id_felt g = id_felt f \<longleftrightarrow> g = f" for g by (auto intro: account_id.expand)
  show ?thesis
    using assms fungible_faucet_bits [OF assms]
    by (auto simp: vault_abs_def get_vault_insert fun_eq_iff Let_def id dest: nft)
qed

lemma vault_abs_insert_nft:
  assumes "\<not> bit (w3 k) 61"
  shows "vault_abs T (vault_insert T v k w) =
    (vault_abs T v)\<lparr> av_nfts := (if w = EMPTY_WORD then av_nfts (vault_abs T v) - {NonFungibleAsset k}
       else insert (NonFungibleAsset k) (av_nfts (vault_abs T v))) \<rparr>"
proof -
  have "W 0 0 0 (id_felt f) \<noteq> k" if "account_type f = FungibleFaucet" for f
    using assms fungible_faucet_bits [OF that] by (metis word4.sel(4))
  moreover have "nfa_word a = k \<longleftrightarrow> a = NonFungibleAsset k" for a by (cases a) auto
  ultimately show ?thesis
    using assms by (auto simp: vault_abs_def get_vault_insert fun_eq_iff Let_def)
qed

lemma fungible_word_nonempty: "fungible_ok P a \<Longrightarrow> fungible_to_word P a \<noteq> EMPTY_WORD"
  by (auto simp: fungible_to_word_ok fungible_ok_def dest!: fungible_faucet_bits)

lemma non_fungible_word_nonempty: "non_fungible_ok P a \<Longrightarrow> nfa_word a \<noteq> EMPTY_WORD"
  by (cases "nfa_word a")
    (auto simp: non_fungible_ok_def non_fungible_faucet_id_def account_type_def account_type_of_bits)

lemma vault_lookup_fungible:
  assumes "vault_inv P T v" "fungible_ok P a"
    and "smt_get T (asset_tree v) (fungible_vault_key a) \<noteq> EMPTY_WORD"
  obtains b where "fungible_ok P b" "fa_faucet_id b = fa_faucet_id a"
    "smt_get T (asset_tree v) (fungible_vault_key a) = fungible_to_word P b"
proof -
  from assms obtain x where x: "asset_ok P x" "asset_vault_key (Fungible a) = asset_vault_key x"
    "smt_get T (asset_tree v) (fungible_vault_key a) = asset_to_word P x"
    unfolding vault_inv_def by auto
  then have "is_same (Fungible a) x" using assms(2) asset_vault_key_iff [of "Fungible a" x] by simp
  then show thesis using x that by (cases x) (auto simp: is_from_same_faucet_def)
qed

lemma vault_balance_abs:
  "fungible_ok P a \<Longrightarrow> av_balance (vault_abs T v) (fa_faucet_id a) =
    (let w = smt_get T (asset_tree v) (fungible_vault_key a) in
     if w = EMPTY_WORD then None else Some (w0 w))"
  by (simp add: vault_abs_def fungible_vault_key_def fungible_ok_def Let_def)

lemma add_fungible_refines:
  assumes inv: "vault_inv P T v" and ok: "fungible_ok P a" and step: "add_asset P T v (Fungible a) = (v', r)"
  shows "vault_inv P T v' \<and> abs_add (vault_abs T v) (Fungible a) = (vault_abs T v', r)"
proof (cases "smt_get T (asset_tree v) (fungible_vault_key a) = EMPTY_WORD")
  case True
  then have "v' = vault_insert T v (fungible_vault_key a) (fungible_to_word P a)" "r = Ok (Fungible a)"
    using step by (auto simp: add_fungible_asset_def)
  moreover have "av_balance (vault_abs T v) (fa_faucet_id a) = None"
    using True by (simp add: vault_balance_abs [OF ok])
  moreover have "vault_inv P T (vault_insert T v (fungible_vault_key a) (fungible_to_word P a))"
    using ok by (intro vault_inv_insert [OF inv] disjI2 exI [of _ "Fungible a"]) simp
  ultimately show ?thesis
    using ok fungible_word_nonempty [OF ok]
    by (simp add: vault_abs_insert_fungible fungible_vault_key_def fungible_ok_def)
      (simp add: fungible_to_word_ok [OF ok])
next
  case False
  from vault_lookup_fungible [OF inv ok False] obtain b where
    b: "fungible_ok P b" "fa_faucet_id b = fa_faucet_id a"
      "smt_get T (asset_tree v) (fungible_vault_key a) = fungible_to_word P b" .
  define n where "n = \<lparr> fa_faucet_id = fa_faucet_id a, fa_amount = fa_amount b + fa_amount a \<rparr>"
  have bal: "av_balance (vault_abs T v) (fa_faucet_id a) = Some (fa_amount b)"
    using False b by (simp add: vault_balance_abs [OF ok] fungible_to_word_ok)
  have add: "fungible_add b a = (if unat (fa_amount b) + unat (fa_amount a) < 2 ^ 63
      then Ok n else Err (AmountTooBig (fa_amount b + fa_amount a)))"
    using fungible_add_cases [of b a] b ok by (simp add: fungible_ok_def n_def)
  show ?thesis
  proof (cases "unat (fa_amount b) + unat (fa_amount a) < 2 ^ 63")
    case True
    then have n: "fungible_ok P n"
      using ok by (simp add: fungible_ok_def n_def le_MAX_AMOUNT_iff unat_word_ariths)
    have "v' = vault_insert T v (fungible_vault_key n) (fungible_to_word P n)" "r = Ok (Fungible n)"
      using step False b add True
      by (auto simp: add_fungible_asset_def fungible_new_unchecked_to_word)
    moreover have "vault_inv P T (vault_insert T v (fungible_vault_key n) (fungible_to_word P n))"
      using n by (intro vault_inv_insert [OF inv] disjI2 exI [of _ "Fungible n"]) simp
    ultimately show ?thesis
      using True bal n fungible_word_nonempty [OF n] fungible_to_word_ok [OF n]
      by (simp add: vault_abs_insert_fungible fungible_vault_key_def fungible_ok_def) (auto simp: n_def)
  next
    case False
    with step \<open>smt_get T (asset_tree v) (fungible_vault_key a) \<noteq> EMPTY_WORD\<close> b add bal inv show ?thesis
      by (auto simp: add_fungible_asset_def fungible_new_unchecked_to_word)
  qed
qed

lemma add_non_fungible_refines:
  assumes inv: "vault_inv P T v" and ok: "non_fungible_ok P a" and step: "add_asset P T v (NonFungible a) = (v', r)"
  shows "vault_inv P T v' \<and> abs_add (vault_abs T v) (NonFungible a) = (vault_abs T v', r)"
proof -
  have bit: "\<not> bit (w3 (nfa_word a)) 61" using ok by (simp add: non_fungible_ok_def)
  have v': "v' = vault_insert T v (nfa_word a) (nfa_word a)"
    using step by (auto simp: add_non_fungible_asset_def non_fungible_vault_key_def Let_def split: if_splits)
  have "vault_inv P T v'"
    unfolding v' using ok
    by (intro vault_inv_insert [OF inv] disjI2 exI [of _ "NonFungible a"])
      (simp add: non_fungible_vault_key_def)
  moreover have "vault_abs T v' = (vault_abs T v)\<lparr> av_nfts := insert a (av_nfts (vault_abs T v)) \<rparr>"
    using non_fungible_word_nonempty [OF ok] by (simp add: v' vault_abs_insert_nft [OF bit])
  moreover have "a \<in> av_nfts (vault_abs T v) \<longleftrightarrow> smt_get T (asset_tree v) (nfa_word a) \<noteq> EMPTY_WORD"
    using bit by (simp add: vault_abs_def)
  ultimately show ?thesis using step
    by (auto simp: add_non_fungible_asset_def non_fungible_vault_key_def smt_insert_old insert_absorb
        Let_def split: if_splits)
qed

lemma remove_fungible_refines:
  assumes inv: "vault_inv P T v" and ok: "fungible_ok P a" and step: "remove_asset P T v (Fungible a) = (v', r)"
  shows "vault_inv P T v' \<and> abs_remove (vault_abs T v) (Fungible a) = (vault_abs T v', r)"
proof (cases "smt_get T (asset_tree v) (fungible_vault_key a) = EMPTY_WORD")
  case True
  then show ?thesis using step inv
    by (auto simp: remove_fungible_asset_def vault_balance_abs [OF ok])
next
  case False
  from vault_lookup_fungible [OF inv ok False] obtain b where
    b: "fungible_ok P b" "fa_faucet_id b = fa_faucet_id a"
      "smt_get T (asset_tree v) (fungible_vault_key a) = fungible_to_word P b" .
  have bal: "av_balance (vault_abs T v) (fa_faucet_id a) = Some (fa_amount b)"
    using False b by (simp add: vault_balance_abs [OF ok] fungible_to_word_ok)
  show ?thesis
  proof (cases "fa_amount a \<le> fa_amount b")
    case le: True
    define n where "n = b\<lparr> fa_amount := fa_amount b - fa_amount a \<rparr>"
    have "fa_amount b - fa_amount a \<le> MAX_AMOUNT"
      using word_sub_le [OF le] b(1) unfolding fungible_ok_def by (meson order_trans)
    with b have n: "fungible_ok P n" by (simp add: fungible_ok_def n_def)
    define w where "w = (if fa_amount n = 0 then EMPTY_WORD else fungible_to_word P n)"
    have v': "v' = vault_insert T v (fungible_vault_key a) w" "r = Ok (Fungible a)"
      using step False b le
      by (auto simp: remove_fungible_asset_def fungible_new_unchecked_to_word fungible_sub_def
          checked_sub_def w_def n_def Let_def)
    have "w = EMPTY_WORD \<or> (\<exists>x. asset_ok P x \<and> fungible_vault_key a = asset_vault_key x \<and> w = asset_to_word P x)"
      using n b by (auto simp: w_def n_def fungible_vault_key_def intro!: exI [of _ "Fungible n"])
    from vault_inv_insert [OF inv this] have "vault_inv P T v'" by (simp add: v')
    moreover have "w \<noteq> EMPTY_WORD \<longleftrightarrow> fa_amount a \<noteq> fa_amount b"
      using fungible_word_nonempty [OF n] by (auto simp: w_def n_def)
    moreover have "w0 w = fa_amount n" by (simp add: w_def fungible_to_word_ok [OF n])
    ultimately show ?thesis using v' bal le ok
      by (auto simp: vault_abs_insert_fungible fungible_vault_key_def fungible_ok_def n_def)
  next
    case False
    with step b inv bal \<open>smt_get T (asset_tree v) (fungible_vault_key a) \<noteq> EMPTY_WORD\<close> show ?thesis
      by (auto simp: remove_fungible_asset_def fungible_new_unchecked_to_word fungible_sub_def
          checked_sub_def)
  qed
qed

lemma remove_non_fungible_refines:
  assumes inv: "vault_inv P T v" and ok: "non_fungible_ok P a" and step: "remove_asset P T v (NonFungible a) = (v', r)"
  shows "vault_inv P T v' \<and> abs_remove (vault_abs T v) (NonFungible a) = (vault_abs T v', r)"
proof -
  have bit: "\<not> bit (w3 (nfa_word a)) 61" using ok by (simp add: non_fungible_ok_def)
  have v': "v' = vault_insert T v (nfa_word a) EMPTY_WORD"
    using step by (auto simp: remove_non_fungible_asset_def non_fungible_vault_key_def Let_def split: if_splits)
  have "vault_inv P T v'" unfolding v' by (rule vault_inv_insert [OF inv]) simp
  moreover have "vault_abs T v' = (vault_abs T v)\<lparr> av_nfts := av_nfts (vault_abs T v) - {a} \<rparr>"
    by (simp add: v' vault_abs_insert_nft [OF bit])
  moreover have "a \<in> av_nfts (vault_abs T v) \<longleftrightarrow> smt_get T (asset_tree v) (nfa_word a) \<noteq> EMPTY_WORD"
    using bit by (simp add: vault_abs_def)
  ultimately show ?thesis using step
    by (auto simp: remove_non_fungible_asset_def non_fungible_vault_key_def smt_insert_old Let_def
        split: if_splits)
qed

end

sublocale vault_spec \<subseteq> vault: asset_store "vault_inv P T" "vault_abs T" "asset_ok P" "add_asset P T" "remove_asset P T"
proof unfold_locales
  show "vault_inv P T s' \<and> abs_add (vault_abs T s) a = (vault_abs T s', r)"
    if "vault_inv P T s" "asset_ok P a" "add_asset P T s a = (s', r)" for s a s' r
    using that by (metis asset.exhaust asset_ok.simps add_fungible_refines add_non_fungible_refines)
  show "vault_inv P T s' \<and> abs_remove (vault_abs T s) a = (vault_abs T s', r)"
    if "vault_inv P T s" "asset_ok P a" "remove_asset P T s a = (s', r)" for s a s' r
    using that by (metis asset.exhaust asset_ok.simps remove_fungible_refines remove_non_fungible_refines)
qed

section \<open>Construction, enumeration, serialization\<close>

context vault_spec
begin

lemma vault_refines:
  "vault_inv P T v \<Longrightarrow> asset_ok P a \<Longrightarrow>
    (case add_asset P T v a of (v', r) \<Rightarrow>
       vault_inv P T v' \<and> abs_add (vault_abs T v) a = (vault_abs T v', r)) \<and>
    (case remove_asset P T v a of (v', r) \<Rightarrow>
       vault_inv P T v' \<and> abs_remove (vault_abs T v) a = (vault_abs T v', r))"
  by (simp only: split_beta) (metis vault.add_refines vault.rem_refines prod.collapse)

lemma vault_new_ok:
  assumes "list_all (asset_ok P) as" "distinct (map asset_vault_key as)"
  shows "\<exists>v. vault_new P T as = Ok v \<and> vault_inv P T v \<and>
    (\<forall>k. smt_get T (asset_tree v) k =
      (case map_of (map (\<lambda>a. (asset_vault_key a, asset_to_word P a)) as) k of
         None \<Rightarrow> EMPTY_WORD | Some w \<Rightarrow> w))"
proof -
  let ?es = "map (\<lambda>a. (asset_vault_key a, asset_to_word P a)) as"
  have "distinct (map fst ?es)" using assms(2) by (simp add: comp_def)
  from smt_with_entries_ok [OF this] obtain t where t: "smt_with_entries T ?es = Ok t"
    and get: "\<And>k. smt_get T t k = (case map_of ?es k of None \<Rightarrow> EMPTY_WORD | Some w \<Rightarrow> w)" by blast
  have "vault_inv P T \<lparr> asset_tree = t \<rparr>"
    using assms(1) by (auto simp: vault_inv_def get list_all_iff split: option.splits dest!: map_of_SomeD) blast
  with t get show ?thesis by (auto simp: vault_new_def)
qed

lemma vault_new_duplicate:
  assumes "\<not> distinct (map asset_vault_key as)"
  shows "\<exists>e. vault_new P T as = Err (DuplicateAsset e)"
  using smt_with_entries_err [of "map (\<lambda>a. (asset_vault_key a, asset_to_word P a)) as"] assms
  by (auto simp: vault_new_def comp_def)

lemma vault_entries_assets:
  assumes "vault_inv P T v"
  shows "map (\<lambda>a. (asset_vault_key a, asset_to_word P a)) (vault_assets T v) = smt_entries T (asset_tree v)"
    and "list_all (asset_ok P) (vault_assets T v)"
proof -
  have *: "asset_ok P (asset_new_unchecked w) \<and> asset_vault_key (asset_new_unchecked w) = k
      \<and> asset_to_word P (asset_new_unchecked w) = w"
    if "(k, w) \<in> set (smt_entries T (asset_tree v))" for k w
  proof -
    have "smt_get T (asset_tree v) k = w" "w \<noteq> EMPTY_WORD" using that by (simp_all add: smt_entries_set)
    with assms obtain a where "asset_ok P a" "k = asset_vault_key a" "w = asset_to_word P a"
      unfolding vault_inv_def by metis
    then show ?thesis by (simp add: asset_new_unchecked_to_word)
  qed
  show "map (\<lambda>a. (asset_vault_key a, asset_to_word P a)) (vault_assets T v) = smt_entries T (asset_tree v)"
    unfolding vault_assets_def map_map by (rule map_idI) (use * in auto)
  show "list_all (asset_ok P) (vault_assets T v)"
    using * by (auto simp: vault_assets_def list_all_iff)
qed

lemma vault_assets_distinct:
  assumes "vault_inv P T v"
  shows "distinct (map asset_vault_key (vault_assets T v))"
proof -
  have "map asset_vault_key (vault_assets T v) = map fst (smt_entries T (asset_tree v))"
    by (simp add: comp_def flip: vault_entries_assets(1) [OF assms])
  then show ?thesis by (simp add: smt_entries_distinct)
qed

lemma vault_rebuild:
  assumes "vault_inv P T v"
  shows "\<exists>v'. vault_new P T (vault_assets T v) = Ok v' \<and> vault_inv P T v' \<and>
    (\<forall>k. smt_get T (asset_tree v') k = smt_get T (asset_tree v) k)"
proof -
  note as = vault_new_ok [OF vault_entries_assets(2) vault_assets_distinct, OF assms assms]
  have "(case map_of (smt_entries T (asset_tree v)) k of None \<Rightarrow> EMPTY_WORD | Some w \<Rightarrow> w)
      = smt_get T (asset_tree v) k" for k
    using smt_entries_set [of k _ "asset_tree v"] smt_entries_distinct [of "asset_tree v"]
    by (auto split: option.splits simp: map_of_eq_None_iff dest: map_of_SomeD)
      (metis (no_types, lifting) fst_conv image_eqI)
  with as show ?thesis unfolding vault_entries_assets(1) [OF assms] by simp
qed

lemma vault_abs_ext:
  "(\<And>k. smt_get T (asset_tree v') k = smt_get T (asset_tree v) k) \<Longrightarrow> vault_abs T v' = vault_abs T v"
  by (simp add: vault_abs_def)

lemma vault_commitment_ext:
  "(\<And>k. smt_get T (asset_tree v') k = smt_get T (asset_tree v) k) \<Longrightarrow>
   vault_commitment T v' = vault_commitment T v"
  unfolding vault_commitment_def by (rule smt_root_ext)

lemma vault_inv_ext:
  "(\<And>k. smt_get T (asset_tree v') k = smt_get T (asset_tree v) k) \<Longrightarrow> vault_inv P T v' = vault_inv P T v"
  by (simp add: vault_inv_def)

lemma vault_assets_iff:
  assumes "vault_inv P T v"
  shows "a \<in> set (vault_assets T v) \<longleftrightarrow>
    asset_ok P a \<and> smt_get T (asset_tree v) (asset_vault_key a) = asset_to_word P a"
proof
  assume *: "a \<in> set (vault_assets T v)"
  then have "(asset_vault_key a, asset_to_word P a) \<in> set (smt_entries T (asset_tree v))"
    by (auto simp flip: vault_entries_assets(1) [OF assms])
  moreover have "asset_ok P a" using * vault_entries_assets(2) [OF assms] by (simp add: list_all_iff)
  ultimately show "asset_ok P a \<and> smt_get T (asset_tree v) (asset_vault_key a) = asset_to_word P a"
    by (simp add: smt_entries_set)
next
  assume *: "asset_ok P a \<and> smt_get T (asset_tree v) (asset_vault_key a) = asset_to_word P a"
  then have "asset_to_word P a \<noteq> EMPTY_WORD"
    using fungible_word_nonempty non_fungible_word_nonempty by (cases a) auto
  with * have "(asset_vault_key a, asset_to_word P a) \<in> set (smt_entries T (asset_tree v))"
    by (simp add: smt_entries_set)
  then obtain b where "b \<in> set (vault_assets T v)" "asset_to_word P a = asset_to_word P b"
    by (auto simp flip: vault_entries_assets(1) [OF assms])
  moreover from this have "asset_ok P b" using vault_entries_assets(2) [OF assms] by (simp add: list_all_iff)
  ultimately show "a \<in> set (vault_assets T v)" using * asset_word_inject by auto
qed

lemma vault_assets_fungible:
  assumes "vault_inv P T v"
  shows "Fungible f \<in> set (vault_assets T v) \<longleftrightarrow>
    av_balance (vault_abs T v) (fa_faucet_id f) = Some (fa_amount f)"
proof
  assume "Fungible f \<in> set (vault_assets T v)"
  then have f: "fungible_ok P f" "smt_get T (asset_tree v) (fungible_vault_key f) = fungible_to_word P f"
    by (simp_all add: vault_assets_iff [OF assms])
  then show "av_balance (vault_abs T v) (fa_faucet_id f) = Some (fa_amount f)"
    using fungible_word_nonempty [OF f(1)] by (simp add: vault_balance_abs fungible_to_word_ok)
next
  assume "av_balance (vault_abs T v) (fa_faucet_id f) = Some (fa_amount f)"
  then have f: "account_type (fa_faucet_id f) = FungibleFaucet"
    "smt_get T (asset_tree v) (fungible_vault_key f) \<noteq> EMPTY_WORD"
    "w0 (smt_get T (asset_tree v) (fungible_vault_key f)) = fa_amount f"
    by (auto simp: vault_abs_def Let_def fungible_vault_key_def split: if_splits)
  from assms f(2) obtain x where x: "asset_ok P x" "fungible_vault_key f = asset_vault_key x"
    "smt_get T (asset_tree v) (fungible_vault_key f) = asset_to_word P x"
    unfolding vault_inv_def by metis
  have "x = Fungible f"
  proof (cases x)
    case (Fungible b)
    with x f(3) show ?thesis
      by (simp add: fungible_to_word_ok fungible_vault_key_def account_id.expand)
  next
    case (NonFungible n)
    with x fungible_faucet_bits [OF f(1)] show ?thesis
      by (auto simp: non_fungible_ok_def non_fungible_vault_key_def fungible_vault_key_def dest: sym)
  qed
  with x show "Fungible f \<in> set (vault_assets T v)" by (simp add: vault_assets_iff [OF assms])
qed

lemma vault_assets_non_fungible:
  assumes "vault_inv P T v"
  shows "NonFungible n \<in> set (vault_assets T v) \<longleftrightarrow> n \<in> av_nfts (vault_abs T v)"
proof
  assume "NonFungible n \<in> set (vault_assets T v)"
  then show "n \<in> av_nfts (vault_abs T v)"
    using non_fungible_word_nonempty [of n]
    by (simp add: vault_assets_iff [OF assms] vault_abs_def non_fungible_vault_key_def non_fungible_ok_def)
next
  assume "n \<in> av_nfts (vault_abs T v)"
  then have n: "\<not> bit (w3 (nfa_word n)) 61" "smt_get T (asset_tree v) (nfa_word n) \<noteq> EMPTY_WORD"
    by (simp_all add: vault_abs_def)
  from assms n(2) obtain x where x: "asset_ok P x" "nfa_word n = asset_vault_key x"
    "smt_get T (asset_tree v) (nfa_word n) = asset_to_word P x"
    unfolding vault_inv_def by metis
  have "x = NonFungible n"
  proof (cases x)
    case (Fungible b)
    with x n(1) show ?thesis
      by (auto simp: fungible_vault_key_def fungible_ok_def dest: fungible_faucet_bits)
  next
    case (NonFungible m)
    with x show ?thesis by (simp add: non_fungible_vault_key_def non_fungible_asset.expand)
  qed
  with x show "NonFungible n \<in> set (vault_assets T v)"
    by (simp add: vault_assets_iff [OF assms] non_fungible_vault_key_def)
qed

text \<open>The contents of a well-formed vault determine its tree and its commitment.\<close>

lemma vault_get_abs:
  assumes "vault_inv P T v" "vault_inv P T v'" "vault_abs T v = vault_abs T v'" "smt_get T (asset_tree v) k \<noteq> EMPTY_WORD"
  shows "smt_get T (asset_tree v') k = smt_get T (asset_tree v) k"
proof -
  obtain a where a: "asset_ok P a" "k = asset_vault_key a" "smt_get T (asset_tree v) k = asset_to_word P a"
    using assms(1,4) by (auto simp: vault_inv_def)
  then have "a \<in> set (vault_assets T v)" by (simp add: vault_assets_iff [OF assms(1)])
  then have "a \<in> set (vault_assets T v')"
    using assms(1-3) by (cases a rule: asset.exhaust) (simp_all add: vault_assets_fungible vault_assets_non_fungible)
  with a show ?thesis by (simp add: vault_assets_iff [OF assms(2)])
qed

lemma vault_commitment_abs:
  assumes "vault_inv P T v" "vault_inv P T v'" "vault_abs T v = vault_abs T v'"
  shows "vault_commitment T v = vault_commitment T v'"
proof (rule vault_commitment_ext)
  show "smt_get T (asset_tree v) k = smt_get T (asset_tree v') k" for k
    using vault_get_abs [OF assms(1-3), of k] vault_get_abs [OF assms(2,1) assms(3) [symmetric], of k] by metis
qed

lemma vault_new_contents:
  assumes ok: "list_all (asset_ok P) as" and d: "distinct (map asset_vault_key as)"
    and inv: "vault_inv P T v"
    and get: "\<forall>k. smt_get T (asset_tree v) k =
      (case map_of (map (\<lambda>a. (asset_vault_key a, asset_to_word P a)) as) k of
         None \<Rightarrow> EMPTY_WORD | Some w \<Rightarrow> w)"
  shows "set (vault_assets T v) = set as"
proof (rule set_eqI)
  fix a
  let ?es = "map (\<lambda>a. (asset_vault_key a, asset_to_word P a)) as"
  have es: "distinct (map fst ?es)" using d by (simp add: comp_def)
  show "a \<in> set (vault_assets T v) \<longleftrightarrow> a \<in> set as"
  proof
    assume "a \<in> set (vault_assets T v)"
    then have a: "asset_ok P a" "smt_get T (asset_tree v) (asset_vault_key a) = asset_to_word P a"
      by (simp_all add: vault_assets_iff [OF inv])
    have "asset_to_word P a \<noteq> EMPTY_WORD"
      using a(1) fungible_word_nonempty non_fungible_word_nonempty by (cases a) auto
    with a get have "map_of ?es (asset_vault_key a) = Some (asset_to_word P a)"
      by (auto split: option.splits)
    then obtain b where "b \<in> set as" "asset_to_word P a = asset_to_word P b" by (auto dest!: map_of_SomeD)
    moreover from this have "asset_ok P b" using ok by (simp add: list_all_iff)
    ultimately show "a \<in> set as" using a(1) asset_word_inject by auto
  next
    assume "a \<in> set as"
    then have "map_of ?es (asset_vault_key a) = Some (asset_to_word P a)" by (auto simp: map_of_eq_Some_iff [OF es])
    with \<open>a \<in> set as\<close> ok get show "a \<in> set (vault_assets T v)"
      by (simp add: vault_assets_iff [OF inv] list_all_iff)
  qed
qed

end

locale vault_io_spec = prims_spec P + vault_spec P T for P :: prims and T :: "'v smt_ops"
begin

lemma read_write_vault:
  assumes inv: "vault_inv P T v" and wr: "write_vault P T v = Ok bs"
  shows "\<exists>v'. read_vault P T (bs @ rest) = Ok (v', rest) \<and> vault_inv P T v' \<and>
    (\<forall>k. smt_get T (asset_tree v') k = smt_get T (asset_tree v) k)"
proof -
  let ?as = "vault_assets T v"
  have len: "length ?as < 2 ^ 32"
    and bs: "bs = put_u32 P (of_nat (length ?as)) @ write_many (write_asset P) ?as"
    using wr by (auto simp: write_vault_def Let_def split: if_splits)
  have "unat (of_nat (length ?as) :: u32) = length ?as"
    using len by (simp add: unat_of_nat)
  then have "read_many (unat (of_nat (length ?as) :: u32)) (read_asset P) (write_many (write_asset P) ?as @ rest)
      = Ok (?as, rest)"
    using c_asset.read_many_write_many [OF vault_entries_assets(2) [OF inv]] by simp
  then show ?thesis
    using vault_rebuild [OF inv] by (auto simp: read_vault_def bs get_put_u32)
qed

end

section \<open>A concrete tree\<close>

text \<open>An association list in place of the tree; used to show that the contract can hold.\<close>

definition sample_smt :: "(digest \<times> word4) list smt_ops" where
  "sample_smt = \<lparr>
     smt_empty = [],
     smt_with_entries = (\<lambda>es. if distinct (map fst es) then Ok es else Err (MerkleError ''duplicate'')),
     smt_get = (\<lambda>t k. case map_of t k of None \<Rightarrow> EMPTY_WORD | Some w \<Rightarrow> w),
     smt_insert = (\<lambda>t k w. (AList.update k w t, case map_of t k of None \<Rightarrow> EMPTY_WORD | Some w' \<Rightarrow> w')),
     smt_entries = (\<lambda>t. filter (\<lambda>x. snd x \<noteq> EMPTY_WORD) (AList.clearjunk t)),
     smt_root = (\<lambda>t. W ((\<Sum>(k, w) \<in> {x \<in> set (AList.clearjunk t). snd x \<noteq> EMPTY_WORD}.
        w0 w + 3 * w1 w + 5 * w2 w + 7 * w3 w) mod P64) 0 0 0) \<rparr>"

lemma sample_smt_entries:
  "(k, w) \<in> set (AList.clearjunk t) \<and> w \<noteq> EMPTY_WORD \<longleftrightarrow>
     (case map_of t k of None \<Rightarrow> EMPTY_WORD | Some w' \<Rightarrow> w') = w \<and> w \<noteq> EMPTY_WORD"
proof -
  have "map_of t k = Some w \<longleftrightarrow> (k, w) \<in> set (AList.clearjunk t)"
    by (metis distinct_clearjunk map_of_clearjunk map_of_eq_Some_iff)
  then show ?thesis by (auto split: option.splits)
qed

interpretation sample_smt_laws: smt_spec sample_smt
proof unfold_locales
  show "distinct (map fst (smt_entries sample_smt t))" for t
    by (simp add: sample_smt_def distinct_map_filter distinct_clearjunk)
  show "(k, w) \<in> set (smt_entries sample_smt t) \<longleftrightarrow> smt_get sample_smt t k = w \<and> w \<noteq> EMPTY_WORD" for k w t
    using sample_smt_entries by (simp add: sample_smt_def)
  show "smt_root sample_smt t = smt_root sample_smt t'"
    if "\<And>k. smt_get sample_smt t k = smt_get sample_smt t' k" for t t'
  proof -
    have "{x \<in> set (AList.clearjunk t). snd x \<noteq> EMPTY_WORD} = {x \<in> set (AList.clearjunk t'). snd x \<noteq> EMPTY_WORD}"
      using that unfolding set_eq_iff split_paired_All mem_Collect_eq snd_conv sample_smt_entries
      by (simp add: sample_smt_def)
    then show ?thesis by (simp add: sample_smt_def)
  qed
qed (auto simp: sample_smt_def update_conv' sample_mod_less split: option.splits)

interpretation sample_vault_laws: vault_spec sample_prims sample_smt
  by unfold_locales

interpretation sample_vault_io_laws: vault_io_spec sample_prims sample_smt
  by unfold_locales

section \<open>Theorems\<close>

text \<open>
  C3. Adding and removing assets refines the abstract vault: on a vault whose entries are
  well-formed assets, each operation leaves such a vault, changes the balances and the set
  of non-fungible assets exactly as the abstract operation does (unchanged on an error),
  and returns the abstract operation's result; it never panics.
\<close>

theorem vault_refines_abstract_vault:
  assumes "felt_spec P" "smt_spec T" "vault_inv P T v" "asset_ok P a"
  shows "(case add_asset P T v a of (v', r) \<Rightarrow>
           vault_inv P T v' \<and> abs_add (vault_abs T v) a = (vault_abs T v', r))
    \<and> (case remove_asset P T v a of (v', r) \<Rightarrow>
           vault_inv P T v' \<and> abs_remove (vault_abs T v) a = (vault_abs T v', r))"
  using assms by (intro vault_spec.vault_refines vault_spec.intro)

definition sample_vault :: "(digest \<times> word4) list asset_vault" where
  "sample_vault = \<lparr> asset_tree = [(W 0 0 0 0x200000000000001F, W 100 0 0 0x200000000000001F)] \<rparr>"

lemma sample_vault_new: "vault_new sample_prims sample_smt [sample_coin] = Ok sample_vault"
  by (simp add: vault_new_def sample_smt_def sample_coin_def fungible_vault_key_def fungible_to_word_def
      sample_prims_def sample_faucet_def sample_vault_def)

lemma sample_vault_inv: "vault_inv sample_prims sample_smt sample_vault"
  using sample_vault_laws.vault_new_ok [of "[sample_coin]"] by (auto simp: sample_vault_new)

theorem vault_refines_abstract_vault_witness:
  "snd (add_asset sample_prims sample_smt sample_vault sample_nft) = Ok sample_nft"
proof -
  have "abs_add (vault_abs sample_smt sample_vault) sample_nft
      = (vault_abs sample_smt (fst (add_asset sample_prims sample_smt sample_vault sample_nft)),
         snd (add_asset sample_prims sample_smt sample_vault sample_nft))"
    using vault_refines_abstract_vault [OF sample_felt_laws.felt_spec_axioms
        sample_smt_laws.smt_spec_axioms sample_vault_inv sample_assets_ok(2)]
    by (simp add: split_beta)
  then show ?thesis
    by (simp add: sample_nft_def vault_abs_def sample_smt_def sample_vault_def split: prod.splits)
qed

text \<open>
  Building a vault from a list of well-formed assets succeeds exactly when no two of
  them are the same asset, and the vault then holds exactly these assets, each once.
\<close>

theorem vault_new_holds_assets:
  assumes "felt_spec P" "smt_spec T" "list_all (asset_ok P) as"
  shows "(case vault_new P T as of
            Ok v \<Rightarrow> sorted_wrt (\<lambda>a b. \<not> is_same a b) as \<and> vault_inv P T v \<and>
              set (vault_assets T v) = set as \<and> distinct (vault_assets T v)
          | Err e \<Rightarrow> \<not> sorted_wrt (\<lambda>a b. \<not> is_same a b) as
          | Panic m \<Rightarrow> False)"
proof -
  have V: "vault_spec P T" using assms(1,2) by (rule vault_spec.intro)
  have same: "sorted_wrt (\<lambda>a b. \<not> is_same a b) as \<longleftrightarrow> distinct (map asset_vault_key as)"
    using assms(3)
    by (induction as) (auto simp: list_all_iff felt_spec.asset_vault_key_iff [OF assms(1), symmetric])
  show ?thesis
  proof (cases "distinct (map asset_vault_key as)")
    case True
    then obtain v where v: "vault_new P T as = Ok v" "vault_inv P T v"
      "\<forall>k. smt_get T (asset_tree v) k =
        (case map_of (map (\<lambda>a. (asset_vault_key a, asset_to_word P a)) as) k of
           None \<Rightarrow> EMPTY_WORD | Some w \<Rightarrow> w)"
      using vault_spec.vault_new_ok [OF V assms(3)] by blast
    have "set (vault_assets T v) = set as"
      by (rule vault_spec.vault_new_contents [OF V assms(3) True v(2,3)])
    moreover have "distinct (vault_assets T v)"
      using vault_spec.vault_assets_distinct [OF V v(2)] by (simp add: distinct_map)
    ultimately show ?thesis using v True same by simp
  next
    case False
    then show ?thesis using vault_spec.vault_new_duplicate [OF V, of as] same by auto
  qed
qed

theorem vault_new_holds_assets_witness:
  "set (vault_assets sample_smt sample_vault) = {sample_coin}"
  using vault_new_holds_assets [OF sample_felt_laws.felt_spec_axioms sample_smt_laws.smt_spec_axioms,
      of "[sample_coin]"]
  by (simp add: sample_vault_new)

text \<open>
  The queries and the enumeration of a vault agree with its abstract contents: an asset
  is enumerated exactly when it is the balance of its faucet or a stored non-fungible asset,
  the balance query returns the balance or 0, and the membership query is membership.
\<close>

theorem vault_queries_agree:
  assumes "felt_spec P" "smt_spec T" "vault_inv P T v"
  shows "(Fungible f \<in> set (vault_assets T v) \<longleftrightarrow>
            av_balance (vault_abs T v) (fa_faucet_id f) = Some (fa_amount f))
    \<and> (NonFungible n \<in> set (vault_assets T v) \<longleftrightarrow> n \<in> av_nfts (vault_abs T v))
    \<and> (get_balance T v i = (if account_type i = FungibleFaucet
         then Ok (case av_balance (vault_abs T v) i of None \<Rightarrow> 0 | Some b \<Rightarrow> b)
         else Err (VaultNotAFungibleFaucetId i)))
    \<and> (non_fungible_ok P n \<longrightarrow>
         has_non_fungible_asset T v (NonFungible n) = Ok (n \<in> av_nfts (vault_abs T v)))"
proof (intro conjI impI)
  have V: "vault_spec P T" using assms(1,2) by (rule vault_spec.intro)
  show "Fungible f \<in> set (vault_assets T v) \<longleftrightarrow> av_balance (vault_abs T v) (fa_faucet_id f) = Some (fa_amount f)"
    by (rule vault_spec.vault_assets_fungible [OF V assms(3)])
  show "NonFungible n \<in> set (vault_assets T v) \<longleftrightarrow> n \<in> av_nfts (vault_abs T v)"
    by (rule vault_spec.vault_assets_non_fungible [OF V assms(3)])
qed (auto simp: get_balance_def has_non_fungible_asset_def vault_abs_def fungible_new_unchecked_def
      non_fungible_vault_key_def non_fungible_ok_def Let_def)

theorem vault_queries_agree_witness:
  "get_balance sample_smt sample_vault sample_faucet = Ok 100"
  using vault_queries_agree [OF sample_felt_laws.felt_spec_axioms sample_smt_laws.smt_spec_axioms
      sample_vault_inv, of _ _ sample_faucet]
  by (simp add: vault_abs_def sample_smt_def sample_vault_def sample_faucet_def account_type_def
      account_type_of_bits)

text \<open>
  Reading back a serialized vault gives a vault with the same entries, hence the same
  contents and the same commitment.
\<close>

theorem vault_serialization_round_trip:
  assumes "prims_spec P" "smt_spec T" "vault_inv P T v" "write_vault P T v = Ok bs"
  shows "\<exists>v'. read_vault P T (bs @ rest) = Ok (v', rest) \<and> vault_inv P T v' \<and>
    vault_abs T v' = vault_abs T v \<and> vault_commitment T v' = vault_commitment T v"
proof -
  have V: "vault_spec P T" using assms(1,2) by (simp add: vault_spec.intro prims_spec.axioms)
  from vault_io_spec.read_write_vault [OF vault_io_spec.intro [OF assms(1) V] assms(3,4)]
  obtain v' where v': "read_vault P T (bs @ rest) = Ok (v', rest)" "vault_inv P T v'"
    and get: "\<And>k. smt_get T (asset_tree v') k = smt_get T (asset_tree v) k" by blast
  show ?thesis
    using v' vault_spec.vault_abs_ext [OF V get] vault_spec.vault_commitment_ext [OF V get] by blast
qed

theorem vault_serialization_round_trip_witness:
  "\<exists>bs v'. write_vault sample_prims sample_smt sample_vault = Ok bs \<and>
     read_vault sample_prims sample_smt bs = Ok (v', []) \<and>
     vault_commitment sample_smt v' = vault_commitment sample_smt sample_vault"
proof -
  obtain bs where "write_vault sample_prims sample_smt sample_vault = Ok bs"
    by (simp add: write_vault_def vault_assets_def sample_smt_def sample_vault_def)
  from this vault_serialization_round_trip [OF sample_laws.prims_spec_axioms
      sample_smt_laws.smt_spec_axioms sample_vault_inv this, of "[]"]
  show ?thesis by auto
qed

end
