(* ===== verification/Delta.thy ===== *)
theory Delta
  imports Vault
begin

text \<open>
  Account deltas (\<open>objects/src/accounts/delta/\<close>): the storage and vault deltas with their
  validation loops, the nonce rule, and the binary format, whose reader validates while it
  reads.
\<close>

section \<open>Storage deltas\<close>

definition MAX_MUTABLE_STORAGE_SLOT_IDX :: u8 where
  "MAX_MUTABLE_STORAGE_SLOT_IDX = 254"

record storage_delta =
  cleared_items :: "u8 list"
  updated_items :: "(u8 \<times> word4) list"

text \<open>The loops over \<open>iter().enumerate()\<close>; the first argument is the slice \<open>[..pos]\<close>.\<close>

fun check_cleared :: "u8 list \<Rightarrow> u8 list \<Rightarrow> (unit, account_delta_error) result" where
  "check_cleared before [] = Ok ()"
| "check_cleared before (idx # rest) =
    (if idx > MAX_MUTABLE_STORAGE_SLOT_IDX then Err (ImmutableStorageSlot (unat idx))
     else if idx \<in> set before then Err (DuplicateStorageItemUpdate (unat idx))
     else check_cleared (before @ [idx]) rest)"

fun check_updated :: "u8 list \<Rightarrow> (u8 \<times> word4) list \<Rightarrow> (u8 \<times> word4) list \<Rightarrow> (unit, account_delta_error) result" where
  "check_updated cleared before [] = Ok ()"
| "check_updated cleared before ((idx, v) # rest) =
    (if idx > MAX_MUTABLE_STORAGE_SLOT_IDX then Err (ImmutableStorageSlot (unat idx))
     else if idx \<in> set cleared then Err (DuplicateStorageItemUpdate (unat idx))
     else if \<exists>x \<in> set before. fst x = idx then Err (DuplicateStorageItemUpdate (unat idx))
     else check_updated cleared (before @ [(idx, v)]) rest)"

definition storage_delta_validate :: "storage_delta \<Rightarrow> (unit, account_delta_error) result" where
  "storage_delta_validate d =
    (if length (cleared_items d) > 255 then Err (TooManyClearedStorageItems (length (cleared_items d)) 255)
     else if length (updated_items d) > 255 then Err (TooManyRemovedAssets (length (updated_items d)) 255)
     else and_then (check_cleared [] (cleared_items d))
       (\<lambda>_. check_updated (cleared_items d) [] (updated_items d)))"

definition storage_delta_is_empty :: "storage_delta \<Rightarrow> bool" where
  "storage_delta_is_empty d \<longleftrightarrow> cleared_items d = [] \<and> updated_items d = []"

definition write_storage_delta :: "prims \<Rightarrow> storage_delta \<Rightarrow> (u8 list, unit) result" where
  "write_storage_delta P d =
    (if length (cleared_items d) > 255 then Panic ''too many cleared storage items''
     else if length (updated_items d) > 255 then Panic ''too many updated storage items''
     else Ok (put_u8 P (of_nat (length (cleared_items d))) @ write_many (put_u8 P) (cleared_items d)
       @ put_u8 P (of_nat (length (updated_items d)))
       @ write_many (\<lambda>(idx, v). put_u8 P idx @ put_word P v) (updated_items d)))"

fun read_cleared :: "prims \<Rightarrow> nat \<Rightarrow> u8 list \<Rightarrow> (u8 list, deserialization_error) reader" where
  "read_cleared P 0 acc bs = Ok (acc, bs)"
| "read_cleared P (Suc n) acc bs = and_then (get_u8 P bs) (\<lambda>(idx, bs').
     if idx > MAX_MUTABLE_STORAGE_SLOT_IDX then Err (InvalidValue ''immutable storage item cleared'')
     else if idx \<in> set acc then Err (InvalidValue ''storage item cleared more than once'')
     else read_cleared P n (acc @ [idx]) bs')"

fun read_updated ::
    "prims \<Rightarrow> u8 list \<Rightarrow> nat \<Rightarrow> (u8 \<times> word4) list \<Rightarrow> ((u8 \<times> word4) list, deserialization_error) reader" where
  "read_updated P cleared 0 acc bs = Ok (acc, bs)"
| "read_updated P cleared (Suc n) acc bs = and_then (get_u8 P bs) (\<lambda>(idx, bs').
     and_then (get_word P bs') (\<lambda>(v, bs'').
       if idx > MAX_MUTABLE_STORAGE_SLOT_IDX then Err (InvalidValue ''immutable storage item updated'')
       else if \<exists>x \<in> set acc. fst x = idx then Err (InvalidValue ''storage item updated more than once'')
       else if idx \<in> set cleared then Err (InvalidValue ''storage item both cleared and updated'')
       else read_updated P cleared n (acc @ [(idx, v)]) bs''))"

definition read_storage_delta :: "prims \<Rightarrow> (storage_delta, deserialization_error) reader" where
  "read_storage_delta P bs =
     and_then (get_u8 P bs) (\<lambda>(num_cleared, bs1).
     and_then (read_cleared P (unat num_cleared) [] bs1) (\<lambda>(cleared, bs2).
     and_then (get_u8 P bs2) (\<lambda>(num_updated, bs3).
     and_then (read_updated P cleared (unat num_updated) [] bs3) (\<lambda>(updated, bs4).
       Ok (\<lparr> cleared_items = cleared, updated_items = updated \<rparr>, bs4)))))"

section \<open>Vault deltas\<close>

record vault_delta =
  added_assets :: "asset list"
  removed_assets :: "asset list"

fun check_added :: "asset list \<Rightarrow> asset list \<Rightarrow> (unit, account_delta_error) result" where
  "check_added before [] = Ok ()"
| "check_added before (a # rest) =
    (if \<exists>x \<in> set before. is_same x a then Err (DuplicateVaultUpdate a)
     else check_added (before @ [a]) rest)"

fun check_removed :: "asset list \<Rightarrow> asset list \<Rightarrow> asset list \<Rightarrow> (unit, account_delta_error) result" where
  "check_removed added before [] = Ok ()"
| "check_removed added before (a # rest) =
    (if \<exists>x \<in> set before. is_same x a then Err (DuplicateVaultUpdate a)
     else if \<exists>x \<in> set added. is_same x a then Err (DuplicateVaultUpdate a)
     else check_removed added (before @ [a]) rest)"

definition vault_delta_validate :: "vault_delta \<Rightarrow> (unit, account_delta_error) result" where
  "vault_delta_validate d =
    (if length (added_assets d) > 65535 then Err (TooManyAddedAsset (length (added_assets d)) 65535)
     else if length (removed_assets d) > 65535 then Err (TooManyRemovedAssets (length (removed_assets d)) 65535)
     else and_then (check_added [] (added_assets d))
       (\<lambda>_. check_removed (added_assets d) [] (removed_assets d)))"

definition vault_delta_is_empty :: "vault_delta \<Rightarrow> bool" where
  "vault_delta_is_empty d \<longleftrightarrow> added_assets d = [] \<and> removed_assets d = []"

definition write_vault_delta :: "prims \<Rightarrow> vault_delta \<Rightarrow> (u8 list, unit) result" where
  "write_vault_delta P d =
    (if length (added_assets d) > 65535 then Panic ''too many added assets''
     else if length (removed_assets d) > 65535 then Panic ''too many removed assets''
     else Ok (put_u16 P (of_nat (length (added_assets d))) @ write_many (write_asset P) (added_assets d)
       @ put_u16 P (of_nat (length (removed_assets d))) @ write_many (write_asset P) (removed_assets d)))"

fun read_added :: "prims \<Rightarrow> nat \<Rightarrow> asset list \<Rightarrow> (asset list, deserialization_error) reader" where
  "read_added P 0 acc bs = Ok (acc, bs)"
| "read_added P (Suc n) acc bs = and_then (read_asset P bs) (\<lambda>(a, bs').
     if \<exists>x \<in> set acc. is_same x a then Err (InvalidValue ''asset added more than once'')
     else read_added P n (acc @ [a]) bs')"

fun read_removed :: "prims \<Rightarrow> asset list \<Rightarrow> nat \<Rightarrow> asset list \<Rightarrow> (asset list, deserialization_error) reader" where
  "read_removed P added 0 acc bs = Ok (acc, bs)"
| "read_removed P added (Suc n) acc bs = and_then (read_asset P bs) (\<lambda>(a, bs').
     if \<exists>x \<in> set acc. is_same x a then Err (InvalidValue ''asset added more than once'')
     else if \<exists>x \<in> set added. is_same x a then Err (InvalidValue ''asset both added and removed'')
     else read_removed P added n (acc @ [a]) bs')"

definition read_vault_delta :: "prims \<Rightarrow> (vault_delta, deserialization_error) reader" where
  "read_vault_delta P bs =
     and_then (get_u16 P bs) (\<lambda>(num_added, bs1).
     and_then (read_added P (unat num_added) [] bs1) (\<lambda>(added, bs2).
     and_then (get_u16 P bs2) (\<lambda>(num_removed, bs3).
     and_then (read_removed P added (unat num_removed) [] bs3) (\<lambda>(removed, bs4).
       Ok (\<lparr> added_assets = added, removed_assets = removed \<rparr>, bs4)))))"

section \<open>Account deltas\<close>

record account_delta =
  ad_storage :: storage_delta
  ad_vault :: vault_delta
  ad_nonce :: "felt option"

definition validate_nonce :: "felt option \<Rightarrow> storage_delta \<Rightarrow> vault_delta \<Rightarrow> (unit, account_delta_error) result" where
  "validate_nonce nonce sd vd =
    (if \<not> storage_delta_is_empty sd \<or> \<not> vault_delta_is_empty vd then
       (case nonce of
          Some n \<Rightarrow>
            if n = 0 then Err (InconsistentNonceUpdate ''zero nonce for a non-empty account delta'')
            else Ok ()
        | None \<Rightarrow> Err (InconsistentNonceUpdate ''nonce not updated for non-empty account delta''))
     else if nonce \<noteq> None then Err (InconsistentNonceUpdate ''nonce updated for empty delta'')
     else Ok ())"

definition account_delta_new ::
    "storage_delta \<Rightarrow> vault_delta \<Rightarrow> felt option \<Rightarrow> (account_delta, account_delta_error) result" where
  "account_delta_new sd vd nonce =
     and_then (storage_delta_validate sd) (\<lambda>_.
     and_then (vault_delta_validate vd) (\<lambda>_.
     and_then (validate_nonce nonce sd vd) (\<lambda>_.
       Ok \<lparr> ad_storage = sd, ad_vault = vd, ad_nonce = nonce \<rparr>)))"

definition account_delta_is_empty :: "account_delta \<Rightarrow> bool" where
  "account_delta_is_empty d \<longleftrightarrow> storage_delta_is_empty (ad_storage d) \<and> vault_delta_is_empty (ad_vault d)"

definition write_account_delta :: "prims \<Rightarrow> account_delta \<Rightarrow> (u8 list, unit) result" where
  "write_account_delta P d =
     and_then (write_storage_delta P (ad_storage d)) (\<lambda>bs1.
     and_then (write_vault_delta P (ad_vault d)) (\<lambda>bs2.
       Ok (bs1 @ bs2 @ put_opt_felt P (ad_nonce d))))"

definition read_account_delta :: "prims \<Rightarrow> (account_delta, deserialization_error) reader" where
  "read_account_delta P bs =
     and_then (read_storage_delta P bs) (\<lambda>(sd, bs1).
     and_then (read_vault_delta P bs1) (\<lambda>(vd, bs2).
     and_then (get_opt_felt P bs2) (\<lambda>(nonce, bs3).
     and_then (map_err (\<lambda>e. InvalidValue (show_account_delta_error P e)) (validate_nonce nonce sd vd)) (\<lambda>_.
       Ok (\<lparr> ad_storage = sd, ad_vault = vd, ad_nonce = nonce \<rparr>, bs3)))))"

section \<open>What validation accepts\<close>

abbreviation no_same :: "asset list \<Rightarrow> bool" where
  "no_same as \<equiv> sorted_wrt (\<lambda>a b. \<not> is_same a b) as"

definition storage_delta_valid :: "storage_delta \<Rightarrow> bool" where
  "storage_delta_valid d \<longleftrightarrow>
     (let touched = cleared_items d @ map fst (updated_items d) in distinct touched \<and> 255 \<notin> set touched)
     \<and> length (cleared_items d) \<le> 255 \<and> length (updated_items d) \<le> 255"

definition vault_delta_valid :: "vault_delta \<Rightarrow> bool" where
  "vault_delta_valid d \<longleftrightarrow> no_same (added_assets d @ removed_assets d)
     \<and> length (added_assets d) \<le> 65535 \<and> length (removed_assets d) \<le> 65535"

definition nonce_valid :: "felt option \<Rightarrow> storage_delta \<Rightarrow> vault_delta \<Rightarrow> bool" where
  "nonce_valid nonce sd vd \<longleftrightarrow>
     (if storage_delta_is_empty sd \<and> vault_delta_is_empty vd then nonce = None
      else nonce \<noteq> None \<and> nonce \<noteq> Some 0)"

definition account_delta_valid :: "account_delta \<Rightarrow> bool" where
  "account_delta_valid d \<longleftrightarrow> storage_delta_valid (ad_storage d) \<and> vault_delta_valid (ad_vault d)
     \<and> nonce_valid (ad_nonce d) (ad_storage d) (ad_vault d)"

lemma immutable_idx: "idx > MAX_MUTABLE_STORAGE_SLOT_IDX \<longleftrightarrow> idx = 255"
proof
  assume "idx > MAX_MUTABLE_STORAGE_SLOT_IDX"
  then have "unat idx > 254" by (simp add: MAX_MUTABLE_STORAGE_SLOT_IDX_def word_less_nat_alt)
  moreover have "unat idx < 256" using unsigned_less [of idx, where 'a = nat] by simp
  ultimately have "unat idx = 255" by simp
  then show "idx = 255" by (simp add: word_unat_eq_iff)
qed (simp add: MAX_MUTABLE_STORAGE_SLOT_IDX_def)

lemma check_cleared_Ok:
  "check_cleared before xs = Ok u \<longleftrightarrow> 255 \<notin> set xs \<and> distinct xs \<and> set before \<inter> set xs = {}"
  by (induction before xs rule: check_cleared.induct) (auto simp: immutable_idx)

lemma check_updated_Ok:
  "check_updated cleared before xs = Ok u \<longleftrightarrow>
     255 \<notin> set (map fst xs) \<and> distinct (map fst xs) \<and>
     set (cleared @ map fst before) \<inter> set (map fst xs) = {}"
  by (induction cleared before xs rule: check_updated.induct) (auto simp: immutable_idx)

lemma storage_delta_validate_Ok: "storage_delta_validate d = Ok u \<longleftrightarrow> storage_delta_valid d"
  by (auto simp: storage_delta_validate_def res_simps check_cleared_Ok check_updated_Ok
      storage_delta_valid_def)

lemma check_added_Ok:
  "check_added before xs = Ok u \<longleftrightarrow> no_same xs \<and> (\<forall>x \<in> set before. \<forall>y \<in> set xs. \<not> is_same x y)"
  by (induction before xs rule: check_added.induct) auto

lemma check_removed_Ok:
  "check_removed added before xs = Ok u \<longleftrightarrow>
     no_same xs \<and> (\<forall>x \<in> set (added @ before). \<forall>y \<in> set xs. \<not> is_same x y)"
  by (induction added before xs rule: check_removed.induct) auto

lemma vault_delta_validate_Ok: "vault_delta_validate d = Ok u \<longleftrightarrow> vault_delta_valid d"
  by (auto simp: vault_delta_validate_def res_simps check_added_Ok check_removed_Ok
      vault_delta_valid_def sorted_wrt_append)

lemma validate_nonce_Ok: "validate_nonce nonce sd vd = Ok u \<longleftrightarrow> nonce_valid nonce sd vd"
  by (auto simp: validate_nonce_def nonce_valid_def split: option.splits)

lemma account_delta_new_Ok:
  "account_delta_new sd vd nonce = Ok d \<longleftrightarrow>
     d = \<lparr> ad_storage = sd, ad_vault = vd, ad_nonce = nonce \<rparr> \<and> account_delta_valid d"
  by (auto simp: account_delta_new_def res_simps storage_delta_validate_Ok vault_delta_validate_Ok
      validate_nonce_Ok account_delta_valid_def)

section \<open>The reader validates\<close>

lemma read_cleared_checks:
  "read_cleared P n acc bs = Ok (ys, bs') \<Longrightarrow>
   \<exists>xs. ys = acc @ xs \<and> length xs = n \<and> check_cleared acc xs = Ok ()"
proof (induction n arbitrary: acc bs)
  case (Suc n)
  then obtain idx bs1 where step: "\<not> idx > MAX_MUTABLE_STORAGE_SLOT_IDX" "idx \<notin> set acc"
    "read_cleared P n (acc @ [idx]) bs1 = Ok (ys, bs')"
    by (auto simp: res_simps split: if_splits)
  from Suc.IH [OF step(3)] obtain xs where "ys = (acc @ [idx]) @ xs" "length xs = n"
    "check_cleared (acc @ [idx]) xs = Ok ()" by blast
  with step show ?case by (intro exI [of _ "idx # xs"]) simp
qed simp

lemma read_updated_checks:
  "read_updated P cleared n acc bs = Ok (ys, bs') \<Longrightarrow>
   \<exists>xs. ys = acc @ xs \<and> length xs = n \<and> check_updated cleared acc xs = Ok ()"
proof (induction n arbitrary: acc bs)
  case (Suc n)
  then obtain idx v bs1 where step: "\<not> idx > MAX_MUTABLE_STORAGE_SLOT_IDX" "idx \<notin> set cleared"
    "\<not> (\<exists>x \<in> set acc. fst x = idx)" "read_updated P cleared n (acc @ [(idx, v)]) bs1 = Ok (ys, bs')"
    by (auto simp: res_simps split: if_splits)
  from Suc.IH [OF step(4)] obtain xs where "ys = (acc @ [(idx, v)]) @ xs" "length xs = n"
    "check_updated cleared (acc @ [(idx, v)]) xs = Ok ()" by blast
  with step show ?case by (intro exI [of _ "(idx, v) # xs"]) simp
qed simp

lemma read_added_checks:
  "read_added P n acc bs = Ok (ys, bs') \<Longrightarrow>
   \<exists>xs. ys = acc @ xs \<and> length xs = n \<and> check_added acc xs = Ok ()"
proof (induction n arbitrary: acc bs)
  case (Suc n)
  then obtain a bs1 where step: "\<not> (\<exists>x \<in> set acc. is_same x a)" "read_added P n (acc @ [a]) bs1 = Ok (ys, bs')"
    by (auto simp: res_simps split: if_splits)
  from Suc.IH [OF step(2)] obtain xs where "ys = (acc @ [a]) @ xs" "length xs = n"
    "check_added (acc @ [a]) xs = Ok ()" by blast
  with step show ?case by (intro exI [of _ "a # xs"]) simp
qed simp

lemma read_removed_checks:
  "read_removed P added n acc bs = Ok (ys, bs') \<Longrightarrow>
   \<exists>xs. ys = acc @ xs \<and> length xs = n \<and> check_removed added acc xs = Ok ()"
proof (induction n arbitrary: acc bs)
  case (Suc n)
  then obtain a bs1 where step: "\<not> (\<exists>x \<in> set acc. is_same x a)" "\<not> (\<exists>x \<in> set added. is_same x a)"
    "read_removed P added n (acc @ [a]) bs1 = Ok (ys, bs')"
    by (auto simp: res_simps split: if_splits)
  from Suc.IH [OF step(3)] obtain xs where "ys = (acc @ [a]) @ xs" "length xs = n"
    "check_removed added (acc @ [a]) xs = Ok ()" by blast
  with step show ?case by (intro exI [of _ "a # xs"]) simp
qed simp

lemma unat_u16_le: "unat (n :: u16) \<le> 65535"
  using unsigned_less [of n, where 'a = nat] by simp

lemma read_storage_delta_valid:
  assumes "read_storage_delta P bs = Ok (d, bs')"
  shows "storage_delta_valid d"
proof -
  from assms obtain n m cl up bs1 bs2 bs3 where
    cl: "read_cleared P (unat (n :: u8)) [] bs1 = Ok (cl, bs2)" and
    up: "read_updated P cl (unat (m :: u8)) [] bs3 = Ok (up, bs')" and
    d: "d = \<lparr> cleared_items = cl, updated_items = up \<rparr>"
    by (auto simp: read_storage_delta_def res_simps)
  show ?thesis
    using unat_u8_less [of n] unat_u8_less [of m] read_cleared_checks [OF cl] read_updated_checks [OF up]
    by (auto simp: d storage_delta_valid_def check_cleared_Ok check_updated_Ok)
qed

lemma read_vault_delta_valid:
  assumes "read_vault_delta P bs = Ok (d, bs')"
  shows "vault_delta_valid d"
proof -
  from assms obtain n m ad rm bs1 bs2 bs3 where
    ad: "read_added P (unat (n :: u16)) [] bs1 = Ok (ad, bs2)" and
    rm: "read_removed P ad (unat (m :: u16)) [] bs3 = Ok (rm, bs')" and
    d: "d = \<lparr> added_assets = ad, removed_assets = rm \<rparr>"
    by (auto simp: read_vault_delta_def res_simps)
  show ?thesis
    using unat_u16_le [of n] unat_u16_le [of m] read_added_checks [OF ad] read_removed_checks [OF rm]
    by (auto simp: d vault_delta_valid_def check_added_Ok check_removed_Ok sorted_wrt_append)
qed

lemma read_account_delta_checked:
  "read_account_delta P bs = Ok (d, bs') \<Longrightarrow> account_delta_valid d"
  by (auto simp: read_account_delta_def account_delta_valid_def res_simps validate_nonce_Ok
      dest: read_storage_delta_valid read_vault_delta_valid)

section \<open>Round trips\<close>

text \<open>A delta whose words, assets and nonce are canonical.\<close>

definition account_delta_canonical :: "prims \<Rightarrow> account_delta \<Rightarrow> bool" where
  "account_delta_canonical P d \<longleftrightarrow>
     list_all (\<lambda>x. word_ok P (snd x)) (updated_items (ad_storage d)) \<and>
     list_all (asset_ok P) (added_assets (ad_vault d) @ removed_assets (ad_vault d)) \<and>
     pred_option (felt_ok P) (ad_nonce d)"

context prims_spec
begin

lemma read_cleared_write:
  "check_cleared acc xs = Ok () \<Longrightarrow>
   read_cleared P (length xs) acc (write_many (put_u8 P) xs @ bs) = Ok (acc @ xs, bs)"
  by (induction xs arbitrary: acc) (auto simp: get_put_u8 split: if_splits)

lemma read_updated_write:
  "check_updated cleared acc xs = Ok () \<Longrightarrow> list_all (\<lambda>x. word_ok P (snd x)) xs \<Longrightarrow>
   read_updated P cleared (length xs) acc (write_many (\<lambda>(idx, v). put_u8 P idx @ put_word P v) xs @ bs)
     = Ok (acc @ xs, bs)"
proof (induction xs arbitrary: acc)
  case (Cons x xs)
  then show ?case by (cases x) (auto simp: get_put_u8 get_put_word split: if_splits)
qed simp

lemma read_added_write:
  "check_added acc xs = Ok () \<Longrightarrow> list_all (asset_ok P) xs \<Longrightarrow>
   read_added P (length xs) acc (write_many (write_asset P) xs @ bs) = Ok (acc @ xs, bs)"
  by (induction xs arbitrary: acc) (auto simp: read_write_asset split: if_splits)

lemma read_removed_write:
  "check_removed added acc xs = Ok () \<Longrightarrow> list_all (asset_ok P) xs \<Longrightarrow>
   read_removed P added (length xs) acc (write_many (write_asset P) xs @ bs) = Ok (acc @ xs, bs)"
  by (induction xs arbitrary: acc) (auto simp: read_write_asset split: if_splits)

lemma read_write_storage_delta:
  assumes "storage_delta_valid d" "list_all (\<lambda>x. word_ok P (snd x)) (updated_items d)"
  shows "\<exists>bs. write_storage_delta P d = Ok bs \<and> (\<forall>rest. read_storage_delta P (bs @ rest) = Ok (d, rest))"
proof -
  have len: "length (cleared_items d) \<le> 255" "length (updated_items d) \<le> 255"
    using assms(1) by (simp_all add: storage_delta_valid_def)
  then have nat: "unat (of_nat (length (cleared_items d)) :: u8) = length (cleared_items d)"
    "unat (of_nat (length (updated_items d)) :: u8) = length (updated_items d)"
    by (simp_all add: unat_of_nat)
  have "check_cleared [] (cleared_items d) = Ok ()"
    "check_updated (cleared_items d) [] (updated_items d) = Ok ()"
    using assms(1) by (auto simp: check_cleared_Ok check_updated_Ok storage_delta_valid_def)
  note rd = read_cleared_write [OF this(1)] read_updated_write [OF this(2) assms(2)]
  show ?thesis
    using len by (auto simp: write_storage_delta_def read_storage_delta_def get_put_u8 nat rd)
qed

lemma read_write_vault_delta:
  assumes "vault_delta_valid d" "list_all (asset_ok P) (added_assets d @ removed_assets d)"
  shows "\<exists>bs. write_vault_delta P d = Ok bs \<and> (\<forall>rest. read_vault_delta P (bs @ rest) = Ok (d, rest))"
proof -
  have len: "length (added_assets d) \<le> 65535" "length (removed_assets d) \<le> 65535"
    using assms(1) by (simp_all add: vault_delta_valid_def)
  then have nat: "unat (of_nat (length (added_assets d)) :: u16) = length (added_assets d)"
    "unat (of_nat (length (removed_assets d)) :: u16) = length (removed_assets d)"
    by (simp_all add: unat_of_nat)
  have "check_added [] (added_assets d) = Ok ()"
    "check_removed (added_assets d) [] (removed_assets d) = Ok ()"
    using assms(1) by (auto simp: check_added_Ok check_removed_Ok vault_delta_valid_def sorted_wrt_append)
  note rd = read_added_write [OF this(1)] read_removed_write [OF this(2)]
  show ?thesis
    using len assms(2) by (auto simp: write_vault_delta_def read_vault_delta_def get_put_u16 nat rd)
qed

lemma read_write_account_delta:
  assumes "account_delta_valid d" "account_delta_canonical P d"
  shows "\<exists>bs. write_account_delta P d = Ok bs \<and> (\<forall>rest. read_account_delta P (bs @ rest) = Ok (d, rest))"
proof -
  have "storage_delta_valid (ad_storage d)" "vault_delta_valid (ad_vault d)"
    and nonce: "validate_nonce (ad_nonce d) (ad_storage d) (ad_vault d) = Ok ()"
    using assms(1) by (auto simp: account_delta_valid_def validate_nonce_Ok)
  with assms(2) read_write_storage_delta [of "ad_storage d"] read_write_vault_delta [of "ad_vault d"]
  obtain bs1 bs2 where
    "write_storage_delta P (ad_storage d) = Ok bs1" "\<And>rest. read_storage_delta P (bs1 @ rest) = Ok (ad_storage d, rest)"
    "write_vault_delta P (ad_vault d) = Ok bs2" "\<And>rest. read_vault_delta P (bs2 @ rest) = Ok (ad_vault d, rest)"
    unfolding account_delta_canonical_def by blast
  moreover have "get_opt_felt P (put_opt_felt P (ad_nonce d) @ rest) = Ok (ad_nonce d, rest)" for rest
    using assms(2) by (simp add: account_delta_canonical_def get_put_opt_felt)
  ultimately show ?thesis using nonce
    by (auto simp: write_account_delta_def read_account_delta_def)
qed

end

section \<open>Theorems\<close>

text \<open>
  An account delta is accepted exactly when no storage slot and no asset is touched
  twice, slot 255 is untouched, the counts fit their encodings, and the nonce is updated to a
  non-zero value if anything changed and left alone otherwise.
\<close>

theorem account_delta_new_iff:
  "account_delta_new sd vd nonce = Ok d \<longleftrightarrow>
     d = \<lparr> ad_storage = sd, ad_vault = vd, ad_nonce = nonce \<rparr> \<and>
     distinct (cleared_items sd @ map fst (updated_items sd)) \<and>
     255 \<notin> set (cleared_items sd @ map fst (updated_items sd)) \<and>
     no_same (added_assets vd @ removed_assets vd) \<and>
     length (cleared_items sd) \<le> 255 \<and> length (updated_items sd) \<le> 255 \<and>
     length (added_assets vd) \<le> 65535 \<and> length (removed_assets vd) \<le> 65535 \<and>
     (if storage_delta_is_empty sd \<and> vault_delta_is_empty vd then nonce = None
      else nonce \<noteq> None \<and> nonce \<noteq> Some 0)"
  unfolding account_delta_new_Ok
  by (rule conj_cong [OF refl])
    (simp only: account_delta_valid_def storage_delta_valid_def vault_delta_valid_def nonce_valid_def
      Let_def account_delta.simps conj_ac)

text \<open>
  Every delta the reader accepts would have been accepted by the constructor.
\<close>

theorem read_account_delta_valid:
  assumes "read_account_delta P bs = Ok (d, bs')"
  shows "account_delta_new (ad_storage d) (ad_vault d) (ad_nonce d) = Ok d"
  using read_account_delta_checked [OF assms] by (simp add: account_delta_new_Ok)

definition sample_delta :: account_delta where
  "sample_delta = \<lparr>
     ad_storage = \<lparr> cleared_items = [3], updated_items = [(4, W 1 2 3 4)] \<rparr>,
     ad_vault = \<lparr> added_assets = [sample_nft], removed_assets = [sample_coin] \<rparr>,
     ad_nonce = Some 7 \<rparr>"

lemma sample_assets_differ: "\<not> is_same sample_nft sample_coin"
  by (simp add: sample_nft_def sample_coin_def)

lemma sample_delta_valid: "account_delta_valid sample_delta" "account_delta_canonical sample_prims sample_delta"
proof -
  show "account_delta_valid sample_delta"
    by (simp add: account_delta_valid_def sample_delta_def storage_delta_valid_def vault_delta_valid_def
        nonce_valid_def storage_delta_is_empty_def sample_assets_differ)
  show "account_delta_canonical sample_prims sample_delta"
    by (simp add: account_delta_canonical_def sample_delta_def) (simp add: felt_ok_def sample_prims_def)
qed

text \<open>
  C34. A valid delta with canonical contents is written without a panic and read back as the
  same delta.
\<close>

theorem account_delta_round_trip:
  assumes "prims_spec P" "account_delta_valid d" "account_delta_canonical P d"
  shows "\<exists>bs. write_account_delta P d = Ok bs \<and> read_account_delta P (bs @ rest) = Ok (d, rest)"
  using prims_spec.read_write_account_delta [OF assms] by blast

theorem account_delta_round_trip_witness:
  "\<exists>bs. write_account_delta sample_prims sample_delta = Ok bs \<and>
     read_account_delta sample_prims bs = Ok (sample_delta, [])"
  using account_delta_round_trip [OF sample_laws.prims_spec_axioms sample_delta_valid, of "[]"] by simp

theorem read_account_delta_valid_witness:
  "\<exists>bs. read_account_delta sample_prims bs = Ok (sample_delta, []) \<and>
     account_delta_new (ad_storage sample_delta) (ad_vault sample_delta) (ad_nonce sample_delta) = Ok sample_delta"
proof -
  obtain bs where "read_account_delta sample_prims (bs @ []) = Ok (sample_delta, [])"
    using prims_spec.read_write_account_delta [OF sample_laws.prims_spec_axioms sample_delta_valid] by blast
  from this read_account_delta_valid [OF this] show ?thesis by auto
qed

end
