(* ===== verification/Storage.thy ===== *)
theory Storage
  imports Delta
begin

text \<open>
  Account storage (\<open>objects/src/accounts/storage/\<close>): 256 slots in a sparse Merkle tree of
  depth 8 with a layout of slot types, committed to in slot 255.  The tree
  (\<open>miden_crypto::merkle::SimpleSmt\<close>) is third-party code: a record of operations \<open>S\<close> with
  the contract \<open>simple_smt_spec\<close>, which the procedure tree and the note trees use as well.
\<close>

section \<open>Simple sparse Merkle trees\<close>

text \<open>
  An operation on a leaf index stands for building the index (\<open>LeafIndex::new\<close> or
  \<open>NodeIndex::new\<close> at leaf depth) and applying it.
\<close>

record 's simple_smt_ops =
  ssmt_with_leaves :: "(u64 \<times> word4) list \<Rightarrow> ('s, merkle_error) result"
  ssmt_get :: "'s \<Rightarrow> u64 \<Rightarrow> (word4, merkle_error) result"
  ssmt_insert :: "'s \<Rightarrow> u64 \<Rightarrow> word4 \<Rightarrow> ('s \<times> word4, merkle_error) result"
  ssmt_leaves :: "'s \<Rightarrow> (u64 \<times> word4) list"
  ssmt_root :: "'s \<Rightarrow> digest"

fun leaf_lookup :: "(u64 \<times> word4) list \<Rightarrow> u64 \<Rightarrow> word4" where
  "leaf_lookup es i = (case map_of es i of None \<Rightarrow> EMPTY_WORD | Some w \<Rightarrow> w)"

locale simple_smt_spec =
  fixes S :: "'s simple_smt_ops" and d :: nat
  assumes ssmt_with_leaves_ok: "distinct (map fst es) \<Longrightarrow> list_all (\<lambda>e. unat (fst e) < 2 ^ d) es \<Longrightarrow>
      \<exists>t. ssmt_with_leaves S es = Ok t \<and>
        (\<forall>i. unat i < 2 ^ d \<longrightarrow> ssmt_get S t i = Ok (leaf_lookup es i))"
    and ssmt_with_leaves_dup: "\<not> distinct (map fst es) \<Longrightarrow> \<exists>e. ssmt_with_leaves S es = Err e"
    and ssmt_get_ok: "unat i < 2 ^ d \<Longrightarrow> \<exists>w. ssmt_get S t i = Ok w"
    and ssmt_insert_ok: "unat i < 2 ^ d \<Longrightarrow> \<exists>t' old. ssmt_insert S t i w = Ok (t', old) \<and>
        ssmt_get S t i = Ok old \<and>
        (\<forall>j. unat j < 2 ^ d \<longrightarrow> ssmt_get S t' j = (if j = i then Ok w else ssmt_get S t j))"
    and ssmt_leaves_distinct: "distinct (map fst (ssmt_leaves S t))"
    and ssmt_leaves_get: "(i, w) \<in> set (ssmt_leaves S t) \<Longrightarrow> unat i < 2 ^ d \<and> ssmt_get S t i = Ok w"
    and ssmt_leaves_all: "unat i < 2 ^ d \<Longrightarrow> ssmt_get S t i = Ok w \<Longrightarrow> w \<noteq> EMPTY_WORD \<Longrightarrow>
        (i, w) \<in> set (ssmt_leaves S t)"
    and ssmt_root_ext: "(\<And>i. unat i < 2 ^ d \<Longrightarrow> ssmt_get S t i = ssmt_get S t' i) \<Longrightarrow>
        ssmt_root S t = ssmt_root S t'"
    and ssmt_root_canonical: "list_all (\<lambda>x. x < 0xFFFFFFFF00000001) (elements (ssmt_root S t))"

section \<open>Slot types\<close>

definition MAX_VALUE_ARITY :: u8 where
  "MAX_VALUE_ARITY = 255 - 1"

definition MIN_ARRAY_DEPTH :: u8 where
  "MIN_ARRAY_DEPTH = 2"

definition MAX_ARRAY_DEPTH :: u8 where
  "MAX_ARRAY_DEPTH = 64"

definition DEFAULT_SLOT_TYPE :: storage_slot_type where
  "DEFAULT_SLOT_TYPE = Value 0"

fun slot_type_is_valid :: "storage_slot_type \<Rightarrow> bool" where
  "slot_type_is_valid (Value arity) \<longleftrightarrow> arity \<le> MAX_VALUE_ARITY"
| "slot_type_is_valid (Map arity) \<longleftrightarrow> arity \<le> MAX_VALUE_ARITY"
| "slot_type_is_valid (Array dep arity) \<longleftrightarrow>
     arity < MAX_VALUE_ARITY \<and> dep \<ge> MIN_ARRAY_DEPTH \<and> dep \<le> MAX_ARRAY_DEPTH"

fun slot_type_is_default :: "storage_slot_type \<Rightarrow> bool" where
  "slot_type_is_default (Value arity) \<longleftrightarrow> arity = 0"
| "slot_type_is_default _ \<longleftrightarrow> False"

definition slot_type_try_from :: "u16 \<Rightarrow> (storage_slot_type, string) result" where
  "slot_type_try_from value =
    (let data_type = (ucast value :: u8);
         arity = (ucast (drop_bit 8 value) :: u8) in
     if arity > MAX_VALUE_ARITY then Err ''Invalid value arity''
     else if data_type = 0 then Ok (Value arity)
     else if data_type = 1 then Ok (Map arity)
     else if 2 \<le> data_type \<and> data_type \<le> MAX_ARRAY_DEPTH then Ok (Array data_type arity)
     else Err ''invalid slot data type'')"

fun slot_type_to_u16 :: "storage_slot_type \<Rightarrow> u16" where
  "slot_type_to_u16 (Value arity) = push_bit 8 (ucast arity)"
| "slot_type_to_u16 (Map arity) = push_bit 8 (ucast arity) OR 1"
| "slot_type_to_u16 (Array dep arity) = push_bit 8 (ucast arity) OR ucast dep"

fun slot_type_to_felt :: "prims \<Rightarrow> storage_slot_type \<Rightarrow> felt" where
  "slot_type_to_felt P (Value arity) = felt_new P (push_bit 32 (ucast arity))"
| "slot_type_to_felt P (Map arity) = felt_new P (push_bit 32 (ucast arity) OR 1)"
| "slot_type_to_felt P (Array dep arity) = felt_new P (push_bit 32 (ucast arity) OR ucast dep)"

section \<open>Account storage\<close>

record storage_slot =
  slot_type :: storage_slot_type
  slot_value :: word4

record slot_item =
  item_index :: u8
  item_slot :: storage_slot

definition storage_slot_new_value :: "word4 \<Rightarrow> storage_slot" where
  "storage_slot_new_value v = \<lparr> slot_type = Value 0, slot_value = v \<rparr>"

definition storage_slot_new_map :: "word4 \<Rightarrow> storage_slot" where
  "storage_slot_new_map root = \<lparr> slot_type = Map 0, slot_value = root \<rparr>"

definition storage_slot_new_array :: "word4 \<Rightarrow> u8 \<Rightarrow> storage_slot" where
  "storage_slot_new_array root log_n = \<lparr> slot_type = Array log_n 0, slot_value = root \<rparr>"

record 's account_storage =
  slots :: 's
  layout :: "storage_slot_type list"

definition SLOT_LAYOUT_COMMITMENT_INDEX :: u8 where
  "SLOT_LAYOUT_COMMITMENT_INDEX = 255"

definition NUM_STORAGE_SLOTS :: nat where
  "NUM_STORAGE_SLOTS = 256"

definition initial_layout :: "storage_slot_type list" where
  "initial_layout = (replicate NUM_STORAGE_SLOTS DEFAULT_SLOT_TYPE)
     [unat SLOT_LAYOUT_COMMITMENT_INDEX := Value 64]"

definition layout_hash :: "prims \<Rightarrow> storage_slot_type list \<Rightarrow> digest" where
  "layout_hash P l = hash_elements P (map (slot_type_to_felt P) l)"

definition storage_new ::
    "prims \<Rightarrow> 's simple_smt_ops \<Rightarrow> slot_item list \<Rightarrow> ('s account_storage, account_error) result" where
  "storage_new P S items =
     and_then (try_map (\<lambda>it.
         if item_index it = SLOT_LAYOUT_COMMITMENT_INDEX then Err (StorageSlotIsReserved (item_index it))
         else Ok (ucast (item_index it) :: u64, slot_value (item_slot it))) items) (\<lambda>entries.
     let l = fold (\<lambda>it l. l[unat (item_index it) := slot_type (item_slot it)]) items initial_layout;
         entries' = entries @ [(ucast SLOT_LAYOUT_COMMITMENT_INDEX, layout_hash P l)] in
     and_then (map_err DuplicateStorageItems (ssmt_with_leaves S entries')) (\<lambda>t.
       Ok \<lparr> slots = t, layout = l \<rparr>))"

definition storage_root :: "'s simple_smt_ops \<Rightarrow> 's account_storage \<Rightarrow> digest" where
  "storage_root S st = ssmt_root S (slots st)"

definition get_item :: "'s simple_smt_ops \<Rightarrow> 's account_storage \<Rightarrow> u8 \<Rightarrow> (digest, unit) result" where
  "get_item S st index = expect ''index is u8 - index within range'' (ssmt_get S (slots st) (ucast index))"

definition layout_commitment :: "prims \<Rightarrow> 's account_storage \<Rightarrow> digest" where
  "layout_commitment P st = layout_hash P (layout st)"

definition set_item ::
    "'s simple_smt_ops \<Rightarrow> 's account_storage \<Rightarrow> u8 \<Rightarrow> word4
       \<Rightarrow> 's account_storage \<times> (word4, account_error) result" where
  "set_item S st index value =
    (if index = SLOT_LAYOUT_COMMITMENT_INDEX then (st, Err (StorageSlotIsReserved index))
     else if length (layout st) \<le> unat index then (st, Panic ''index out of bounds'')
     else case layout st ! unat index of
       Value arity \<Rightarrow>
         if arity > 0 then (st, Err (StorageSlotInvalidValueArity index 0 arity))
         else (case ssmt_insert S (slots st) (ucast index) value of
             Ok (t, old) \<Rightarrow> (st\<lparr> slots := t \<rparr>, Ok old)
           | Err e \<Rightarrow> (st, Panic ''index is u8 - index within range'')
           | Panic m \<Rightarrow> (st, Panic m))
     | ty \<Rightarrow> (st, Err (StorageSlotNotValueSlot index ty)))"

definition storage_apply_delta ::
    "'s simple_smt_ops \<Rightarrow> 's account_storage \<Rightarrow> storage_delta
       \<Rightarrow> 's account_storage \<times> (unit, account_error) result" where
  "storage_apply_delta S st delta =
    (case try_for (\<lambda>st slot_idx. set_item S st slot_idx EMPTY_WORD) st (cleared_items delta) of
       (st', Ok _) \<Rightarrow> try_for (\<lambda>st (slot_idx, v). set_item S st slot_idx v) st' (updated_items delta)
     | (st', Err e) \<Rightarrow> (st', Err e)
     | (st', Panic m) \<Rightarrow> (st', Panic m))"

definition complex_types :: "'s account_storage \<Rightarrow> (nat \<times> storage_slot_type) list" where
  "complex_types st = filter (\<lambda>x. \<not> slot_type_is_default (snd x)) (enumerate 0 (take 255 (layout st)))"

definition filled_slots :: "'s simple_smt_ops \<Rightarrow> 's account_storage \<Rightarrow> (u64 \<times> word4) list" where
  "filled_slots S st = filter (\<lambda>x. snd x \<noteq> EMPTY_WORD \<and> ucast (fst x) \<noteq> SLOT_LAYOUT_COMMITMENT_INDEX)
     (ssmt_leaves S (slots st))"

definition write_storage :: "prims \<Rightarrow> 's simple_smt_ops \<Rightarrow> 's account_storage \<Rightarrow> u8 list" where
  "write_storage P S st =
     put_u8 P (of_nat (length (complex_types st)))
     @ write_many (\<lambda>(idx, ty). put_u8 P (of_nat idx) @ put_u16 P (slot_type_to_u16 ty)) (complex_types st)
     @ put_u8 P (of_nat (length (filled_slots S st)))
     @ write_many (\<lambda>(idx, v). put_u8 P (ucast idx) @ put_word P v) (filled_slots S st)"

text \<open>
  The reader keeps the slot types it has read in a map and removes the entry of every slot
  whose value it reads.
\<close>

fun read_complex ::
    "prims \<Rightarrow> nat \<Rightarrow> (u8 \<rightharpoonup> storage_slot_type) \<Rightarrow> (u8 \<rightharpoonup> storage_slot_type, deserialization_error) reader" where
  "read_complex P 0 m bs = Ok (m, bs)"
| "read_complex P (Suc n) m bs =
     and_then (get_u8 P bs) (\<lambda>(idx, bs1).
     and_then (get_u16 P bs1) (\<lambda>(raw, bs2).
     and_then (map_err InvalidValue (slot_type_try_from raw)) (\<lambda>ty.
       read_complex P n (m(idx \<mapsto> ty)) bs2)))"

fun read_items ::
    "prims \<Rightarrow> nat \<Rightarrow> (u8 \<rightharpoonup> storage_slot_type) \<Rightarrow> slot_item list \<Rightarrow> (slot_item list, deserialization_error) reader" where
  "read_items P 0 m items bs = Ok (items, bs)"
| "read_items P (Suc n) m items bs =
     and_then (get_u8 P bs) (\<lambda>(index, bs1).
     and_then (get_word P bs1) (\<lambda>(v, bs2).
       let ty = (case m index of None \<Rightarrow> DEFAULT_SLOT_TYPE | Some ty \<Rightarrow> ty) in
       read_items P n (m(index := None))
         (items @ [\<lparr> item_index = index, item_slot = \<lparr> slot_type = ty, slot_value = v \<rparr> \<rparr>]) bs2))"

definition read_storage :: "prims \<Rightarrow> 's simple_smt_ops \<Rightarrow> ('s account_storage, deserialization_error) reader" where
  "read_storage P S bs =
     and_then (get_u8 P bs) (\<lambda>(num_complex, bs1).
     and_then (read_complex P (unat num_complex) (\<lambda>_. None) bs1) (\<lambda>(m, bs2).
     and_then (get_u8 P bs2) (\<lambda>(num_filled, bs3).
     and_then (read_items P (unat num_filled) m [] bs3) (\<lambda>(items, bs4).
     and_then (map_err (\<lambda>e. InvalidValue (show_account_error P e)) (storage_new P S items)) (\<lambda>st.
       Ok (st, bs4))))))"

section \<open>Slot type encoding\<close>

text \<open>The slot types that have an encoding of their own.\<close>

fun slot_type_ok :: "storage_slot_type \<Rightarrow> bool" where
  "slot_type_ok (Value arity) \<longleftrightarrow> arity \<le> MAX_VALUE_ARITY"
| "slot_type_ok (Map arity) \<longleftrightarrow> arity \<le> MAX_VALUE_ARITY"
| "slot_type_ok (Array dep arity) \<longleftrightarrow> arity \<le> MAX_VALUE_ARITY \<and> 2 \<le> dep \<and> dep \<le> MAX_ARRAY_DEPTH"

lemma slot_type_is_valid_ok: "slot_type_is_valid ty \<Longrightarrow> slot_type_ok ty"
  by (cases ty) (auto simp: MIN_ARRAY_DEPTH_def)

fun slot_data_type :: "storage_slot_type \<Rightarrow> u8" where
  "slot_data_type (Value arity) = 0"
| "slot_data_type (Map arity) = 1"
| "slot_data_type (Array dep arity) = dep"

lemma slot_type_to_u16_pair:
  "slot_type_to_u16 ty = push_bit 8 (ucast (value_arity ty)) OR ucast (slot_data_type ty)"
  by (cases ty) simp_all

lemma slot_type_round_trip:
  assumes "slot_type_ok ty"
  shows "slot_type_try_from (slot_type_to_u16 ty) = Ok ty"
proof -
  have "dep \<noteq> 0" "dep \<noteq> 1" if "2 \<le> dep" for dep :: u8
    using that by (auto simp: word_le_nat_alt)
  then show ?thesis
    using assms unfolding slot_type_try_from_def slot_type_to_u16_pair u8_of_u16_pair u8_of_u16_pair_high
    by (cases ty) (auto simp: Let_def)
qed

lemma slot_type_try_from_canonical:
  "slot_type_try_from v = Ok ty \<Longrightarrow> slot_type_ok ty \<and> slot_type_to_u16 ty = v"
  using u16_pair [of v]
  by (auto simp: slot_type_try_from_def Let_def slot_type_to_u16_pair split: if_splits)

section \<open>The storage invariant\<close>

definition slots_abs :: "'s simple_smt_ops \<Rightarrow> 's account_storage \<Rightarrow> u8 \<Rightarrow> word4" where
  "slots_abs S st i = (case ssmt_get S (slots st) (ucast i) of Ok w \<Rightarrow> w)"

definition storage_inv :: "prims \<Rightarrow> 's simple_smt_ops \<Rightarrow> 's account_storage \<Rightarrow> bool" where
  "storage_inv P S st \<longleftrightarrow>
     length (layout st) = 256 \<and> layout st ! 255 = Value 64 \<and> list_all slot_type_ok (layout st) \<and>
     slots_abs S st 255 = layout_hash P (layout st) \<and> (\<forall>i. word_ok P (slots_abs S st i))"

definition slot_mutable :: "'s account_storage \<Rightarrow> u8 \<Rightarrow> bool" where
  "slot_mutable st i \<longleftrightarrow> i \<noteq> 255 \<and> unat i < length (layout st) \<and> layout st ! unat i = Value 0"

fun write_slots :: "(u8 \<times> word4) list \<Rightarrow> (u8 \<Rightarrow> word4) \<Rightarrow> u8 \<Rightarrow> word4" where
  "write_slots [] f = f"
| "write_slots ((i, v) # xs) f = write_slots xs (f(i := v))"

definition delta_slots :: "storage_delta \<Rightarrow> (u8 \<Rightarrow> word4) \<Rightarrow> u8 \<Rightarrow> word4" where
  "delta_slots dl f = (\<lambda>i. case map_of (updated_items dl) i of
     Some v \<Rightarrow> v | None \<Rightarrow> if i \<in> set (cleared_items dl) then EMPTY_WORD else f i)"

locale storage_spec = felt_spec P + hash_spec P + simple_smt_spec S 8
  for P :: prims and S :: "'s simple_smt_ops"
begin

lemma ssmt_get_slot: "ssmt_get S (slots st) (ucast i) = Ok (slots_abs S st i)"
  using ssmt_get_ok [of "ucast i" "slots st"] unat_u8_less [of i] by (auto simp: slots_abs_def)

lemma storage_root_ext: "slots_abs S st = slots_abs S st' \<Longrightarrow> storage_root S st = storage_root S st'"
  unfolding storage_root_def
proof (rule ssmt_root_ext)
  fix j :: u64 assume eq: "slots_abs S st = slots_abs S st'" and "unat j < 2 ^ 8"
  then have "ucast (ucast j :: u8) = j" by (simp add: u64_u8_u64)
  with eq ssmt_get_slot [of st "ucast j"] ssmt_get_slot [of st' "ucast j"]
  show "ssmt_get S (slots st) j = ssmt_get S (slots st') j" by simp
qed

lemma set_item_immutable:
  assumes "\<not> slot_mutable st i" "length (layout st) = 256"
  shows "\<exists>e. set_item S st i v = (st, Err e)"
  using assms unat_u8_less [of i] by (auto simp: set_item_def slot_mutable_def SLOT_LAYOUT_COMMITMENT_INDEX_def
      word_neq_0_conv split: storage_slot_type.splits)

lemma set_item_mutable:
  assumes "slot_mutable st i"
  obtains st' where "set_item S st i v = (st', Ok (slots_abs S st i))"
    "layout st' = layout st" "slots_abs S st' = (slots_abs S st)(i := v)"
proof -
  obtain t old where ins: "ssmt_insert S (slots st) (ucast i) v = Ok (t, old)"
    "ssmt_get S (slots st) (ucast i) = Ok old"
    "\<forall>j. unat j < 2 ^ 8 \<longrightarrow> ssmt_get S t j = (if j = ucast i then Ok v else ssmt_get S (slots st) j)"
    using ssmt_insert_ok [of "ucast i" "slots st" v] unat_u8_less [of i] by auto
  have "slots_abs S (st\<lparr> slots := t \<rparr>) k = (if k = i then v else slots_abs S st k)" for k
    using ins(3) unat_u8_less [of k] by (simp add: slots_abs_def)
  then have "slots_abs S (st\<lparr> slots := t \<rparr>) = (slots_abs S st)(i := v)" by auto
  moreover have "set_item S st i v = (st\<lparr> slots := t \<rparr>, Ok (slots_abs S st i))"
    using assms ins(1,2) ssmt_get_slot [of st i]
    by (simp add: set_item_def slot_mutable_def SLOT_LAYOUT_COMMITMENT_INDEX_def)
  ultimately show thesis using that by simp
qed

lemma set_item_inv:
  assumes "storage_inv P S st" "word_ok P v" "set_item S st i v = (st', r)"
  shows "storage_inv P S st'"
proof (cases "slot_mutable st i")
  case True
  then obtain st'' where st'': "set_item S st i v = (st'', Ok (slots_abs S st i))"
    "layout st'' = layout st" "slots_abs S st'' = (slots_abs S st)(i := v)"
    by (rule set_item_mutable)
  with assms True show ?thesis by (auto simp: storage_inv_def slot_mutable_def)
next
  case False
  moreover have "length (layout st) = 256" using assms(1) by (simp add: storage_inv_def)
  ultimately show ?thesis using set_item_immutable [of st i v] assms(1,3) by auto
qed

lemma set_items_ok:
  assumes "list_all (\<lambda>x. slot_mutable st (fst x)) xs"
  obtains st' where "try_for (\<lambda>st (i, v). set_item S st i v) st xs = (st', Ok ())"
    "layout st' = layout st" "slots_abs S st' = write_slots xs (slots_abs S st)"
proof -
  have "list_all (\<lambda>x. slot_mutable st (fst x)) xs \<Longrightarrow>
    \<exists>st'. try_for (\<lambda>st (i, v). set_item S st i v) st xs = (st', Ok ()) \<and>
      layout st' = layout st \<and> slots_abs S st' = write_slots xs (slots_abs S st)" for st
  proof (induction xs arbitrary: st)
    case (Cons x xs)
    obtain i v where x: "x = (i, v)" by fastforce
    with Cons.prems have "slot_mutable st i" by simp
    then obtain st1 where st1: "set_item S st i v = (st1, Ok (slots_abs S st i))"
      "layout st1 = layout st" "slots_abs S st1 = (slots_abs S st)(i := v)" by (rule set_item_mutable)
    have "list_all (\<lambda>x. slot_mutable st1 (fst x)) xs"
      using Cons.prems st1(2) by (simp add: slot_mutable_def)
    from Cons.IH [OF this] obtain st' where "try_for (\<lambda>st (i, v). set_item S st i v) st1 xs = (st', Ok ())"
      "layout st' = layout st1" "slots_abs S st' = write_slots xs (slots_abs S st1)"
      by blast
    with st1 x show ?case by simp
  qed simp
  with assms show thesis using that by blast
qed

lemma cleared_as_updates:
  "try_for (\<lambda>st i. set_item S st i EMPTY_WORD) st is
     = try_for (\<lambda>st (i, v). set_item S st i v) st (map (\<lambda>i. (i, EMPTY_WORD)) is)"
  by (induction "is" arbitrary: st) (auto split: prod.splits result.splits)

lemma fold_updates_distinct:
  "distinct (map fst xs) \<Longrightarrow>
   write_slots xs f = (\<lambda>i. case map_of xs i of None \<Rightarrow> f i | Some v \<Rightarrow> v)"
proof (induction xs arbitrary: f)
  case (Cons x xs)
  obtain i v where "x = (i, v)" by fastforce
  moreover have "map_of xs i = None" using Cons.prems \<open>x = (i, v)\<close> by (simp add: map_of_eq_None_iff)
  ultimately show ?case using Cons by (auto simp: fun_eq_iff split: option.splits)
qed auto

lemma storage_apply_delta_ok:
  assumes mut: "\<And>i. i \<in> set (cleared_items dl) \<union> fst ` set (updated_items dl) \<Longrightarrow> slot_mutable st i"
    and "storage_delta_valid dl"
  obtains st' where "storage_apply_delta S st dl = (st', Ok ())" "layout st' = layout st"
    "slots_abs S st' = (\<lambda>i. case map_of (updated_items dl) i of
       Some v \<Rightarrow> v | None \<Rightarrow> if i \<in> set (cleared_items dl) then EMPTY_WORD else slots_abs S st i)"
proof -
  let ?cl = "map (\<lambda>i. (i, EMPTY_WORD)) (cleared_items dl)"
  have d: "distinct (map fst ?cl)" "distinct (map fst (updated_items dl))"
    using assms(2) by (auto simp: storage_delta_valid_def comp_def)
  have cl: "list_all (\<lambda>x. slot_mutable st (fst x)) ?cl" using mut by (auto simp: list_all_iff)
  obtain st1 where st1: "try_for (\<lambda>st (i, v). set_item S st i v) st ?cl = (st1, Ok ())"
    "layout st1 = layout st" "slots_abs S st1 = write_slots ?cl (slots_abs S st)"
    using set_items_ok [OF cl] by blast
  have up: "list_all (\<lambda>x. slot_mutable st1 (fst x)) (updated_items dl)"
    using mut st1(2) by (auto simp: list_all_iff slot_mutable_def)
  obtain st2 where st2: "try_for (\<lambda>st (i, v). set_item S st i v) st1 (updated_items dl) = (st2, Ok ())"
    "layout st2 = layout st1" "slots_abs S st2 = write_slots (updated_items dl) (slots_abs S st1)"
    using set_items_ok [OF up] by blast
  have "slots_abs S st1 = (\<lambda>i. if i \<in> set (cleared_items dl) then EMPTY_WORD else slots_abs S st i)"
    unfolding st1(3) fold_updates_distinct [OF d(1)]
    by (auto simp: fun_eq_iff map_of_eq_None_iff image_image split: option.splits
        dest!: map_of_SomeD)
  then show thesis
    using that [of st2] st1 st2 fold_updates_distinct [OF d(2)]
    by (simp add: storage_apply_delta_def cleared_as_updates)
qed

lemma set_items_Err:
  "length (layout st) = 256 \<Longrightarrow> \<not> list_all (\<lambda>x. slot_mutable st (fst x)) xs \<Longrightarrow>
   \<exists>st' e. try_for (\<lambda>st (i, v). set_item S st i v) st xs = (st', Err e) \<and> layout st' = layout st"
proof (induction xs arbitrary: st)
  case (Cons x xs)
  obtain i v where x: "x = (i, v)" by fastforce
  show ?case
  proof (cases "slot_mutable st i")
    case True
    then obtain st1 where st1: "set_item S st i v = (st1, Ok (slots_abs S st i))" "layout st1 = layout st"
      by (rule set_item_mutable)
    moreover have "\<not> list_all (\<lambda>x. slot_mutable st1 (fst x)) xs"
      using Cons.prems True x st1(2) by (simp add: slot_mutable_def)
    ultimately show ?thesis using Cons.IH [of st1] Cons.prems(1) x by simp
  next
    case False
    with set_item_immutable [OF False Cons.prems(1), of v] x show ?thesis by auto
  qed
qed simp

lemma storage_apply_delta_cases:
  assumes "length (layout st) = 256" "storage_delta_valid dl"
  shows "if list_all (slot_mutable st) (cleared_items dl @ map fst (updated_items dl))
    then \<exists>st'. storage_apply_delta S st dl = (st', Ok ()) \<and> layout st' = layout st \<and>
      slots_abs S st' = delta_slots dl (slots_abs S st)
    else \<exists>st' e. storage_apply_delta S st dl = (st', Err e)"
proof (cases "list_all (slot_mutable st) (cleared_items dl @ map fst (updated_items dl))")
  case True
  have mut: "slot_mutable st i" if "i \<in> set (cleared_items dl) \<union> fst ` set (updated_items dl)" for i
    using True that by (auto simp: list_all_iff)
  show ?thesis
    using storage_apply_delta_ok [OF mut assms(2)] True unfolding delta_slots_def by auto
next
  case False
  let ?cl = "map (\<lambda>i. (i, EMPTY_WORD)) (cleared_items dl)"
  show ?thesis
  proof (cases "list_all (slot_mutable st) (cleared_items dl)")
    case True
    then have "list_all (\<lambda>x. slot_mutable st (fst x)) ?cl" by (simp add: list_all_iff)
    then obtain st1 where st1: "try_for (\<lambda>st (i, v). set_item S st i v) st ?cl = (st1, Ok ())" "layout st1 = layout st"
      by (rule set_items_ok)
    then have "length (layout st1) = 256" "\<not> list_all (\<lambda>x. slot_mutable st1 (fst x)) (updated_items dl)"
      using assms(1) False True by (auto simp: list_all_iff slot_mutable_def)
    from set_items_Err [OF this] st1 False show ?thesis
      by (auto simp: storage_apply_delta_def cleared_as_updates)
  next
    case c: False
    then have "\<not> list_all (\<lambda>x. slot_mutable st (fst x)) ?cl" by (auto simp: list_all_iff)
    from set_items_Err [OF assms(1) this] False show ?thesis
      by (auto simp: storage_apply_delta_def cleared_as_updates)
  qed
qed

lemma storage_apply_delta_inv:
  assumes "storage_inv P S st" "list_all (\<lambda>x. word_ok P (snd x)) (updated_items dl)"
    "storage_apply_delta S st dl = (st', r)"
  shows "storage_inv P S st'"
proof -
  have loop: "storage_inv P S st'"
    if "storage_inv P S st" "list_all (\<lambda>x. word_ok P (snd x)) xs"
      "try_for (\<lambda>st (i, v). set_item S st i v) st xs = (st', r)" for st st' r xs
    using that
  proof (induction xs arbitrary: st)
    case (Cons x xs)
    obtain i v where x: "x = (i, v)" by fastforce
    obtain st1 r1 where "set_item S st i v = (st1, r1)" by fastforce
    moreover from this have "storage_inv P S st1" using set_item_inv Cons.prems x by auto
    ultimately show ?case using Cons x by (cases r1) auto
  qed simp
  obtain st1 r1 where st1: "try_for (\<lambda>st i. set_item S st i EMPTY_WORD) st (cleared_items dl) = (st1, r1)"
    by fastforce
  have "storage_inv P S st1"
    by (rule loop [OF assms(1)]) (use st1 word_ok_EMPTY_WORD in \<open>auto simp: cleared_as_updates list_all_iff\<close>)
  then show ?thesis
    using assms(2,3) st1 loop by (cases r1) (auto simp: storage_apply_delta_def)
qed

end

section \<open>Construction\<close>

definition item_types :: "slot_item list \<Rightarrow> (u8 \<times> storage_slot_type) list" where
  "item_types items = map (\<lambda>it. (item_index it, slot_type (item_slot it))) items"

definition item_values :: "slot_item list \<Rightarrow> (u8 \<times> word4) list" where
  "item_values items = map (\<lambda>it. (item_index it, slot_value (item_slot it))) items"

definition items_layout :: "slot_item list \<Rightarrow> storage_slot_type list \<Rightarrow> storage_slot_type list" where
  "items_layout items l = fold (\<lambda>it l. l[unat (item_index it) := slot_type (item_slot it)]) items l"

lemma length_items_layout [simp]: "length (items_layout items l) = length l"
  unfolding items_layout_def by (induction items arbitrary: l) simp_all

lemma items_layout_nth:
  "distinct (map item_index items) \<Longrightarrow> length l = 256 \<Longrightarrow>
   items_layout items l ! unat i = (case map_of (item_types items) i of None \<Rightarrow> l ! unat i | Some ty \<Rightarrow> ty)"
proof (induction items arbitrary: l)
  case (Cons it items)
  have *: "map_of (item_types items) (item_index it) = None"
    using Cons.prems(1) by (auto simp: item_types_def map_of_eq_None_iff)
  have "items_layout (it # items) l = items_layout items (l[unat (item_index it) := slot_type (item_slot it)])"
    by (simp add: items_layout_def)
  with Cons * unat_u8_less [of i] show ?case
    by (auto simp: item_types_def nth_list_update split: option.splits simp flip: word_unat_eq_iff)
qed (simp add: items_layout_def item_types_def)

lemma length_initial_layout [simp]: "length initial_layout = 256"
  by (simp add: initial_layout_def NUM_STORAGE_SLOTS_def)

lemma initial_layout_nth: "initial_layout ! unat i = (if i = 255 then Value 64 else Value 0)" for i :: u8
  using unat_u8_less [of i]
  by (auto simp: initial_layout_def NUM_STORAGE_SLOTS_def SLOT_LAYOUT_COMMITMENT_INDEX_def DEFAULT_SLOT_TYPE_def
      nth_list_update word_unat_eq_iff)

lemma storage_new_entries:
  "255 \<notin> item_index ` set items \<Longrightarrow>
   try_map (\<lambda>it.
     if item_index it = SLOT_LAYOUT_COMMITMENT_INDEX then Err (StorageSlotIsReserved (item_index it))
     else Ok (ucast (item_index it) :: u64, slot_value (item_slot it))) items
     = Ok (map (\<lambda>it. (ucast (item_index it), slot_value (item_slot it))) items)"
  by (induction items) (auto simp: SLOT_LAYOUT_COMMITMENT_INDEX_def)

lemma leaf_lookup_items:
  "leaf_lookup (map (\<lambda>it. (ucast (item_index it), slot_value (item_slot it))) items @ [(ucast (255 :: u8), h)]) (ucast i)
     = (case map_of (item_values items) i of Some v \<Rightarrow> v | None \<Rightarrow> if i = 255 then h else EMPTY_WORD)"
  using u8_u64_inject [of i 255] by (induction items) (auto simp: item_values_def split: option.splits)

context storage_spec
begin

lemma storage_new_ok:
  assumes "distinct (map item_index items)" "255 \<notin> item_index ` set items"
  obtains st where "storage_new P S items = Ok st" "length (layout st) = 256"
    "\<And>i. layout st ! unat i = (case map_of (item_types items) i of Some ty \<Rightarrow> ty
        | None \<Rightarrow> if i = 255 then Value 64 else Value 0)"
    "\<And>i. slots_abs S st i = (case map_of (item_values items) i of Some v \<Rightarrow> v
        | None \<Rightarrow> if i = 255 then layout_hash P (layout st) else EMPTY_WORD)"
proof -
  let ?l = "items_layout items initial_layout"
  let ?es = "map (\<lambda>it. (ucast (item_index it) :: u64, slot_value (item_slot it))) items
    @ [(ucast (255 :: u8), layout_hash P ?l)]"
  have "inj_on (ucast :: u8 \<Rightarrow> u64) A" for A by (rule inj_onI) simp
  then have "distinct (map (ucast :: u8 \<Rightarrow> u64) (map item_index items))"
    using assms(1) by (simp add: distinct_map comp_inj_on_iff [symmetric])
  then have "distinct (map fst ?es)"
    using assms(2) by (auto simp: comp_def u8_u64_inject [of _ 255, simplified] dest: u8_u64_inject [THEN iffD1])
  moreover have "list_all (\<lambda>e. unat (fst e) < 2 ^ 8) ?es"
    using unat_u8_less by (auto simp: list_all_iff)
  ultimately obtain t where t: "ssmt_with_leaves S ?es = Ok t"
    "\<forall>i. unat i < 2 ^ 8 \<longrightarrow> ssmt_get S t i = Ok (leaf_lookup ?es i)"
    using ssmt_with_leaves_ok by blast
  let ?st = "\<lparr> slots = t, layout = ?l \<rparr>"
  have "storage_new P S items = Ok ?st"
    using t(1) unfolding storage_new_def storage_new_entries [OF assms(2)] items_layout_def [symmetric] Let_def
    by (simp add: SLOT_LAYOUT_COMMITMENT_INDEX_def)
  moreover have "slots_abs S ?st i = leaf_lookup ?es (ucast i)" for i
    using t(2) unat_u8_less [of i] by (simp add: slots_abs_def del: leaf_lookup.simps)
  then have "slots_abs S ?st i = (case map_of (item_values items) i of Some v \<Rightarrow> v
      | None \<Rightarrow> if i = 255 then layout_hash P (layout ?st) else EMPTY_WORD)" for i
    unfolding leaf_lookup_items by (simp split: option.split)
  ultimately show thesis
    by (intro that [of ?st]) (simp_all add: items_layout_nth [OF assms(1)] initial_layout_nth
        initial_layout_nth [of 255, simplified] split: option.split)
qed

lemma storage_new_reserved:
  assumes "255 \<in> item_index ` set items"
  shows "storage_new P S items = Err (StorageSlotIsReserved 255)"
proof -
  have "try_map (\<lambda>it.
     if item_index it = SLOT_LAYOUT_COMMITMENT_INDEX then Err (StorageSlotIsReserved (item_index it))
     else Ok (ucast (item_index it) :: u64, slot_value (item_slot it))) items = Err (StorageSlotIsReserved 255)"
    using assms by (induction items) (auto simp: SLOT_LAYOUT_COMMITMENT_INDEX_def)
  then show ?thesis by (simp add: storage_new_def)
qed

lemma storage_new_duplicate:
  assumes "255 \<notin> item_index ` set items" "\<not> distinct (map item_index items)"
  shows "\<exists>e. storage_new P S items = Err (DuplicateStorageItems e)"
proof -
  let ?l = "items_layout items initial_layout"
  have "\<not> distinct (map fst (map (\<lambda>it. (ucast (item_index it) :: u64, slot_value (item_slot it))) items
      @ [(ucast SLOT_LAYOUT_COMMITMENT_INDEX, layout_hash P ?l)]))"
  proof
    assume "distinct (map fst (map (\<lambda>it. (ucast (item_index it) :: u64, slot_value (item_slot it))) items
      @ [(ucast SLOT_LAYOUT_COMMITMENT_INDEX, layout_hash P ?l)]))"
    then have "distinct (map (ucast :: u8 \<Rightarrow> u64) (map item_index items))" by (simp add: comp_def)
    with assms(2) show False by (metis distinct_map)
  qed
  from ssmt_with_leaves_dup [OF this] show ?thesis
    unfolding storage_new_def storage_new_entries [OF assms(1)] items_layout_def [symmetric] Let_def by auto
qed

lemma storage_new_inv:
  assumes "storage_new P S items = Ok st"
    "list_all (\<lambda>it. slot_type_ok (slot_type (item_slot it)) \<and> word_ok P (slot_value (item_slot it))) items"
  shows "storage_inv P S st"
proof -
  have no255: "255 \<notin> item_index ` set items" using assms(1) storage_new_reserved by force
  moreover have "distinct (map item_index items)"
    using storage_new_duplicate [OF no255] assms(1) by auto
  ultimately obtain st' where st': "storage_new P S items = Ok st'" "length (layout st') = 256"
    "\<And>i. layout st' ! unat i = (case map_of (item_types items) i of Some ty \<Rightarrow> ty
        | None \<Rightarrow> if i = 255 then Value 64 else Value 0)"
    "\<And>i. slots_abs S st' i = (case map_of (item_values items) i of Some v \<Rightarrow> v
        | None \<Rightarrow> if i = 255 then layout_hash P (layout st') else EMPTY_WORD)"
    by (metis storage_new_ok)
  have none: "map_of (item_types items) 255 = None" "map_of (item_values items) 255 = None"
    using no255 by (auto simp: item_types_def item_values_def map_of_eq_None_iff image_image)
  have "slot_type_ok (layout st' ! k)" if "k < 256" for k
  proof -
    have "slot_type_ok (layout st' ! unat (of_nat k :: u8))"
      unfolding st'(3) using assms(2)
      by (auto simp: item_types_def MAX_VALUE_ARITY_def list_all_iff split: option.splits dest!: map_of_SomeD)
    moreover have "unat (of_nat k :: u8) = k" using that by (simp add: unat_of_nat)
    ultimately show ?thesis by simp
  qed
  moreover have "word_ok P (slots_abs S st' i)" for i
    unfolding st'(4) using assms(2)
    by (auto simp: item_values_def layout_hash_def hash_elements_ok felt_ok_zero list_all_iff
        split: option.splits dest!: map_of_SomeD)
  moreover have "layout st' ! 255 = Value 64" using st'(3) [of 255] none by simp
  ultimately show ?thesis
    using st'(1,2) assms(1) st'(4) [of 255] none by (simp add: storage_inv_def list_all_length)
qed

end

section \<open>Serialization\<close>

lemma complex_types_set:
  "(k, ty) \<in> set (complex_types st) \<longleftrightarrow>
     k < 255 \<and> k < length (layout st) \<and> ty = layout st ! k \<and> \<not> slot_type_is_default ty"
  by (auto simp: complex_types_def in_set_enumerate_eq)

lemma complex_types_distinct: "distinct (map fst (complex_types st))"
  unfolding complex_types_def by (rule distinct_map_filter) simp

lemma complex_types_length: "length (complex_types st) \<le> 255"
  unfolding complex_types_def by (rule order_trans [OF length_filter_le]) simp

context io_spec
begin

lemma read_complex_write:
  "list_all (\<lambda>x. slot_type_ok (snd x)) xs \<Longrightarrow>
   read_complex P (length xs) m (write_many (\<lambda>(idx, ty). put_u8 P (of_nat idx) @ put_u16 P (slot_type_to_u16 ty)) xs @ bs)
     = Ok (m ++ map_of (rev (map (\<lambda>(idx, ty). (of_nat idx, ty)) xs)), bs)"
proof (induction xs arbitrary: m)
  case (Cons x xs)
  then show ?case by (cases x) (simp add: get_put_u8 get_put_u16 slot_type_round_trip)
qed simp

lemma read_items_write:
  "distinct (map (\<lambda>x. ucast (fst x) :: u8) xs) \<Longrightarrow> list_all (\<lambda>x. word_ok P (snd x)) xs \<Longrightarrow>
   read_items P (length xs) m items (write_many (\<lambda>(idx, v). put_u8 P (ucast idx) @ put_word P v) xs @ bs)
     = Ok (items @ map (\<lambda>(idx, v). \<lparr> item_index = ucast idx,
         item_slot = \<lparr> slot_type = (case m (ucast idx) of None \<Rightarrow> DEFAULT_SLOT_TYPE | Some ty \<Rightarrow> ty),
                       slot_value = v \<rparr> \<rparr>) xs, bs)"
proof (induction xs arbitrary: m items)
  case (Cons x xs)
  obtain idx v where x: "x = (idx, v)" by fastforce
  have "map (\<lambda>(j, w). \<lparr> item_index = ucast j,
         item_slot = \<lparr> slot_type = (case (m(ucast idx := None)) (ucast j) of None \<Rightarrow> DEFAULT_SLOT_TYPE | Some ty \<Rightarrow> ty),
                       slot_value = w \<rparr> \<rparr>) xs
      = map (\<lambda>(j, w). \<lparr> item_index = ucast j,
         item_slot = \<lparr> slot_type = (case m (ucast j) of None \<Rightarrow> DEFAULT_SLOT_TYPE | Some ty \<Rightarrow> ty),
                       slot_value = w \<rparr> \<rparr>) xs"
    using Cons.prems(1) x by (intro map_cong) (auto simp: rev_image_eqI)
  with Cons x show ?case by (simp add: get_put_u8 get_put_word Let_def)
qed simp

end

text \<open>The type map the reader has after the slot types: the non-default types.\<close>

lemma complex_types_map:
  assumes "length (layout st) = 256"
  shows "map_of (rev (map (\<lambda>(k, ty). (of_nat k :: u8, ty)) (complex_types st))) i =
    (if i \<noteq> 255 \<and> \<not> slot_type_is_default (layout st ! unat i) then Some (layout st ! unat i) else None)"
proof -
  let ?xs = "map (\<lambda>(k, ty). (of_nat k :: u8, ty)) (complex_types st)"
  have "inj_on (of_nat :: nat \<Rightarrow> u8) {..<256}"
    by (rule inj_onI) (simp add: word_unat_eq_iff unat_of_nat)
  moreover have "set (map fst (complex_types st)) \<subseteq> {..<256}"
    by (auto simp: complex_types_set)
  ultimately have "distinct (map (of_nat :: nat \<Rightarrow> u8) (map fst (complex_types st)))"
    using complex_types_distinct [of st] inj_on_subset by (metis distinct_map)
  then have d: "distinct (map fst ?xs)" by (simp add: comp_def split_beta)
  have "(i, ty) \<in> set ?xs \<longleftrightarrow> i \<noteq> 255 \<and> ty = layout st ! unat i \<and> \<not> slot_type_is_default ty" for ty
  proof
    assume "(i, ty) \<in> set ?xs"
    then obtain k where k: "i = of_nat k" "k < 255" "ty = layout st ! k" "\<not> slot_type_is_default ty"
      by (auto simp: complex_types_set)
    then have "unat i = k" by (simp add: unat_of_nat)
    with k show "i \<noteq> 255 \<and> ty = layout st ! unat i \<and> \<not> slot_type_is_default ty" by auto
  next
    assume *: "i \<noteq> 255 \<and> ty = layout st ! unat i \<and> \<not> slot_type_is_default ty"
    then have "unat i \<noteq> 255" by (auto simp: word_unat_eq_iff)
    with unat_u8_less [of i] have "unat i < 255" by simp
    with * assms have "(unat i, ty) \<in> set (complex_types st)" by (auto simp: complex_types_set)
    then show "(i, ty) \<in> set ?xs" by force
  qed
  then show ?thesis
    using d by (intro map_of_unique) (auto simp: rev_map [symmetric])
qed

text \<open>
  The slots whose type is not the default type must hold a value: the type of an empty slot
  is written but dropped by the reader.
\<close>

definition complex_filled :: "'s simple_smt_ops \<Rightarrow> 's account_storage \<Rightarrow> bool" where
  "complex_filled S st \<longleftrightarrow> (\<forall>i. i \<noteq> 255 \<longrightarrow> slots_abs S st i = EMPTY_WORD \<longrightarrow>
     slot_type_is_default (layout st ! unat i))"

text \<open>The layout after writing and reading back.\<close>

definition kept_layout :: "'s simple_smt_ops \<Rightarrow> 's account_storage \<Rightarrow> storage_slot_type list" where
  "kept_layout S st = map (\<lambda>k. if k \<noteq> 255 \<and> slots_abs S st (of_nat k) = EMPTY_WORD
     then Value 0 else layout st ! k) [0..<256]"

lemma length_kept_layout [simp]: "length (kept_layout S st) = 256"
  by (simp add: kept_layout_def)

lemma kept_layout_nth:
  "kept_layout S st ! unat i = (if i \<noteq> 255 \<and> slots_abs S st i = EMPTY_WORD then Value 0 else layout st ! unat i)"
  using unat_u8_less [of i] by (auto simp: kept_layout_def word_unat_eq_iff)

lemma kept_layout_filled:
  assumes "complex_filled S st" "i \<noteq> 255" "slots_abs S st i = EMPTY_WORD"
  shows "layout st ! unat i = Value 0"
proof -
  have "ty = Value 0" if "slot_type_is_default ty" for ty using that by (cases ty) auto
  with assms show ?thesis by (auto simp: complex_filled_def)
qed

lemma layout_eqI:
  assumes "length l = 256" "length l' = 256" "\<And>i :: u8. l ! unat i = l' ! unat i"
  shows "l = l'"
proof (rule nth_equalityI)
  fix k assume "k < length l"
  then have "unat (of_nat k :: u8) = k" using assms(1) by (simp add: unat_of_nat)
  with assms(3) [of "of_nat k"] show "l ! k = l' ! k" by simp
qed (use assms in simp)

definition read_back_items :: "'s simple_smt_ops \<Rightarrow> 's account_storage \<Rightarrow> slot_item list" where
  "read_back_items S st = map (\<lambda>(j, v). \<lparr> item_index = ucast j,
     item_slot = \<lparr> slot_type = layout st ! unat (ucast j :: u8), slot_value = v \<rparr> \<rparr>) (filled_slots S st)"

locale storage_io_spec = prims_spec P + storage_spec P S for P :: prims and S :: "'s simple_smt_ops"
begin

lemma filled_slots_set:
  "(j, w) \<in> set (filled_slots S st) \<longleftrightarrow>
     (\<exists>i. j = ucast i \<and> i \<noteq> 255 \<and> w = slots_abs S st i \<and> w \<noteq> EMPTY_WORD)"
proof
  assume "(j, w) \<in> set (filled_slots S st)"
  then have j: "(j, w) \<in> set (ssmt_leaves S (slots st))" "w \<noteq> EMPTY_WORD" "(ucast j :: u8) \<noteq> 255"
    by (simp_all add: filled_slots_def SLOT_LAYOUT_COMMITMENT_INDEX_def)
  then have "ucast (ucast j :: u8) = j" "ssmt_get S (slots st) j = Ok w"
    using ssmt_leaves_get by (auto simp: u64_u8_u64)
  then show "\<exists>i. j = ucast i \<and> i \<noteq> 255 \<and> w = slots_abs S st i \<and> w \<noteq> EMPTY_WORD"
    using j by (intro exI [of _ "ucast j"]) (simp add: slots_abs_def)
next
  assume "\<exists>i. j = ucast i \<and> i \<noteq> 255 \<and> w = slots_abs S st i \<and> w \<noteq> EMPTY_WORD"
  then obtain i :: u8 where i: "j = ucast i" "i \<noteq> 255" "w = slots_abs S st i" "w \<noteq> EMPTY_WORD" by blast
  have "(ucast j :: u8) = i" unfolding i(1) by (simp add: u8_u64_u8)
  moreover have "(j, w) \<in> set (ssmt_leaves S (slots st))"
    using i ssmt_get_slot [of st i] unat_u8_less [of i] by (auto intro: ssmt_leaves_all)
  ultimately show "(j, w) \<in> set (filled_slots S st)"
    using i by (simp add: filled_slots_def SLOT_LAYOUT_COMMITMENT_INDEX_def)
qed

lemma filled_slots_distinct: "distinct (map (\<lambda>x. ucast (fst x) :: u8) (filled_slots S st))"
proof -
  have "distinct (map fst (filled_slots S st))"
    unfolding filled_slots_def by (rule distinct_map_filter) (rule ssmt_leaves_distinct)
  moreover have "inj_on (ucast :: u64 \<Rightarrow> u8) (set (map fst (filled_slots S st)))"
    by (rule inj_onI) (auto simp: filled_slots_set u8_u64_u8)
  ultimately have "distinct (map (ucast :: u64 \<Rightarrow> u8) (map fst (filled_slots S st)))"
    by (metis distinct_map)
  then show ?thesis by (simp add: comp_def)
qed

lemma filled_slots_length: "length (filled_slots S st) \<le> 255"
proof -
  let ?is = "map (\<lambda>x. ucast (fst x) :: u8) (filled_slots S st)"
  have "set ?is \<subseteq> UNIV - {255}" by (auto simp: filled_slots_set)
  then have "card (set ?is) \<le> card (UNIV - {255 :: u8})" by (rule card_mono [rotated]) simp
  also have "card (UNIV - {255 :: u8}) = 255" by (simp add: card_Diff_subset card_word)
  finally show ?thesis using distinct_card [OF filled_slots_distinct [of st]] by simp
qed

lemma read_back_items_eq:
  assumes "length (layout st) = 256"
  shows "map (\<lambda>(idx, v). \<lparr> item_index = ucast idx,
      item_slot = \<lparr> slot_type = (case map_of (rev (map (\<lambda>(k, ty). (of_nat k :: u8, ty)) (complex_types st))) (ucast idx) of
          None \<Rightarrow> DEFAULT_SLOT_TYPE | Some ty \<Rightarrow> ty), slot_value = v \<rparr> \<rparr>) (filled_slots S st)
    = read_back_items S st"
proof -
  have "ty = DEFAULT_SLOT_TYPE" if "slot_type_is_default ty" for ty
    using that by (cases ty) (auto simp: DEFAULT_SLOT_TYPE_def)
  then show ?thesis
    unfolding read_back_items_def complex_types_map [OF assms]
    by (intro map_cong refl) (auto simp: filled_slots_set, metis)
qed

lemma read_back_items_set:
  "set (read_back_items S st) = (\<lambda>i. \<lparr> item_index = i,
     item_slot = \<lparr> slot_type = layout st ! unat i, slot_value = slots_abs S st i \<rparr> \<rparr>)
       ` {i. i \<noteq> 255 \<and> slots_abs S st i \<noteq> EMPTY_WORD}"
proof -
  have "set (filled_slots S st) = (\<lambda>i. (ucast i, slots_abs S st i)) ` {i. i \<noteq> 255 \<and> slots_abs S st i \<noteq> EMPTY_WORD}"
    using filled_slots_set [of _ _ st] by (auto simp: image_iff)
  then show ?thesis by (simp add: read_back_items_def image_image)
qed

lemma read_back_storage:
  assumes inv: "storage_inv P S st"
  obtains st' where "storage_new P S (read_back_items S st) = Ok st'" "layout st' = kept_layout S st"
    "\<And>i. i \<noteq> 255 \<Longrightarrow> slots_abs S st' i = slots_abs S st i"
    "slots_abs S st' 255 = layout_hash P (kept_layout S st)"
proof -
  let ?items = "read_back_items S st"
  have idx: "map item_index ?items = map (\<lambda>x. ucast (fst x)) (filled_slots S st)"
    by (simp add: read_back_items_def comp_def split_beta)
  then have d: "distinct (map item_index ?items)" by (simp only: filled_slots_distinct)
  have no255: "255 \<notin> item_index ` set ?items"
    by (auto simp: read_back_items_def filled_slots_set)
  obtain st' where st': "storage_new P S ?items = Ok st'" "length (layout st') = 256"
    "\<And>i. layout st' ! unat i = (case map_of (item_types ?items) i of Some ty \<Rightarrow> ty
        | None \<Rightarrow> if i = 255 then Value 64 else Value 0)"
    "\<And>i. slots_abs S st' i = (case map_of (item_values ?items) i of Some v \<Rightarrow> v
        | None \<Rightarrow> if i = 255 then layout_hash P (layout st') else EMPTY_WORD)"
    using storage_new_ok [OF d no255] by blast
  have fst_eq: "map fst (item_types ?items) = map item_index ?items" "map fst (item_values ?items) = map item_index ?items"
    by (simp_all add: item_types_def item_values_def comp_def)
  have types: "map_of (item_types ?items) i =
      (if i \<noteq> 255 \<and> slots_abs S st i \<noteq> EMPTY_WORD then Some (layout st ! unat i) else None)" for i
    using d by (intro map_of_unique, simp only: fst_eq) (auto simp: item_types_def read_back_items_set image_iff)
  have vals: "map_of (item_values ?items) i =
      (if i \<noteq> 255 \<and> slots_abs S st i \<noteq> EMPTY_WORD then Some (slots_abs S st i) else None)" for i
    using d by (intro map_of_unique, simp only: fst_eq) (auto simp: item_values_def read_back_items_set image_iff)
  have "layout st' ! unat i = kept_layout S st ! unat i" for i :: u8
    using inv types [of i] st'(3) [of i] by (simp add: storage_inv_def kept_layout_nth)
  then have "layout st' = kept_layout S st" by (rule layout_eqI [OF st'(2) length_kept_layout])
  with st' vals that show thesis by simp
qed

lemma read_write_storage:
  assumes inv: "storage_inv P S st"
  shows "\<exists>st'. read_storage P S (write_storage P S st @ bs) = Ok (st', bs) \<and>
    layout st' = kept_layout S st \<and> (\<forall>i. i \<noteq> 255 \<longrightarrow> slots_abs S st' i = slots_abs S st i) \<and>
    slots_abs S st' 255 = layout_hash P (kept_layout S st)"
proof -
  obtain st' where st': "storage_new P S (read_back_items S st) = Ok st'" "layout st' = kept_layout S st"
    "\<And>i. i \<noteq> 255 \<Longrightarrow> slots_abs S st' i = slots_abs S st i"
    "slots_abs S st' 255 = layout_hash P (kept_layout S st)"
    using read_back_storage [OF inv] by blast
  have len: "length (layout st) = 256" using inv by (simp add: storage_inv_def)
  have "unat (of_nat (length (complex_types st)) :: u8) = length (complex_types st)"
    "unat (of_nat (length (filled_slots S st)) :: u8) = length (filled_slots S st)"
    using complex_types_length [of st] filled_slots_length [of st] by (simp_all add: unat_of_nat)
  moreover have "list_all (\<lambda>x. slot_type_ok (snd x)) (complex_types st)"
    using inv len by (auto simp: list_all_iff complex_types_set storage_inv_def)
  moreover have "list_all (\<lambda>x. word_ok P (snd x)) (filled_slots S st)"
    using inv by (auto simp: list_all_iff filled_slots_set storage_inv_def)
  ultimately show ?thesis
    using st' read_back_items_eq [OF len]
    by (simp add: read_storage_def write_storage_def get_put_u8 read_complex_write
        read_items_write [OF filled_slots_distinct])
qed

lemma read_write_storage_filled:
  assumes "storage_inv P S st" "complex_filled S st"
  shows "\<exists>st'. read_storage P S (write_storage P S st @ bs) = Ok (st', bs) \<and>
    layout st' = layout st \<and> slots_abs S st' = slots_abs S st \<and> storage_root S st' = storage_root S st"
proof -
  have "kept_layout S st = layout st"
    using assms by (intro layout_eqI) (auto simp: storage_inv_def kept_layout_filled kept_layout_nth)
  with read_write_storage [OF assms(1), of bs] assms(1) obtain st' where
    "read_storage P S (write_storage P S st @ bs) = Ok (st', bs)" "layout st' = layout st"
    "slots_abs S st' = slots_abs S st"
    by (auto simp: storage_inv_def fun_eq_iff) metis
  with storage_root_ext show ?thesis by blast
qed

end

section \<open>A concrete tree\<close>

definition sample_ssmt :: "nat \<Rightarrow> (u64 \<times> word4) list simple_smt_ops" where
  "sample_ssmt d = \<lparr>
     ssmt_with_leaves = (\<lambda>es. if distinct (map fst es) \<and> list_all (\<lambda>e. unat (fst e) < 2 ^ d) es
        then Ok es else Err (MerkleError ''leaves'')),
     ssmt_get = (\<lambda>t i. if unat i < 2 ^ d then Ok (leaf_lookup t i) else Err (MerkleError ''index'')),
     ssmt_insert = (\<lambda>t i w. if unat i < 2 ^ d then Ok (AList.update i w t, leaf_lookup t i)
        else Err (MerkleError ''index'')),
     ssmt_leaves = (\<lambda>t. filter (\<lambda>x. snd x \<noteq> EMPTY_WORD \<and> unat (fst x) < 2 ^ d) (AList.clearjunk t)),
     ssmt_root = (\<lambda>t. W ((\<Sum>(k, w) \<in> {x \<in> set (AList.clearjunk t). snd x \<noteq> EMPTY_WORD \<and> unat (fst x) < 2 ^ d}.
        (k + 1) * (w0 w + 3 * w1 w + 5 * w2 w + 7 * w3 w)) mod P64) 0 0 0) \<rparr>"

lemma sample_ssmt_leaves:
  "(k, w) \<in> set (AList.clearjunk t) \<and> w \<noteq> EMPTY_WORD \<longleftrightarrow> leaf_lookup t k = w \<and> w \<noteq> EMPTY_WORD"
proof -
  have "map_of t k = Some w \<longleftrightarrow> (k, w) \<in> set (AList.clearjunk t)"
    by (metis distinct_clearjunk map_of_clearjunk map_of_eq_Some_iff)
  then show ?thesis by (auto split: option.splits)
qed

interpretation sample_ssmt_laws: simple_smt_spec "sample_ssmt d" d
proof unfold_locales
  show "distinct (map fst (ssmt_leaves (sample_ssmt d) t))" for t
    by (simp add: sample_ssmt_def distinct_map_filter distinct_clearjunk)
  show "unat i < 2 ^ d \<and> ssmt_get (sample_ssmt d) t i = Ok w"
    if "(i, w) \<in> set (ssmt_leaves (sample_ssmt d) t)" for i w t
    using that sample_ssmt_leaves [of i w t] by (auto simp: sample_ssmt_def simp del: leaf_lookup.simps)
  show "(i, w) \<in> set (ssmt_leaves (sample_ssmt d) t)"
    if "unat i < 2 ^ d" "ssmt_get (sample_ssmt d) t i = Ok w" "w \<noteq> EMPTY_WORD" for i w t
    using that sample_ssmt_leaves [of i w t] by (auto simp: sample_ssmt_def simp del: leaf_lookup.simps)
  show "ssmt_root (sample_ssmt d) t = ssmt_root (sample_ssmt d) t'"
    if "\<And>i. unat i < 2 ^ d \<Longrightarrow> ssmt_get (sample_ssmt d) t i = ssmt_get (sample_ssmt d) t' i" for t t'
  proof -
    have "(k, w) \<in> set (AList.clearjunk t) \<and> w \<noteq> EMPTY_WORD \<and> unat k < 2 ^ d
        \<longleftrightarrow> (k, w) \<in> set (AList.clearjunk t') \<and> w \<noteq> EMPTY_WORD \<and> unat k < 2 ^ d" for k w
      using that [of k] sample_ssmt_leaves [of k w t] sample_ssmt_leaves [of k w t']
      by (auto simp: sample_ssmt_def simp del: leaf_lookup.simps)
    then have "{x \<in> set (AList.clearjunk t). snd x \<noteq> EMPTY_WORD \<and> unat (fst x) < 2 ^ d}
        = {x \<in> set (AList.clearjunk t'). snd x \<noteq> EMPTY_WORD \<and> unat (fst x) < 2 ^ d}"
      unfolding set_eq_iff split_paired_All mem_Collect_eq snd_conv fst_conv by blast
    then show ?thesis by (simp add: sample_ssmt_def)
  qed
qed (auto simp: sample_ssmt_def update_conv' sample_mod_less)

interpretation sample_storage_laws: storage_spec sample_prims "sample_ssmt 8"
  by unfold_locales

interpretation sample_storage_io_laws: storage_io_spec sample_prims "sample_ssmt 8"
  by unfold_locales

section \<open>Properties\<close>

definition sample_storage :: "word4 \<Rightarrow> (u64 \<times> word4) list account_storage" where
  "sample_storage w =
     (let l = initial_layout[1 := Map 0] in
      \<lparr> slots = [(0, W 1 2 3 4), (1, w), (255, layout_hash sample_prims l)], layout = l \<rparr>)"

lemma sample_storage_layout_nth:
  "layout (sample_storage w) ! unat i = (if i = 1 then Map 0 else if i = 255 then Value 64 else Value 0)" for i :: u8
  using initial_layout_nth [of i] unat_u8_less [of i]
  by (auto simp: sample_storage_def Let_def nth_list_update word_unat_eq_iff)

lemma sample_storage_abs:
  "slots_abs (sample_ssmt 8) (sample_storage w) i =
     (if i = 0 then W 1 2 3 4 else if i = 1 then w
      else if i = 255 then layout_hash sample_prims (layout (sample_storage w)) else EMPTY_WORD)"
  using unat_u8_less [of i] u8_u64_inject [of i 0] u8_u64_inject [of i 1] u8_u64_inject [of i 255]
  by (simp add: slots_abs_def sample_storage_def Let_def sample_ssmt_def)

lemma sample_storage_length: "length (layout (sample_storage w)) = 256"
  by (simp add: sample_storage_def Let_def)

lemma sample_storage_mutable: "slot_mutable (sample_storage w) i \<longleftrightarrow> i \<noteq> 1 \<and> i \<noteq> 255"
  using unat_u8_less [of i] by (auto simp: slot_mutable_def sample_storage_layout_nth sample_storage_length)

lemma sample_storage_inv:
  assumes "word_ok sample_prims w"
  shows "storage_inv sample_prims (sample_ssmt 8) (sample_storage w)"
proof -
  have "slot_type_ok (layout (sample_storage w) ! k)" if "k < 256" for k
    using sample_storage_layout_nth [of w "of_nat k"] that
    by (auto simp: unat_of_nat MAX_VALUE_ARITY_def split: if_splits)
  moreover have "word_ok sample_prims (slots_abs (sample_ssmt 8) (sample_storage w) i)" for i
    unfolding sample_storage_abs layout_hash_def
    using assms by (simp add: sample_hash_laws.hash_elements_ok sample_felt_ok)
  ultimately show ?thesis
    using sample_storage_layout_nth [of w 255] sample_storage_abs [of w 255]
    by (simp add: storage_inv_def list_all_length sample_storage_length)
qed

lemma sample_storage_empty_inv: "storage_inv sample_prims (sample_ssmt 8) (sample_storage EMPTY_WORD)"
  by (rule sample_storage_inv) (simp add: sample_felt_ok)

text \<open>
  C21. Writing a slot.  In a well-formed storage, \<open>set_item\<close> on a slot of type \<open>Value 0\<close> other
  than slot 255 returns the old value and changes that slot only; on every other slot it
  leaves the storage unchanged and reports the reserved slot, the arity or the slot type.
  In both cases the storage stays well-formed, and \<open>get_item\<close> returns the slot contents.
\<close>

theorem set_item_correct:
  assumes "storage_spec P S" "storage_inv P S st" "word_ok P v"
  shows "case set_item S st i v of (st', r) \<Rightarrow>
    storage_inv P S st' \<and> layout st' = layout st \<and>
    (\<forall>j. get_item S st' j = Ok (if slot_mutable st i \<and> j = i then v else slots_abs S st j)) \<and>
    r = (if i = 255 then Err (StorageSlotIsReserved 255)
         else case layout st ! unat i of
           Value arity \<Rightarrow> if arity = 0 then Ok (slots_abs S st i) else Err (StorageSlotInvalidValueArity i 0 arity)
         | ty \<Rightarrow> Err (StorageSlotNotValueSlot i ty))"
proof -
  have len: "length (layout st) = 256" using assms(2) by (simp add: storage_inv_def)
  have get: "get_item S st j = Ok (slots_abs S st j)" for st j
    by (simp add: get_item_def storage_spec.ssmt_get_slot [OF assms(1)])
  obtain st' r where set: "set_item S st i v = (st', r)" by fastforce
  note inv = storage_spec.set_item_inv [OF assms set]
  show ?thesis
  proof (cases "slot_mutable st i")
    case True
    obtain st1 where st1: "set_item S st i v = (st1, Ok (slots_abs S st i))"
      "layout st1 = layout st" "slots_abs S st1 = (slots_abs S st)(i := v)"
      by (rule storage_spec.set_item_mutable [OF assms(1) True])
    with set inv True show ?thesis by (simp add: get slot_mutable_def)
  next
    case False
    with set len unat_u8_less [of i] inv show ?thesis
      by (auto simp: get set_item_def slot_mutable_def SLOT_LAYOUT_COMMITMENT_INDEX_def word_neq_0_conv
          split: storage_slot_type.splits if_splits)
  qed
qed

theorem set_item_correct_witness:
  "snd (set_item (sample_ssmt 8) (sample_storage EMPTY_WORD) 0 (W 9 0 0 0)) = Ok (W 1 2 3 4) \<and>
   snd (set_item (sample_ssmt 8) (sample_storage EMPTY_WORD) 1 (W 9 0 0 0)) = Err (StorageSlotNotValueSlot 1 (Map 0))"
  using set_item_correct [OF sample_storage_laws.storage_spec_axioms sample_storage_empty_inv, of "W 9 0 0 0" 0]
    set_item_correct [OF sample_storage_laws.storage_spec_axioms sample_storage_empty_inv, of "W 9 0 0 0" 1]
    sample_storage_layout_nth [of EMPTY_WORD 0] sample_storage_layout_nth [of EMPTY_WORD 1]
  by (auto simp: sample_storage_abs sample_felt_ok split: prod.splits)

text \<open>
  C20. Applying a storage delta.  A valid delta whose slots are all writable is applied
  completely: an updated slot gets its new value, a cleared slot the empty word, every other
  slot and the layout are unchanged.
\<close>

theorem storage_apply_delta_effect:
  assumes "storage_spec P S" "storage_inv P S st" "storage_delta_valid dl"
    "list_all (\<lambda>x. word_ok P (snd x)) (updated_items dl)"
    "list_all (slot_mutable st) (cleared_items dl @ map fst (updated_items dl))"
  shows "case storage_apply_delta S st dl of (st', r) \<Rightarrow>
    r = Ok () \<and> storage_inv P S st' \<and> layout st' = layout st \<and>
    (\<forall>i. get_item S st' i = Ok (case map_of (updated_items dl) i of
       Some v \<Rightarrow> v | None \<Rightarrow> if i \<in> set (cleared_items dl) then EMPTY_WORD else slots_abs S st i))"
proof -
  have get: "get_item S st j = Ok (slots_abs S st j)" for st j
    by (simp add: get_item_def storage_spec.ssmt_get_slot [OF assms(1)])
  have mut: "slot_mutable st i" if "i \<in> set (cleared_items dl) \<union> fst ` set (updated_items dl)" for i
    using assms(5) that by (auto simp: list_all_iff)
  obtain st' where st': "storage_apply_delta S st dl = (st', Ok ())" "layout st' = layout st"
    "slots_abs S st' = (\<lambda>i. case map_of (updated_items dl) i of
       Some v \<Rightarrow> v | None \<Rightarrow> if i \<in> set (cleared_items dl) then EMPTY_WORD else slots_abs S st i)"
    using storage_spec.storage_apply_delta_ok [OF assms(1) mut assms(3)] by blast
  then show ?thesis
    using storage_spec.storage_apply_delta_inv [OF assms(1,2,4) st'(1)] by (simp add: get)
qed

theorem storage_apply_delta_effect_witness:
  "case storage_apply_delta (sample_ssmt 8) (sample_storage EMPTY_WORD)
       \<lparr> cleared_items = [0], updated_items = [(2, W 9 0 0 0)] \<rparr> of (st', r) \<Rightarrow>
     r = Ok () \<and> get_item (sample_ssmt 8) st' 0 = Ok EMPTY_WORD \<and> get_item (sample_ssmt 8) st' 2 = Ok (W 9 0 0 0)"
  using storage_apply_delta_effect [OF sample_storage_laws.storage_spec_axioms sample_storage_empty_inv,
      of "\<lparr> cleared_items = [0], updated_items = [(2, W 9 0 0 0)] \<rparr>"]
  by (auto simp: sample_storage_mutable sample_felt_ok storage_delta_valid_def split: prod.splits)

text \<open>
  Building a storage.  \<open>AccountStorage::new\<close> rejects an item for the reserved slot and
  two items for one slot; otherwise every item gets its slot and its type, the other slots
  are empty values, and slot 255 commits to the resulting layout.
\<close>

theorem storage_new_cases:
  assumes "storage_spec P S"
  shows "if 255 \<in> item_index ` set items then storage_new P S items = Err (StorageSlotIsReserved 255)
    else if \<not> distinct (map item_index items) then (\<exists>e. storage_new P S items = Err (DuplicateStorageItems e))
    else (\<exists>st. storage_new P S items = Ok st \<and> length (layout st) = 256 \<and>
      (\<forall>i. layout st ! unat i = (case map_of (item_types items) i of Some ty \<Rightarrow> ty
        | None \<Rightarrow> if i = 255 then Value 64 else Value 0)) \<and>
      (\<forall>i. get_item S st i = Ok (case map_of (item_values items) i of Some v \<Rightarrow> v
        | None \<Rightarrow> if i = 255 then layout_commitment P st else EMPTY_WORD)))"
proof -
  have get: "get_item S st j = Ok (slots_abs S st j)" for st j
    by (simp add: get_item_def storage_spec.ssmt_get_slot [OF assms(1)])
  show ?thesis
  proof (cases "255 \<notin> item_index ` set items \<and> distinct (map item_index items)")
    case True
    then obtain st where "storage_new P S items = Ok st" "length (layout st) = 256"
      "\<And>i. layout st ! unat i = (case map_of (item_types items) i of Some ty \<Rightarrow> ty
          | None \<Rightarrow> if i = 255 then Value 64 else Value 0)"
      "\<And>i. slots_abs S st i = (case map_of (item_values items) i of Some v \<Rightarrow> v
          | None \<Rightarrow> if i = 255 then layout_hash P (layout st) else EMPTY_WORD)"
      using storage_spec.storage_new_ok [OF assms, of items] by blast
    with True show ?thesis by (simp add: get layout_commitment_def cong: option.case_cong)
  next
    case False
    then show ?thesis
      using storage_spec.storage_new_reserved [OF assms, of items]
        storage_spec.storage_new_duplicate [OF assms, of items] by auto
  qed
qed

theorem storage_new_cases_witness:
  "storage_new sample_prims (sample_ssmt 8)
     [\<lparr> item_index = 255, item_slot = storage_slot_new_value EMPTY_WORD \<rparr>] = Err (StorageSlotIsReserved 255) \<and>
   is_ok (storage_new sample_prims (sample_ssmt 8)
     [\<lparr> item_index = 3, item_slot = storage_slot_new_map (W 1 0 0 0) \<rparr>])"
  using storage_new_cases [OF sample_storage_laws.storage_spec_axioms,
      of "[\<lparr> item_index = 255, item_slot = storage_slot_new_value EMPTY_WORD \<rparr>]"]
    storage_new_cases [OF sample_storage_laws.storage_spec_axioms,
      of "[\<lparr> item_index = 3, item_slot = storage_slot_new_map (W 1 0 0 0) \<rparr>]"]
  by (auto simp: is_ok_iff)

text \<open>
  C38. Reading back a written storage.  A well-formed storage in which every slot of a
  non-default type holds a value is read back with the same layout, slots and root.
\<close>

theorem storage_serialization_round_trip:
  assumes "storage_io_spec P S" "storage_inv P S st" "complex_filled S st"
  shows "\<exists>st'. read_storage P S (write_storage P S st @ bs) = Ok (st', bs) \<and>
    layout st' = layout st \<and> slots_abs S st' = slots_abs S st \<and> storage_root S st' = storage_root S st"
  by (rule storage_io_spec.read_write_storage_filled [OF assms])

theorem storage_serialization_round_trip_witness:
  "\<exists>st'. read_storage sample_prims (sample_ssmt 8)
      (write_storage sample_prims (sample_ssmt 8) (sample_storage (W 5 6 7 8)) @ []) = Ok (st', []) \<and>
    layout st' = layout (sample_storage (W 5 6 7 8)) \<and>
    slots_abs (sample_ssmt 8) st' = slots_abs (sample_ssmt 8) (sample_storage (W 5 6 7 8)) \<and>
    storage_root (sample_ssmt 8) st' = storage_root (sample_ssmt 8) (sample_storage (W 5 6 7 8))"
  by (rule storage_serialization_round_trip [OF sample_storage_io_laws.storage_io_spec_axioms sample_storage_inv])
    (simp_all add: sample_felt_ok complex_filled_def sample_storage_abs sample_storage_layout_nth)

text \<open>
  Layout lost by serialization.  An empty slot of a well-formed storage is read back with
  the type \<open>Value 0\<close> whatever type it had, so a storage with an empty map slot does not
  survive a write and a read.
\<close>

theorem storage_serialization_drops_layout:
  assumes "storage_io_spec P S" "storage_inv P S st" "i \<noteq> 255" "slots_abs S st i = EMPTY_WORD"
    "layout st ! unat i \<noteq> Value 0"
  shows "\<exists>st'. read_storage P S (write_storage P S st @ bs) = Ok (st', bs) \<and>
    layout st' ! unat i = Value 0 \<and> layout st' \<noteq> layout st"
  using storage_io_spec.read_write_storage [OF assms(1,2), of bs] assms(3-5) kept_layout_nth [of S st i] by force

theorem storage_serialization_drops_layout_witness:
  "\<exists>st'. read_storage sample_prims (sample_ssmt 8) (write_storage sample_prims (sample_ssmt 8) (sample_storage EMPTY_WORD) @ []) = Ok (st', [])
     \<and> layout st' ! unat (1 :: u8) = Value 0 \<and> layout st' \<noteq> layout (sample_storage EMPTY_WORD)"
  by (rule storage_serialization_drops_layout [OF sample_storage_io_laws.storage_io_spec_axioms sample_storage_empty_inv])
    (use sample_storage_layout_nth [of EMPTY_WORD 1] in \<open>simp_all add: sample_storage_abs\<close>)

end
