(* ===== verification/Account_Code.thy ===== *)
theory Account_Code
  imports Storage "HOL-Library.List_Lexorder" "HOL-Library.Multiset"
begin

text \<open>
  Account code (\<open>objects/src/accounts/code.rs\<close>): the procedures an account exports, committed
  to by a sparse Merkle tree of depth 8 over the procedure digests in byte order.  The
  assembler is third-party code: a record of operations \<open>A\<close> with the contract \<open>asm_spec\<close>.
\<close>

section \<open>The assembler\<close>

text \<open>
  \<open>strip_module\<close> is the module without imports and source locations, which are not written
  when a module is serialized with account code.
\<close>

record 'm asm_ops =
  compile_module :: "'m \<Rightarrow> (digest list, assembly_error) result"
  put_module :: "'m \<Rightarrow> u8 list"
  get_module :: "('m, deserialization_error) reader"
  strip_module :: "'m \<Rightarrow> 'm"

locale asm_spec =
  fixes P :: prims and A :: "'m asm_ops"
  assumes compile_module_ok: "compile_module A m = Ok ps \<Longrightarrow> list_all (word_ok P) ps"
    and get_put_module: "get_module A (put_module A m @ bs) = Ok (strip_module A m, bs)"
    and put_strip_module: "put_module A (strip_module A m) = put_module A m"

section \<open>Account code\<close>

record ('m, 's) account_code =
  module_ast :: 'm
  procedures :: "digest list"
  procedure_tree :: 's

definition PROCEDURE_TREE_DEPTH :: nat where
  "PROCEDURE_TREE_DEPTH = 8"

definition MAX_NUM_PROCEDURES :: nat where
  "MAX_NUM_PROCEDURES = 2 ^ PROCEDURE_TREE_DEPTH"

definition procedure_leaves :: "prims \<Rightarrow> digest list \<Rightarrow> (u64 \<times> word4) list" where
  "procedure_leaves P ps =
     map (\<lambda>(idx, p). (of_nat idx, p)) (enumerate 0 (sort_key (digest_as_bytes P) ps))"

definition build_procedure_tree :: "prims \<Rightarrow> 's simple_smt_ops \<Rightarrow> digest list \<Rightarrow> ('s, 'e) result" where
  "build_procedure_tree P S ps =
     expect ''failed to build procedure tree'' (ssmt_with_leaves S (procedure_leaves P ps))"

definition code_new ::
    "prims \<Rightarrow> 's simple_smt_ops \<Rightarrow> 'm asm_ops \<Rightarrow> 'm \<Rightarrow> (('m, 's) account_code, account_error) result" where
  "code_new P S A m =
     and_then (map_err AccountCodeAssemblerError (compile_module A m)) (\<lambda>ps.
       if ps = [] then Err AccountCodeNoProcedures
       else if length ps > MAX_NUM_PROCEDURES then Err (AccountCodeTooManyProcedures MAX_NUM_PROCEDURES (length ps))
       else and_then (build_procedure_tree P S ps) (\<lambda>t.
         Ok \<lparr> module_ast = m, procedures = ps, procedure_tree = t \<rparr>))"

definition code_from_parts ::
    "prims \<Rightarrow> 's simple_smt_ops \<Rightarrow> 'm \<Rightarrow> digest list \<Rightarrow> (('m, 's) account_code, 'e) result" where
  "code_from_parts P S m ps =
    (if ps = [] then Panic ''no account procedures''
     else if \<not> length ps \<le> MAX_NUM_PROCEDURES then Panic ''too many account procedures''
     else and_then (build_procedure_tree P S ps) (\<lambda>t.
       Ok \<lparr> module_ast = m, procedures = ps, procedure_tree = t \<rparr>))"

definition code_root :: "'s simple_smt_ops \<Rightarrow> ('m, 's) account_code \<Rightarrow> digest" where
  "code_root S c = ssmt_root S (procedure_tree c)"

definition num_procedures :: "('m, 's) account_code \<Rightarrow> nat" where
  "num_procedures c = length (procedures c)"

definition has_procedure :: "('m, 's) account_code \<Rightarrow> digest \<Rightarrow> bool" where
  "has_procedure c root \<longleftrightarrow> root \<in> set (procedures c)"

definition get_procedure_by_index :: "('m, 's) account_code \<Rightarrow> nat \<Rightarrow> (digest, unit) result" where
  "get_procedure_by_index c index =
    (if index < length (procedures c) then Ok (procedures c ! index) else Panic ''index out of bounds'')"

fun position :: "('a \<Rightarrow> bool) \<Rightarrow> 'a list \<Rightarrow> nat option" where
  "position p [] = None"
| "position p (x # xs) = (if p x then Some 0 else map_option Suc (position p xs))"

definition get_procedure_index_by_root :: "('m, 's) account_code \<Rightarrow> digest \<Rightarrow> nat option" where
  "get_procedure_index_by_root c root = position (\<lambda>r. r = root) (procedures c)"

definition code_eq :: "('m, 's) account_code \<Rightarrow> ('m, 's) account_code \<Rightarrow> bool" where
  "code_eq c d \<longleftrightarrow> module_ast c = module_ast d \<and> procedures c = procedures d"

definition write_code :: "prims \<Rightarrow> 'm asm_ops \<Rightarrow> ('m, 's) account_code \<Rightarrow> u8 list" where
  "write_code P A c =
     put_module A (module_ast c) @ put_u8 P (of_nat (length (procedures c)) - 1)
     @ write_many (put_digest P) (procedures c)"

definition read_code ::
    "prims \<Rightarrow> 's simple_smt_ops \<Rightarrow> 'm asm_ops \<Rightarrow> (('m, 's) account_code, deserialization_error) reader" where
  "read_code P S A bs =
     and_then (get_module A bs) (\<lambda>(m, bs1).
     and_then (get_u8 P bs1) (\<lambda>(n, bs2).
     and_then (read_many (unat n + 1) (get_digest P) bs2) (\<lambda>(ps, bs3).
     and_then (code_from_parts P S m ps) (\<lambda>c. Ok (c, bs3)))))"

section \<open>The code invariant\<close>

definition code_inv :: "prims \<Rightarrow> 's simple_smt_ops \<Rightarrow> ('m, 's) account_code \<Rightarrow> bool" where
  "code_inv P S c \<longleftrightarrow>
     1 \<le> num_procedures c \<and> num_procedures c \<le> 256 \<and> list_all (word_ok P) (procedures c) \<and>
     ssmt_with_leaves S (procedure_leaves P (procedures c)) = Ok (procedure_tree c)"

lemma MAX_NUM_PROCEDURES_eq [simp]: "MAX_NUM_PROCEDURES = 256"
  by (simp add: MAX_NUM_PROCEDURES_def PROCEDURE_TREE_DEPTH_def)

lemma position_eq_Some:
  "position p xs = Some i \<longleftrightarrow> i < length xs \<and> p (xs ! i) \<and> (\<forall>j<i. \<not> p (xs ! j))"
proof (induction xs arbitrary: i)
  case (Cons x xs)
  show ?case by (cases i) (auto simp: Cons.IH less_Suc_eq_0_disj)
qed simp

lemma position_eq_None: "position p xs = None \<longleftrightarrow> (\<forall>x\<in>set xs. \<not> p x)"
  by (induction xs) auto

lemma procedure_leaves_facts:
  assumes "length ps \<le> 256"
  shows "distinct (map fst (procedure_leaves P ps))" "list_all (\<lambda>e. unat (fst e) < 2 ^ 8) (procedure_leaves P ps)"
    "leaf_lookup (procedure_leaves P ps) i =
      (if unat i < length ps then sort_key (digest_as_bytes P) ps ! unat i else EMPTY_WORD)"
proof -
  let ?qs = "sort_key (digest_as_bytes P) ps" and ?es = "procedure_leaves P ps"
  have "map fst ?es = map (\<lambda>x. of_nat (fst x)) (enumerate 0 ?qs)"
    by (simp add: procedure_leaves_def split_beta comp_def)
  also have "\<dots> = map of_nat (map fst (enumerate 0 ?qs))" by (simp only: map_map comp_def)
  finally have fst: "map fst ?es = map of_nat [0..<length ps]" by (simp only: map_fst_enumerate) simp
  have "inj_on (of_nat :: nat \<Rightarrow> u64) {0..<256}"
    by (rule inj_onI) (simp add: word_unat_eq_iff unat_of_nat)
  then have "inj_on (of_nat :: nat \<Rightarrow> u64) {0..<length ps}"
    by (rule inj_on_subset) (use assms(1) in auto)
  then show d: "distinct (map fst ?es)" by (simp add: fst distinct_map)
  show "list_all (\<lambda>e. unat (fst e) < 2 ^ 8) ?es"
    using assms(1) by (auto simp: procedure_leaves_def list_all_iff in_set_enumerate_eq unat_of_nat)
  have "(i, v) \<in> set ?es \<longleftrightarrow> unat i < length ps \<and> v = ?qs ! unat i" for v
  proof -
    have "(i, v) \<in> set ?es \<longleftrightarrow> (\<exists>k. k < length ps \<and> i = of_nat k \<and> v = ?qs ! k)"
      unfolding procedure_leaves_def set_conv_nth
      by (rule iffI; clarsimp; rule exI; auto simp: nth_enumerate_eq)
    moreover have "unat (of_nat k :: u64) = k" if "k < length ps" for k
      using that assms by (simp add: unat_of_nat)
    ultimately show ?thesis by (metis of_nat_unat ucast_id)
  qed
  from map_of_unique [OF d this]
  show "leaf_lookup ?es i = (if unat i < length ps then ?qs ! unat i else EMPTY_WORD)" by simp
qed

context storage_spec
begin

lemma procedure_tree_ok:
  assumes "length ps \<le> 256"
  obtains t where "ssmt_with_leaves S (procedure_leaves P ps) = Ok t"
    "\<And>i. unat i < 256 \<Longrightarrow> ssmt_get S t i =
       Ok (if unat i < length ps then sort_key (digest_as_bytes P) ps ! unat i else EMPTY_WORD)"
  using ssmt_with_leaves_ok [OF procedure_leaves_facts(1,2) [OF assms, of P]] that
  by (auto simp: procedure_leaves_facts(3) [OF assms] simp del: leaf_lookup.simps)

lemma code_inv_leaves:
  assumes "code_inv P S c" "unat i < 256"
  shows "ssmt_get S (procedure_tree c) i =
    Ok (if unat i < length (procedures c) then sort_key (digest_as_bytes P) (procedures c) ! unat i else EMPTY_WORD)"
proof -
  have "length (procedures c) \<le> 256" using assms(1) by (simp add: code_inv_def num_procedures_def)
  then obtain t where "ssmt_with_leaves S (procedure_leaves P (procedures c)) = Ok t"
    "\<And>i. unat i < 256 \<Longrightarrow> ssmt_get S t i =
       Ok (if unat i < length (procedures c) then sort_key (digest_as_bytes P) (procedures c) ! unat i else EMPTY_WORD)"
    using procedure_tree_ok by blast
  with assms show ?thesis by (simp add: code_inv_def)
qed

lemma code_from_parts_ok:
  assumes "1 \<le> length ps" "length ps \<le> 256" "list_all (word_ok P) ps"
  obtains t where "code_from_parts P S m ps = Ok \<lparr> module_ast = m, procedures = ps, procedure_tree = t \<rparr>"
    "code_inv P S \<lparr> module_ast = m, procedures = ps, procedure_tree = t \<rparr>"
proof -
  obtain t where "ssmt_with_leaves S (procedure_leaves P ps) = Ok t"
    using procedure_tree_ok [OF assms(2)] by blast
  with assms show thesis
    by (intro that [of t]) (auto simp: code_from_parts_def code_inv_def num_procedures_def build_procedure_tree_def)
qed

lemma sorted_procedures_unique:
  assumes "mset ps = mset qs" "list_all (word_ok P) ps"
  shows "sort_key (digest_as_bytes P) ps = sort_key (digest_as_bytes P) qs"
proof (rule sort_key_inj_key_eq)
  show "inj_on (digest_as_bytes P) (set ps)"
    using assms(2) by (auto intro!: inj_onI simp: list_all_iff digest_as_bytes_inject)
qed (use assms in simp_all)

lemma code_root_mset:
  assumes "code_inv P S c" "code_inv P S d" "mset (procedures c) = mset (procedures d)"
  shows "code_root S c = code_root S d"
proof -
  have "sort_key (digest_as_bytes P) (procedures c) = sort_key (digest_as_bytes P) (procedures d)"
    using assms by (intro sorted_procedures_unique) (simp_all add: code_inv_def)
  then have "procedure_leaves P (procedures c) = procedure_leaves P (procedures d)"
    by (simp add: procedure_leaves_def)
  with assms(1,2) show ?thesis by (simp add: code_inv_def code_root_def)
qed

end

locale code_spec = prims_spec P + storage_io_spec P S + asm_spec P A
  for P :: prims and S :: "'s simple_smt_ops" and A :: "'m asm_ops"
begin

lemma read_write_code:
  assumes "code_inv P S c"
  obtains c' where "read_code P S A (write_code P A c @ bs) = Ok (c', bs)" "code_inv P S c'"
    "module_ast c' = strip_module A (module_ast c)" "procedures c' = procedures c" "code_root S c' = code_root S c"
proof -
  have c: "1 \<le> length (procedures c)" "length (procedures c) \<le> 256" "list_all (word_ok P) (procedures c)"
    using assms by (auto simp: code_inv_def num_procedures_def)
  obtain t where t: "code_from_parts P S (strip_module A (module_ast c)) (procedures c)
      = (Ok \<lparr> module_ast = strip_module A (module_ast c), procedures = procedures c, procedure_tree = t \<rparr>
         :: (_, deserialization_error) result)"
    "code_inv P S \<lparr> module_ast = strip_module A (module_ast c), procedures = procedures c, procedure_tree = t \<rparr>"
    by (rule code_from_parts_ok [OF c])
  have pred: "of_nat (length (procedures c)) - 1 = (of_nat (length (procedures c) - 1) :: u8)"
    using c(1) by (simp add: of_nat_diff)
  have "unat (of_nat (length (procedures c)) - 1 :: u8) + 1 = length (procedures c)"
    unfolding pred unat_of_nat using c(1,2) by simp
  then have "read_code P S A (write_code P A c @ bs) =
      Ok (\<lparr> module_ast = strip_module A (module_ast c), procedures = procedures c, procedure_tree = t \<rparr>, bs)"
    using t(1) c_digest.read_many_write_many [OF c(3)]
    by (simp add: read_code_def write_code_def get_put_module get_put_u8 del: read_many.simps add_Suc_right)
  moreover from this code_root_mset [OF t(2) assms] have
    "code_root S \<lparr> module_ast = strip_module A (module_ast c), procedures = procedures c, procedure_tree = t \<rparr>
      = code_root S c" by simp
  ultimately show thesis using that t(2) by simp
qed

end

section \<open>A concrete assembler\<close>

text \<open>Modules that are lists of digests.\<close>

definition sample_asm :: "digest list asm_ops" where
  "sample_asm = \<lparr>
     compile_module = (\<lambda>m. if list_all (word_ok sample_prims) m then Ok m else Err (AssemblyError ''range'')),
     put_module = (\<lambda>m. []),
     get_module = (\<lambda>bs. Ok ([], bs)),
     strip_module = (\<lambda>m. []) \<rparr>"

interpretation sample_asm_laws: asm_spec sample_prims sample_asm
  by unfold_locales (auto simp: sample_asm_def split: if_splits)

interpretation sample_code_laws: code_spec sample_prims "sample_ssmt 8" sample_asm
  by unfold_locales

definition sample_code :: "digest list \<Rightarrow> (digest list, (u64 \<times> word4) list) account_code" where
  "sample_code ps = \<lparr> module_ast = [], procedures = ps, procedure_tree = procedure_leaves sample_prims ps \<rparr>"

lemma sample_code_inv:
  assumes "1 \<le> length ps" "length ps \<le> 256" "list_all (word_ok sample_prims) ps"
  shows "code_inv sample_prims (sample_ssmt 8) (sample_code ps)"
proof -
  have "ssmt_with_leaves (sample_ssmt 8) es = Ok es"
    if "distinct (map fst es)" "list_all (\<lambda>e. unat (fst e) < 2 ^ 8) es" for es
    using that by (simp add: sample_ssmt_def)
  with assms procedure_leaves_facts(1,2) [OF assms(2), of sample_prims] show ?thesis
    by (simp add: code_inv_def sample_code_def num_procedures_def)
qed

section \<open>Properties\<close>

text \<open>
  Compiling account code.  \<open>AccountCode::new\<close> reports the assembler's error, an empty
  interface or more than 256 procedures; otherwise it keeps the module and the procedures in
  the order the assembler returned them and its procedure tree is well-formed.
\<close>

theorem code_new_cases:
  assumes "storage_spec P S" "asm_spec P A"
  shows "case compile_module A m of
      Err e \<Rightarrow> code_new P S A m = Err (AccountCodeAssemblerError e)
    | Panic x \<Rightarrow> code_new P S A m = Panic x
    | Ok ps \<Rightarrow>
        if ps = [] then code_new P S A m = Err AccountCodeNoProcedures
        else if length ps > 256 then code_new P S A m = Err (AccountCodeTooManyProcedures 256 (length ps))
        else \<exists>c. code_new P S A m = Ok c \<and> code_inv P S c \<and> module_ast c = m \<and> procedures c = ps"
proof (cases "compile_module A m")
  case (Ok ps)
  show ?thesis
  proof (cases "ps = [] \<or> length ps > 256")
    case False
    then have ps: "1 \<le> length ps" "length ps \<le> 256" "list_all (word_ok P) ps"
      using asm_spec.compile_module_ok [OF assms(2) Ok] by (auto simp: Suc_le_eq)
    obtain t where "code_from_parts P S m ps = (Ok \<lparr> module_ast = m, procedures = ps, procedure_tree = t \<rparr>
         :: (_, account_error) result)"
      "code_inv P S \<lparr> module_ast = m, procedures = ps, procedure_tree = t \<rparr>"
      by (rule storage_spec.code_from_parts_ok [OF assms(1) ps])
    with Ok False show ?thesis by (simp add: code_new_def code_from_parts_def)
  qed (use Ok in \<open>auto simp: code_new_def\<close>)
qed (simp_all add: code_new_def)

theorem code_new_cases_witness:
  "code_new sample_prims (sample_ssmt 8) sample_asm [] = Err AccountCodeNoProcedures \<and>
   is_ok (code_new sample_prims (sample_ssmt 8) sample_asm [W 1 2 3 4, W 0 0 0 1])"
  using code_new_cases [OF sample_storage_laws.storage_spec_axioms sample_asm_laws.asm_spec_axioms, of "[]"]
    code_new_cases [OF sample_storage_laws.storage_spec_axioms sample_asm_laws.asm_spec_axioms,
      of "[W 1 2 3 4, W 0 0 0 1]"]
  by (auto simp: sample_asm_def sample_felt_ok is_ok_iff)

text \<open>
  C32. What the procedure tree commits to.  The first leaves are the procedures in byte order
  and the others are empty, so a non-empty digest is a leaf exactly if it is one of the
  procedures, and the root does not depend on the order of the procedures.
\<close>

theorem procedure_tree_commitment:
  assumes "storage_spec P S" "code_inv P S c" "code_inv P S d"
  shows "(p \<noteq> EMPTY_WORD \<longrightarrow> (has_procedure c p \<longleftrightarrow>
            (\<exists>i. unat i < 256 \<and> ssmt_get S (procedure_tree c) i = Ok p))) \<and>
    (mset (procedures c) = mset (procedures d) \<longrightarrow> code_root S c = code_root S d)"
proof (intro conjI impI)
  assume "p \<noteq> EMPTY_WORD"
  let ?qs = "sort_key (digest_as_bytes P) (procedures c)"
  have len: "length (procedures c) \<le> 256" using assms(2) by (simp add: code_inv_def num_procedures_def)
  have leaf: "ssmt_get S (procedure_tree c) i = Ok (if unat i < length (procedures c) then ?qs ! unat i else EMPTY_WORD)"
    if "unat i < 256" for i
    by (rule storage_spec.code_inv_leaves [OF assms(1,2) that])
  show "has_procedure c p \<longleftrightarrow> (\<exists>i. unat i < 256 \<and> ssmt_get S (procedure_tree c) i = Ok p)"
  proof
    assume "has_procedure c p"
    then have "p \<in> set ?qs" by (simp add: has_procedure_def)
    then obtain k where k: "k < length (procedures c)" "?qs ! k = p"
      by (metis in_set_conv_nth length_sort)
    then have "unat (of_nat k :: u64) = k" using len by (simp add: unat_of_nat)
    with k len leaf [of "of_nat k"] show "\<exists>i. unat i < 256 \<and> ssmt_get S (procedure_tree c) i = Ok p"
      by (intro exI [of _ "of_nat k"]) simp
  next
    assume "\<exists>i. unat i < 256 \<and> ssmt_get S (procedure_tree c) i = Ok p"
    with leaf \<open>p \<noteq> EMPTY_WORD\<close> have "\<exists>k < length ?qs. ?qs ! k = p" by (auto split: if_splits)
    then have "p \<in> set ?qs" by (metis nth_mem)
    then show "has_procedure c p" by (simp add: has_procedure_def)
  qed
qed (rule storage_spec.code_root_mset [OF assms])

theorem procedure_tree_commitment_witness:
  "code_root (sample_ssmt 8) (sample_code [W 1 2 3 4, W 0 0 0 1])
     = code_root (sample_ssmt 8) (sample_code [W 0 0 0 1, W 1 2 3 4]) \<and>
   (\<exists>i. unat i < 256 \<and>
     ssmt_get (sample_ssmt 8) (procedure_tree (sample_code [W 1 2 3 4, W 0 0 0 1])) i = Ok (W 0 0 0 1))"
proof -
  have inv: "code_inv sample_prims (sample_ssmt 8) (sample_code [W 1 2 3 4, W 0 0 0 1])"
    "code_inv sample_prims (sample_ssmt 8) (sample_code [W 0 0 0 1, W 1 2 3 4])"
    by (rule sample_code_inv; simp add: sample_felt_ok)+
  have "mset (procedures (sample_code [W 1 2 3 4, W 0 0 0 1])) = mset (procedures (sample_code [W 0 0 0 1, W 1 2 3 4]))"
    "has_procedure (sample_code [W 1 2 3 4, W 0 0 0 1]) (W 0 0 0 1)"
    by (simp_all add: sample_code_def has_procedure_def)
  with procedure_tree_commitment [OF sample_storage_laws.storage_spec_axioms inv, of "W 0 0 0 1"]
  show ?thesis by simp
qed

text \<open>
  Reading back written code.  Between 1 and 256 procedures fit the count byte, and the
  code is read back with the same procedures, the same root and the module without its
  debug information.
\<close>

theorem code_serialization_round_trip:
  assumes "code_spec P S A" "code_inv P S c"
  shows "\<exists>c'. read_code P S A (write_code P A c @ bs) = Ok (c', bs) \<and> code_inv P S c' \<and>
    module_ast c' = strip_module A (module_ast c) \<and> procedures c' = procedures c \<and> code_root S c' = code_root S c"
  using code_spec.read_write_code [OF assms, of bs] by blast

theorem code_serialization_round_trip_witness:
  "\<exists>c'. read_code sample_prims (sample_ssmt 8) sample_asm
      (write_code sample_prims sample_asm (sample_code [W 1 2 3 4, W 0 0 0 1]) @ []) = Ok (c', []) \<and>
    procedures c' = [W 1 2 3 4, W 0 0 0 1]"
proof -
  have "code_inv sample_prims (sample_ssmt 8) (sample_code [W 1 2 3 4, W 0 0 0 1])"
    by (rule sample_code_inv) (simp_all add: sample_felt_ok)
  from code_serialization_round_trip [OF sample_code_laws.code_spec_axioms this, of "[]"]
  show ?thesis by (auto simp: sample_code_def)
qed

end
