(* ===== verification/Account.thy ===== *)
theory Account
  imports Account_Code Vault
begin

text \<open>
  Accounts (\<open>objects/src/accounts/mod.rs\<close>, \<open>stub.rs\<close>, \<open>data.rs\<close>): hashing, applying a delta,
  serialization.  The effect of a vault delta is first worked out on the abstract vault.
\<close>

section \<open>Vault deltas on the abstract vault\<close>

text \<open>When an asset can be added or removed, and the contents afterwards.\<close>

fun can_add :: "abs_vault \<Rightarrow> asset \<Rightarrow> bool" where
  "can_add v (Fungible a) \<longleftrightarrow> (case av_balance v (fa_faucet_id a) of
     None \<Rightarrow> True | Some b \<Rightarrow> unat b + unat (fa_amount a) < 2 ^ 63)"
| "can_add v (NonFungible a) \<longleftrightarrow> a \<notin> av_nfts v"

fun can_remove :: "abs_vault \<Rightarrow> asset \<Rightarrow> bool" where
  "can_remove v (Fungible a) \<longleftrightarrow> (case av_balance v (fa_faucet_id a) of
     None \<Rightarrow> False | Some b \<Rightarrow> fa_amount a \<le> b)"
| "can_remove v (NonFungible a) \<longleftrightarrow> a \<in> av_nfts v"

fun amount_of :: "asset list \<Rightarrow> account_id \<Rightarrow> u64 option" where
  "amount_of [] f = None"
| "amount_of (Fungible a # as) f = (if fa_faucet_id a = f then Some (fa_amount a) else amount_of as f)"
| "amount_of (NonFungible a # as) f = amount_of as f"

definition nfts_of :: "asset list \<Rightarrow> non_fungible_asset set" where
  "nfts_of as = {a. NonFungible a \<in> set as}"

definition added_balance :: "u64 option \<Rightarrow> u64 option \<Rightarrow> u64 option" where
  "added_balance b x = (case x of None \<Rightarrow> b | Some x \<Rightarrow> Some (case b of None \<Rightarrow> x | Some b \<Rightarrow> b + x))"

definition removed_balance :: "u64 option \<Rightarrow> u64 option \<Rightarrow> u64 option" where
  "removed_balance b x = (case x of None \<Rightarrow> b | Some x \<Rightarrow>
     (case b of None \<Rightarrow> None | Some b \<Rightarrow> if b = x then None else Some (b - x)))"

definition add_all :: "abs_vault \<Rightarrow> asset list \<Rightarrow> abs_vault" where
  "add_all v as = \<lparr> av_balance = (\<lambda>f. added_balance (av_balance v f) (amount_of as f)),
     av_nfts = av_nfts v \<union> nfts_of as \<rparr>"

definition remove_all :: "abs_vault \<Rightarrow> asset list \<Rightarrow> abs_vault" where
  "remove_all v as = \<lparr> av_balance = (\<lambda>f. removed_balance (av_balance v f) (amount_of as f)),
     av_nfts = av_nfts v - nfts_of as \<rparr>"

lemma nfts_of_simps [simp]:
  "nfts_of [] = {}"
  "nfts_of (Fungible a # as) = nfts_of as"
  "nfts_of (NonFungible n # as) = insert n (nfts_of as)"
  by (auto simp: nfts_of_def)

lemma balance_none [simp]: "added_balance b None = b" "removed_balance b None = b"
  by (simp_all add: added_balance_def removed_balance_def)

lemma add_all_Nil [simp]: "add_all v [] = v"
  by (simp add: add_all_def)

lemma remove_all_Nil [simp]: "remove_all v [] = v"
  by (simp add: remove_all_def)

lemma amount_of_absent: "\<forall>b\<in>set as. \<not> is_same (Fungible a) b \<Longrightarrow> amount_of as (fa_faucet_id a) = None"
  by (induction as "fa_faucet_id a" rule: amount_of.induct) (auto simp: is_from_same_faucet_def)

lemma abs_add_Ok: "can_add v a \<Longrightarrow> \<exists>b. abs_add v a = (add_all v [a], Ok b)"
  by (cases a) (auto simp: add_all_def added_balance_def fun_eq_iff split: option.splits)

lemma abs_add_Err: "\<not> can_add v a \<Longrightarrow> \<exists>e. abs_add v a = (v, Err e)"
  by (cases a) (auto split: option.splits)

lemma abs_remove_Ok: "can_remove v a \<Longrightarrow> \<exists>b. abs_remove v a = (remove_all v [a], Ok b)"
  by (cases a) (auto simp: remove_all_def removed_balance_def fun_eq_iff split: option.splits)

lemma abs_remove_Err: "\<not> can_remove v a \<Longrightarrow> \<exists>e. abs_remove v a = (v, Err e)"
  by (cases a) (auto split: option.splits)

lemma can_add_frame: "\<not> is_same a b \<Longrightarrow> can_add (add_all v [a]) b = can_add v b"
  by (cases a; cases b) (auto simp: add_all_def is_from_same_faucet_def)

lemma can_remove_frame:
  "\<not> is_same a b \<Longrightarrow> can_remove (add_all v [a]) b = can_remove v b"
  "\<not> is_same a b \<Longrightarrow> can_remove (remove_all v [a]) b = can_remove v b"
  by (cases a; cases b; auto simp: add_all_def remove_all_def is_from_same_faucet_def)+

lemma add_all_Cons:
  assumes "\<forall>b\<in>set as. \<not> is_same a b"
  shows "add_all v (a # as) = add_all (add_all v [a]) as"
  using assms by (cases a) (simp_all add: add_all_def fun_eq_iff amount_of_absent)

lemma remove_all_Cons:
  assumes "\<forall>b\<in>set as. \<not> is_same a b"
  shows "remove_all v (a # as) = remove_all (remove_all v [a]) as"
  using assms by (cases a) (auto simp: remove_all_def fun_eq_iff amount_of_absent)

text \<open>
  A loop of updates that do not interfere: it succeeds exactly if every update is possible
  in the state before the loop.
\<close>

locale framed_updates =
  fixes step :: "'s \<Rightarrow> 'a \<Rightarrow> 's \<times> ('b, 'e) result"
    and can :: "'s \<Rightarrow> 'a \<Rightarrow> bool"
    and upd :: "'s \<Rightarrow> 'a list \<Rightarrow> 's"
    and same :: "'a \<Rightarrow> 'a \<Rightarrow> bool"
  assumes step_Ok: "can s a \<Longrightarrow> \<exists>b. step s a = (upd s [a], Ok b)"
    and step_Err: "\<not> can s a \<Longrightarrow> \<exists>e. step s a = (s, Err e)"
    and can_frame: "\<not> same a b \<Longrightarrow> can (upd s [a]) b = can s b"
    and upd_Nil: "upd s [] = s"
    and upd_Cons: "\<forall>b\<in>set as. \<not> same a b \<Longrightarrow> upd s (a # as) = upd (upd s [a]) as"
begin

lemma loop_result:
  "sorted_wrt (\<lambda>a b. \<not> same a b) as \<Longrightarrow>
   if list_all (can s) as then try_for step s as = (upd s as, Ok ())
   else \<exists>s' e. try_for step s as = (s', Err e)"
proof (induction as arbitrary: s)
  case (Cons a as)
  have frame: "list_all (can (upd s [a])) as = list_all (can s) as"
    using Cons.prems by (auto simp: list_all_iff can_frame)
  show ?case
  proof (cases "can s a")
    case True
    with Cons.prems Cons.IH [of "upd s [a]"] frame step_Ok [OF True] upd_Cons [of as a s]
    show ?thesis by auto
  next
    case False
    from step_Err [OF False] False show ?thesis by auto
  qed
qed (simp add: upd_Nil)

end

interpretation adding: framed_updates abs_add can_add add_all is_same
  by unfold_locales (auto simp: abs_add_Ok abs_add_Err can_add_frame intro: add_all_Cons)

interpretation removing: framed_updates abs_remove can_remove remove_all is_same
  by unfold_locales (auto simp: abs_remove_Ok abs_remove_Err can_remove_frame intro: remove_all_Cons)

definition vault_delta_applicable :: "abs_vault \<Rightarrow> vault_delta \<Rightarrow> bool" where
  "vault_delta_applicable v d \<longleftrightarrow>
     list_all (can_add v) (added_assets d) \<and> list_all (can_remove v) (removed_assets d)"

definition vault_delta_result :: "abs_vault \<Rightarrow> vault_delta \<Rightarrow> abs_vault" where
  "vault_delta_result v d = remove_all (add_all v (added_assets d)) (removed_assets d)"

lemma can_remove_add_all:
  assumes "\<forall>a\<in>set as. \<not> is_same a b"
  shows "can_remove (add_all v as) b = can_remove v b"
proof (cases b)
  case (Fungible x)
  have "amount_of as (fa_faucet_id x) = None"
    by (rule amount_of_absent) (use assms Fungible is_same_sym in blast)
  with Fungible show ?thesis by (simp add: add_all_def)
next
  case (NonFungible x)
  with assms show ?thesis by (auto simp: add_all_def nfts_of_def)
qed

section \<open>Accounts\<close>

record ('v, 's, 'm) account =
  acct_id :: account_id
  acct_vault :: "'v asset_vault"
  acct_storage :: "'s account_storage"
  acct_code :: "('m, 's) account_code"
  acct_nonce :: felt

definition account_new ::
    "account_id \<Rightarrow> 'v asset_vault \<Rightarrow> 's account_storage \<Rightarrow> ('m, 's) account_code \<Rightarrow> felt
       \<Rightarrow> ('v, 's, 'm) account" where
  "account_new i v st c n =
     \<lparr> acct_id = i, acct_vault = v, acct_storage = st, acct_code = c, acct_nonce = n \<rparr>"

definition hash_account :: "prims \<Rightarrow> account_id \<Rightarrow> felt \<Rightarrow> digest \<Rightarrow> digest \<Rightarrow> digest \<Rightarrow> digest" where
  "hash_account P i n vr sr cr = hash_elements P ([id_felt i, 0, 0, n] @ elements vr @ elements sr @ elements cr)"

definition account_hash :: "prims \<Rightarrow> 'v smt_ops \<Rightarrow> 's simple_smt_ops \<Rightarrow> ('v, 's, 'm) account \<Rightarrow> digest" where
  "account_hash P T S a = hash_account P (acct_id a) (acct_nonce a) (vault_commitment T (acct_vault a))
     (storage_root S (acct_storage a)) (code_root S (acct_code a))"

definition account_is_new :: "('v, 's, 'm) account \<Rightarrow> bool" where
  "account_is_new a \<longleftrightarrow> acct_nonce a = 0"

definition proof_init_hash :: "prims \<Rightarrow> 'v smt_ops \<Rightarrow> 's simple_smt_ops \<Rightarrow> ('v, 's, 'm) account \<Rightarrow> digest" where
  "proof_init_hash P T S a = (if account_is_new a then EMPTY_WORD else account_hash P T S a)"

definition account_account_type :: "('v, 's, 'm) account \<Rightarrow> account_type" where
  "account_account_type a = account_type (acct_id a)"

definition account_is_faucet :: "('v, 's, 'm) account \<Rightarrow> bool" where
  "account_is_faucet a = is_faucet (acct_id a)"

definition account_is_regular_account :: "('v, 's, 'm) account \<Rightarrow> bool" where
  "account_is_regular_account a = is_regular_account (acct_id a)"

definition account_is_on_chain :: "('v, 's, 'm) account \<Rightarrow> (bool, unit) result" where
  "account_is_on_chain a = is_on_chain (acct_id a)"

definition set_nonce :: "('v, 's, 'm) account \<Rightarrow> felt \<Rightarrow> ('v, 's, 'm) account \<times> (unit, account_error) result" where
  "set_nonce a n =
    (if acct_nonce a \<ge> n then (a, Err (NonceNotMonotonicallyIncreasing (acct_nonce a) n))
     else (a\<lparr> acct_nonce := n \<rparr>, Ok ()))"

definition apply_vault_delta ::
    "prims \<Rightarrow> 'v smt_ops \<Rightarrow> 'v asset_vault \<Rightarrow> vault_delta \<Rightarrow> 'v asset_vault \<times> (unit, account_error) result" where
  "apply_vault_delta P T v d =
    (case try_for (add_asset P T) v (added_assets d) of
       (v1, Ok _) \<Rightarrow> map_prod id (map_err AssetVaultUpdateError) (try_for (remove_asset P T) v1 (removed_assets d))
     | (v1, Err e) \<Rightarrow> (v1, Err (AssetVaultUpdateError e))
     | (v1, Panic m) \<Rightarrow> (v1, Panic m))"

definition account_apply_delta ::
    "prims \<Rightarrow> 'v smt_ops \<Rightarrow> 's simple_smt_ops \<Rightarrow> ('v, 's, 'm) account \<Rightarrow> account_delta
       \<Rightarrow> ('v, 's, 'm) account \<times> (unit, account_error) result" where
  "account_apply_delta P T S a d =
    (case apply_vault_delta P T (acct_vault a) (ad_vault d) of
       (v, Err e) \<Rightarrow> (a\<lparr> acct_vault := v \<rparr>, Err e)
     | (v, Panic m) \<Rightarrow> (a\<lparr> acct_vault := v \<rparr>, Panic m)
     | (v, Ok _) \<Rightarrow>
       (case storage_apply_delta S (acct_storage a) (ad_storage d) of
          (st, Err e) \<Rightarrow> (a\<lparr> acct_vault := v, acct_storage := st \<rparr>, Err e)
        | (st, Panic m) \<Rightarrow> (a\<lparr> acct_vault := v, acct_storage := st \<rparr>, Panic m)
        | (st, Ok _) \<Rightarrow>
          (let a' = a\<lparr> acct_vault := v, acct_storage := st \<rparr> in
           case ad_nonce d of None \<Rightarrow> (a', Ok ()) | Some n \<Rightarrow> set_nonce a' n)))"

definition write_account ::
    "prims \<Rightarrow> 'v smt_ops \<Rightarrow> 's simple_smt_ops \<Rightarrow> 'm asm_ops \<Rightarrow> ('v, 's, 'm) account \<Rightarrow> (u8 list, unit) result" where
  "write_account P T S A a =
     and_then (write_vault P T (acct_vault a)) (\<lambda>vault.
       Ok (write_account_id P (acct_id a) @ vault @ write_storage P S (acct_storage a)
         @ write_code P A (acct_code a) @ put_felt P (acct_nonce a)))"

definition read_account ::
    "prims \<Rightarrow> 'v smt_ops \<Rightarrow> 's simple_smt_ops \<Rightarrow> 'm asm_ops
       \<Rightarrow> (('v, 's, 'm) account, deserialization_error) reader" where
  "read_account P T S A bs =
     and_then (read_account_id P bs) (\<lambda>(i, bs1).
     and_then (read_vault P T bs1) (\<lambda>(v, bs2).
     and_then (read_storage P S bs2) (\<lambda>(st, bs3).
     and_then (read_code P S A bs3) (\<lambda>(c, bs4).
     and_then (get_felt P bs4) (\<lambda>(n, bs5).
       Ok (account_new i v st c n, bs5))))))"

section \<open>Account stubs\<close>

record account_stub =
  stub_id :: account_id
  stub_nonce :: felt
  stub_vault_root :: digest
  stub_storage_root :: digest
  stub_code_root :: digest

definition account_stub_new :: "account_id \<Rightarrow> felt \<Rightarrow> digest \<Rightarrow> digest \<Rightarrow> digest \<Rightarrow> account_stub" where
  "account_stub_new i n v s c =
     \<lparr> stub_id = i, stub_nonce = n, stub_vault_root = v, stub_storage_root = s, stub_code_root = c \<rparr>"

definition account_stub_hash :: "prims \<Rightarrow> account_stub \<Rightarrow> digest" where
  "account_stub_hash P s = hash_account P (stub_id s) (stub_nonce s) (stub_vault_root s)
     (stub_storage_root s) (stub_code_root s)"

definition account_to_stub :: "'v smt_ops \<Rightarrow> 's simple_smt_ops \<Rightarrow> ('v, 's, 'm) account \<Rightarrow> account_stub" where
  "account_to_stub T S a = \<lparr> stub_id = acct_id a, stub_nonce = acct_nonce a,
     stub_vault_root = vault_commitment T (acct_vault a),
     stub_storage_root = storage_root S (acct_storage a),
     stub_code_root = code_root S (acct_code a) \<rparr>"

section \<open>Account data\<close>

datatype auth_data = RpoFalcon512Seed "u8 list"

record ('v, 's, 'm) account_data =
  data_account :: "('v, 's, 'm) account"
  data_account_seed :: "word4 option"
  data_auth :: auth_data

fun write_auth_data :: "prims \<Rightarrow> auth_data \<Rightarrow> u8 list" where
  "write_auth_data P (RpoFalcon512Seed seed) = put_u8 P 0 @ write_many (put_u8 P) seed"

definition read_auth_data :: "prims \<Rightarrow> (auth_data, deserialization_error) reader" where
  "read_auth_data P bs =
     and_then (get_u8 P bs) (\<lambda>(scheme, bs1).
       if scheme = 0 then and_then (read_many 32 (get_u8 P) bs1) (\<lambda>(seed, bs2). Ok (RpoFalcon512Seed seed, bs2))
       else Err (InvalidValue (''Invalid value: '' @ show_nat (unat scheme))))"

definition write_account_data ::
    "prims \<Rightarrow> 'v smt_ops \<Rightarrow> 's simple_smt_ops \<Rightarrow> 'm asm_ops \<Rightarrow> ('v, 's, 'm) account_data
       \<Rightarrow> (u8 list, unit) result" where
  "write_account_data P T S A d =
     and_then (write_account P T S A (data_account d)) (\<lambda>acct.
       Ok (acct @ put_opt_word P (data_account_seed d) @ write_auth_data P (data_auth d)))"

definition read_account_data ::
    "prims \<Rightarrow> 'v smt_ops \<Rightarrow> 's simple_smt_ops \<Rightarrow> 'm asm_ops
       \<Rightarrow> (('v, 's, 'm) account_data, deserialization_error) reader" where
  "read_account_data P T S A bs =
     and_then (read_account P T S A bs) (\<lambda>(a, bs1).
     and_then (get_opt_word P bs1) (\<lambda>(seed, bs2).
     and_then (read_auth_data P bs2) (\<lambda>(auth, bs3).
       Ok (\<lparr> data_account = a, data_account_seed = seed, data_auth = auth \<rparr>, bs3))))"

section \<open>The effect of a delta\<close>

definition account_inv :: "prims \<Rightarrow> 'v smt_ops \<Rightarrow> 's simple_smt_ops \<Rightarrow> ('v, 's, 'm) account \<Rightarrow> bool" where
  "account_inv P T S a \<longleftrightarrow> account_id_ok P (acct_id a) \<and> vault_inv P T (acct_vault a) \<and>
     storage_inv P S (acct_storage a) \<and> code_inv P S (acct_code a) \<and> felt_ok P (acct_nonce a)"

definition account_delta_applicable ::
    "'v smt_ops \<Rightarrow> ('v, 's, 'm) account \<Rightarrow> account_delta \<Rightarrow> bool" where
  "account_delta_applicable T a d \<longleftrightarrow>
     vault_delta_applicable (vault_abs T (acct_vault a)) (ad_vault d) \<and>
     list_all (slot_mutable (acct_storage a)) (cleared_items (ad_storage d) @ map fst (updated_items (ad_storage d))) \<and>
     pred_option (\<lambda>n. acct_nonce a < n) (ad_nonce d)"

locale account_spec = vault_spec P T + storage_spec P S
  for P :: prims and T :: "'v smt_ops" and S :: "'s simple_smt_ops"
begin

lemma apply_vault_delta_result:
  assumes "vault_inv P T v" "no_same (added_assets d @ removed_assets d)"
    "list_all (asset_ok P) (added_assets d @ removed_assets d)" "apply_vault_delta P T v d = (v', r)"
  shows "vault_inv P T v' \<and>
    (if vault_delta_applicable (vault_abs T v) d
     then r = Ok () \<and> vault_abs T v' = vault_delta_result (vault_abs T v) d
     else \<exists>e. r = Err e)"
proof -
  have ns: "no_same (added_assets d)" "no_same (removed_assets d)"
    using assms(2) by (auto simp: sorted_wrt_append)
  obtain v1 r1 where v1: "try_for (add_asset P T) v (added_assets d) = (v1, r1)" by fastforce
  obtain v2 r2 where v2: "try_for (remove_asset P T) v1 (removed_assets d) = (v2, r2)" by fastforce
  have abs1: "vault_inv P T v1" "try_for abs_add (vault_abs T v) (added_assets d) = (vault_abs T v1, r1)"
    using vault.add_all_refines [OF assms(1) _ v1] assms(3) by auto
  have abs2: "vault_inv P T v2" "try_for abs_remove (vault_abs T v1) (removed_assets d) = (vault_abs T v2, r2)"
    using vault.rem_all_refines [OF abs1(1) _ v2] assms(3) by auto
  show ?thesis
  proof (cases "list_all (can_add (vault_abs T v)) (added_assets d)")
    case True
    then have r1: "r1 = Ok ()" "vault_abs T v1 = add_all (vault_abs T v) (added_assets d)"
      using adding.loop_result [OF ns(1), of "vault_abs T v"] abs1(2) by auto
    have "can_remove (vault_abs T v1) b = can_remove (vault_abs T v) b" if "b \<in> set (removed_assets d)" for b
      unfolding r1(2) using that assms(2) by (intro can_remove_add_all) (auto simp: sorted_wrt_append)
    then have "list_all (can_remove (vault_abs T v1)) (removed_assets d)
        = list_all (can_remove (vault_abs T v)) (removed_assets d)" by (auto simp: list_all_iff)
    with True r1 abs2 v1 v2 assms(4) removing.loop_result [OF ns(2), of "vault_abs T v1"] show ?thesis
      by (auto simp: apply_vault_delta_def vault_delta_applicable_def vault_delta_result_def split: if_splits)
  next
    case False
    then obtain e where "r1 = Err e"
      using adding.loop_result [OF ns(1), of "vault_abs T v"] abs1(2) by auto
    with False abs1(1) v1 assms(4) show ?thesis
      by (auto simp: apply_vault_delta_def vault_delta_applicable_def)
  qed
qed

text \<open>The stub of a well-formed account is determined by its contents.\<close>

lemma account_stub_abs:
  assumes "account_inv P T S a" "account_inv P T S b" "vault_abs T (acct_vault a) = vault_abs T (acct_vault b)"
    "slots_abs S (acct_storage a) = slots_abs S (acct_storage b)" "acct_nonce a = acct_nonce b" "acct_id a = acct_id b"
    "code_root S (acct_code a) = code_root S (acct_code b)"
  shows "account_to_stub T S a = account_to_stub T S b"
  using assms vault_commitment_abs [of "acct_vault a" "acct_vault b"] storage_root_ext [OF assms(4)]
  by (simp add: account_to_stub_def account_inv_def)

lemma account_apply_delta_result:
  assumes inv: "account_inv P T S a" and "account_delta_valid d" "account_delta_canonical P d"
    and app: "account_apply_delta P T S a d = (a', r)"
  shows "account_inv P T S a' \<and> acct_id a' = acct_id a \<and> acct_code a' = acct_code a \<and>
    (if account_delta_applicable T a d
     then r = Ok () \<and> vault_abs T (acct_vault a') = vault_delta_result (vault_abs T (acct_vault a)) (ad_vault d) \<and>
       layout (acct_storage a') = layout (acct_storage a) \<and>
       slots_abs S (acct_storage a') = delta_slots (ad_storage d) (slots_abs S (acct_storage a)) \<and>
       acct_nonce a' = (case ad_nonce d of None \<Rightarrow> acct_nonce a | Some n \<Rightarrow> n)
     else \<exists>e. r = Err e)"
proof -
  obtain v rv where v: "apply_vault_delta P T (acct_vault a) (ad_vault d) = (v, rv)" by fastforce
  obtain st rs where st: "storage_apply_delta S (acct_storage a) (ad_storage d) = (st, rs)" by fastforce
  have vi: "vault_inv P T v \<and> (if vault_delta_applicable (vault_abs T (acct_vault a)) (ad_vault d)
     then rv = Ok () \<and> vault_abs T v = vault_delta_result (vault_abs T (acct_vault a)) (ad_vault d) else \<exists>e. rv = Err e)"
    using assms(1-3) by (intro apply_vault_delta_result [OF _ _ _ v])
      (auto simp: account_inv_def account_delta_valid_def vault_delta_valid_def account_delta_canonical_def)
  have "storage_inv P S st"
    using assms(1,3) by (intro storage_apply_delta_inv [OF _ _ st]) (auto simp: account_inv_def account_delta_canonical_def)
  moreover have si: "if list_all (slot_mutable (acct_storage a)) (cleared_items (ad_storage d) @ map fst (updated_items (ad_storage d)))
     then rs = Ok () \<and> layout st = layout (acct_storage a) \<and>
       slots_abs S st = delta_slots (ad_storage d) (slots_abs S (acct_storage a)) else \<exists>e. rs = Err e"
    using storage_apply_delta_cases [of "acct_storage a" "ad_storage d"] st assms(1,2)
    by (auto simp: account_inv_def storage_inv_def account_delta_valid_def split: if_splits)
  ultimately have inv': "account_inv P T S (a\<lparr> acct_vault := v \<rparr>)" "account_inv P T S (a\<lparr> acct_vault := v, acct_storage := st \<rparr>)"
    "felt_ok P n \<Longrightarrow> account_inv P T S (a\<lparr> acct_vault := v, acct_storage := st, acct_nonce := n \<rparr>)" for n
    using inv vi by (simp_all add: account_inv_def)
  consider (vault) e where "rv = Err e" "\<not> account_delta_applicable T a d"
    | (storage) e where "rv = Ok ()" "rs = Err e" "\<not> account_delta_applicable T a d"
    | (both) "rv = Ok ()" "rs = Ok ()"
        "account_delta_applicable T a d \<longleftrightarrow> pred_option (\<lambda>n. acct_nonce a < n) (ad_nonce d)"
    using vi si by (auto simp: account_delta_applicable_def split: if_splits)
  then show ?thesis
  proof cases
    case both
    then have "vault_abs T v = vault_delta_result (vault_abs T (acct_vault a)) (ad_vault d)"
      "layout st = layout (acct_storage a)" "slots_abs S st = delta_slots (ad_storage d) (slots_abs S (acct_storage a))"
      using vi si by (auto split: if_splits)
    moreover have "pred_option (felt_ok P) (ad_nonce d)" using assms(3) by (simp add: account_delta_canonical_def)
    moreover have "(a', r) = (case ad_nonce d of None \<Rightarrow> (a\<lparr> acct_vault := v, acct_storage := st \<rparr>, Ok ())
        | Some n \<Rightarrow> set_nonce (a\<lparr> acct_vault := v, acct_storage := st \<rparr>) n)"
      using app v st both by (simp add: account_apply_delta_def Let_def)
    ultimately show ?thesis using inv' both(3) by (cases "ad_nonce d") (auto simp: set_nonce_def not_less split: if_splits)
  qed (use app v st inv' in \<open>auto simp: account_apply_delta_def\<close>)
qed

end

section \<open>Serialization\<close>

text \<open>Two accounts with the same identifier, nonce, vault contents, slots, layout and procedures.\<close>

definition account_same :: "'v smt_ops \<Rightarrow> 's simple_smt_ops \<Rightarrow> ('v, 's, 'm) account \<Rightarrow> ('v, 's, 'm) account \<Rightarrow> bool" where
  "account_same T S a b \<longleftrightarrow> acct_id a = acct_id b \<and> acct_nonce a = acct_nonce b \<and>
     vault_abs T (acct_vault a) = vault_abs T (acct_vault b) \<and>
     layout (acct_storage a) = layout (acct_storage b) \<and>
     slots_abs S (acct_storage a) = slots_abs S (acct_storage b) \<and>
     procedures (acct_code a) = procedures (acct_code b)"

locale account_io_spec = vault_io_spec P T + code_spec P S A
  for P :: prims and T :: "'v smt_ops" and S :: "'s simple_smt_ops" and A :: "'m asm_ops"
begin

lemma read_write_account:
  assumes inv: "account_inv P T S a" and cf: "complex_filled S (acct_storage a)"
    and wr: "write_account P T S A a = Ok bs"
  obtains a' where "read_account P T S A (bs @ rest) = Ok (a', rest)" "account_same T S a' a"
    "account_hash P T S a' = account_hash P T S a"
proof -
  obtain vb where vb: "write_vault P T (acct_vault a) = Ok vb"
    "bs = write_account_id P (acct_id a) @ vb @ write_storage P S (acct_storage a)
       @ write_code P A (acct_code a) @ put_felt P (acct_nonce a)"
    using wr by (auto simp: write_account_def res_simps)
  let ?r2 = "put_felt P (acct_nonce a) @ rest"
  let ?r1 = "write_code P A (acct_code a) @ ?r2"
  have ok: "vault_inv P T (acct_vault a)" "storage_inv P S (acct_storage a)" "code_inv P S (acct_code a)"
    "account_id_ok P (acct_id a)" "felt_ok P (acct_nonce a)"
    using inv by (simp_all add: account_inv_def)
  obtain v where v: "read_vault P T (vb @ write_storage P S (acct_storage a) @ ?r1)
      = Ok (v, write_storage P S (acct_storage a) @ ?r1)"
    and get: "\<And>k. smt_get T (asset_tree v) k = smt_get T (asset_tree (acct_vault a)) k"
    using read_write_vault [OF ok(1) vb(1)] by blast
  obtain st where st: "read_storage P S (write_storage P S (acct_storage a) @ ?r1) = Ok (st, ?r1)"
    "layout st = layout (acct_storage a)" "slots_abs S st = slots_abs S (acct_storage a)"
    "storage_root S st = storage_root S (acct_storage a)"
    using read_write_storage_filled [OF ok(2) cf] by blast
  obtain c where c: "read_code P S A ?r1 = Ok (c, ?r2)" "procedures c = procedures (acct_code a)"
    "code_root S c = code_root S (acct_code a)"
    by (rule read_write_code [OF ok(3)])
  have "read_account P T S A (bs @ rest) = Ok (account_new (acct_id a) v st c (acct_nonce a), rest)"
    using ok(4,5) v st(1) c(1) by (simp add: read_account_def vb(2) c_account_id.rd_wr get_put_felt)
  then show thesis
    using st c vault_abs_ext [OF get] vault_commitment_ext [OF get]
    by (intro that [of "account_new (acct_id a) v st c (acct_nonce a)"])
      (simp_all add: account_new_def account_same_def account_hash_def)
qed

lemma read_write_auth_data:
  "length seed = 32 \<Longrightarrow> read_auth_data P (write_auth_data P (RpoFalcon512Seed seed) @ rest) = Ok (RpoFalcon512Seed seed, rest)"
  using c_u8.read_many_write_many [of seed 32 rest]
  by (simp add: read_auth_data_def get_put_u8 list_all_iff del: read_many.simps)

lemma read_write_account_data:
  assumes "account_inv P T S (data_account d)" "complex_filled S (acct_storage (data_account d))"
    "pred_option (word_ok P) (data_account_seed d)" "data_auth d = RpoFalcon512Seed seed" "length seed = 32"
    "write_account_data P T S A d = Ok bs"
  obtains d' where "read_account_data P T S A (bs @ rest) = Ok (d', rest)"
    "account_same T S (data_account d') (data_account d)"
    "account_hash P T S (data_account d') = account_hash P T S (data_account d)"
    "data_account_seed d' = data_account_seed d" "data_auth d' = data_auth d"
proof -
  obtain ab where ab: "write_account P T S A (data_account d) = Ok ab"
    "bs = ab @ put_opt_word P (data_account_seed d) @ write_auth_data P (data_auth d)"
    using assms(6) by (auto simp: write_account_data_def res_simps)
  obtain a where a: "read_account P T S A (ab @ put_opt_word P (data_account_seed d) @ write_auth_data P (data_auth d) @ rest)
      = Ok (a, put_opt_word P (data_account_seed d) @ write_auth_data P (data_auth d) @ rest)"
    "account_same T S a (data_account d)" "account_hash P T S a = account_hash P T S (data_account d)"
    by (rule read_write_account [OF assms(1,2) ab(1)])
  then have "read_account_data P T S A (bs @ rest) =
      Ok (\<lparr> data_account = a, data_account_seed = data_account_seed d, data_auth = data_auth d \<rparr>, rest)"
    using read_write_auth_data [OF assms(5)]
    by (simp add: read_account_data_def ab(2) get_put_opt_word [OF assms(3)] assms(4) del: write_auth_data.simps)
  from that [OF this] a show thesis by simp
qed

end

interpretation sample_account_laws: account_spec sample_prims sample_smt "sample_ssmt 8"
  by unfold_locales

interpretation sample_account_io_laws: account_io_spec sample_prims sample_smt "sample_ssmt 8" sample_asm
  by unfold_locales

section \<open>Properties\<close>

type_synonym sample_account_type =
  "((digest \<times> word4) list, (u64 \<times> word4) list, digest list) account"

definition sample_account :: "word4 \<Rightarrow> sample_account_type" where
  "sample_account w = account_new sample_faucet sample_vault (sample_storage w) (sample_code [W 1 2 3 4]) 3"

lemma sample_account_inv:
  assumes "word_ok sample_prims w"
  shows "account_inv sample_prims sample_smt (sample_ssmt 8) (sample_account w)"
proof -
  have "account_id_ok sample_prims sample_faucet"
    using sample_assets_ok(1) by (simp add: sample_coin_def fungible_ok_def)
  then show ?thesis
    by (simp add: account_inv_def sample_account_def account_new_def sample_vault_inv sample_storage_inv [OF assms]
        sample_code_inv sample_felt_ok)
qed

text \<open>
  C4. Applying a delta to an account.  A valid delta is applied exactly if every added asset
  fits, every removed asset is there, every slot is writable and the nonce grows; the vault
  contents, the slots and the nonce are then those the delta prescribes.  Otherwise the
  result is an error.  Identifier, code and well-formedness are kept in every case.
\<close>

theorem account_apply_delta_effect:
  assumes "account_spec P T S" "account_inv P T S a" "account_delta_valid d" "account_delta_canonical P d"
  shows "case account_apply_delta P T S a d of (a', r) \<Rightarrow>
    account_inv P T S a' \<and> acct_id a' = acct_id a \<and> acct_code a' = acct_code a \<and>
    (if account_delta_applicable T a d
     then r = Ok () \<and> vault_abs T (acct_vault a') = vault_delta_result (vault_abs T (acct_vault a)) (ad_vault d) \<and>
       layout (acct_storage a') = layout (acct_storage a) \<and>
       slots_abs S (acct_storage a') = delta_slots (ad_storage d) (slots_abs S (acct_storage a)) \<and>
       acct_nonce a' = (case ad_nonce d of None \<Rightarrow> acct_nonce a | Some n \<Rightarrow> n)
     else \<exists>e. r = Err e)"
proof -
  obtain a' r where app: "account_apply_delta P T S a d = (a', r)" by fastforce
  from account_spec.account_apply_delta_result [OF assms app] show ?thesis unfolding app split .
qed

theorem account_apply_delta_effect_witness:
  "snd (account_apply_delta sample_prims sample_smt (sample_ssmt 8) (sample_account EMPTY_WORD) sample_delta) = Ok ()"
proof -
  have "word_ok sample_prims EMPTY_WORD" by (simp add: sample_felt_ok)
  note inv = sample_account_inv [OF this]
  have "account_delta_applicable sample_smt (sample_account EMPTY_WORD) sample_delta"
    by (simp add: account_delta_applicable_def vault_delta_applicable_def sample_delta_def sample_account_def
        account_new_def sample_storage_mutable sample_nft_def sample_coin_def vault_abs_def sample_smt_def
        sample_vault_def sample_faucet_def account_type_def account_type_of_bits)
  with account_apply_delta_effect [OF sample_account_laws.account_spec_axioms inv sample_delta_valid]
  show ?thesis by (simp add: split_beta)
qed

text \<open>
  C22. The nonce never decreases.  Applying a valid delta, whether or not it succeeds, does not
  lower the nonce, and a delta that is not empty and is applied raises it.
\<close>

theorem nonce_monotone:
  assumes "account_delta_valid d" "account_apply_delta P T S a d = (a', r)"
  shows "acct_nonce a \<le> acct_nonce a' \<and> (r = Ok () \<and> \<not> account_delta_is_empty d \<longrightarrow> acct_nonce a < acct_nonce a')"
proof -
  have "ad_nonce d \<noteq> None" if "\<not> account_delta_is_empty d"
    using assms(1) that by (auto simp: account_delta_valid_def account_delta_is_empty_def nonce_valid_def split: if_splits)
  with assms(2) show ?thesis
    by (auto simp: account_apply_delta_def set_nonce_def Let_def not_le order.strict_implies_order
        split: prod.splits result.splits option.splits if_splits)
qed

theorem nonce_monotone_witness:
  "acct_nonce (sample_account EMPTY_WORD) \<le> acct_nonce (fst (account_apply_delta sample_prims sample_smt (sample_ssmt 8)
     (sample_account EMPTY_WORD) sample_delta))"
  using nonce_monotone [OF sample_delta_valid(1), of sample_prims sample_smt "sample_ssmt 8" "sample_account EMPTY_WORD"]
  by (metis prod.collapse)

text \<open>
  C33. Reading back written account data.  Take data of a well-formed account in which every slot with a
  type other than the default holds a value, with a secret seed of 32 bytes, and suppose that it was written
  without a panic.  The account is read back with the same identifier, nonce, vault contents, slots, layout
  and procedures, hence with the same hash, and the seed and the authentication data are unchanged.
\<close>

theorem account_data_round_trip:
  assumes "account_io_spec P T S A" "account_inv P T S (data_account d)" "complex_filled S (acct_storage (data_account d))"
    "pred_option (word_ok P) (data_account_seed d)" "data_auth d = RpoFalcon512Seed seed" "length seed = 32"
    "write_account_data P T S A d = Ok bs"
  shows "\<exists>d'. read_account_data P T S A (bs @ rest) = Ok (d', rest) \<and>
    account_same T S (data_account d') (data_account d) \<and>
    account_hash P T S (data_account d') = account_hash P T S (data_account d) \<and>
    data_account_seed d' = data_account_seed d \<and> data_auth d' = data_auth d"
  using account_io_spec.read_write_account_data [OF assms, of rest] by blast

theorem account_data_round_trip_witness:
  "\<exists>d bs d'. data_account_seed d = Some (W 1 0 0 0) \<and>
     write_account_data sample_prims sample_smt (sample_ssmt 8) sample_asm d = Ok bs \<and>
     read_account_data sample_prims sample_smt (sample_ssmt 8) sample_asm (bs @ []) = Ok (d', []) \<and>
     account_hash sample_prims sample_smt (sample_ssmt 8) (data_account d')
       = account_hash sample_prims sample_smt (sample_ssmt 8) (data_account d)"
proof -
  let ?d = "\<lparr> data_account = sample_account (W 5 6 7 8), data_account_seed = Some (W 1 0 0 0),
     data_auth = RpoFalcon512Seed (replicate 32 0) \<rparr>"
  have "word_ok sample_prims (W 5 6 7 8)" by (simp add: sample_felt_ok)
  from sample_account_inv [OF this] have inv: "account_inv sample_prims sample_smt (sample_ssmt 8) (data_account ?d)" by simp
  have cf: "complex_filled (sample_ssmt 8) (acct_storage (data_account ?d))"
    by (simp add: complex_filled_def sample_account_def account_new_def sample_storage_abs sample_storage_layout_nth)
  obtain bs where wr: "write_account_data sample_prims sample_smt (sample_ssmt 8) sample_asm ?d = Ok bs"
    by (simp add: write_account_data_def write_account_def sample_account_def account_new_def write_vault_def
        vault_assets_def sample_smt_def sample_vault_def)
  have "pred_option (word_ok sample_prims) (data_account_seed ?d)" by (simp add: sample_felt_ok)
  from account_data_round_trip [OF sample_account_io_laws.account_io_spec_axioms inv cf this _ _ wr, of "replicate 32 0" "[]"] wr
  show ?thesis by (intro exI [of _ ?d]) auto
qed

end
