(* ===== verification/Note_Metadata.thy ===== *)
theory Note_Metadata
  imports Account_Id
begin

text \<open>
  Note types, note tags and note metadata (\<open>objects/src/notes/note_type.rs\<close>, \<open>note_tag.rs\<close>,
  \<open>metadata.rs\<close>).
\<close>

section \<open>Note types\<close>

definition PUBLIC :: u8 where
  "PUBLIC = 0b01"

definition OFF_CHAIN_NOTE :: u8 where
  "OFF_CHAIN_NOTE = 0b10"

definition ENCRYPTED :: u8 where
  "ENCRYPTED = 0b11"

lemmas note_type_consts = PUBLIC_def OFF_CHAIN_NOTE_def ENCRYPTED_def

text \<open>The discriminant, \<open>note_type as u8\<close>.\<close>

fun note_type_u8 :: "note_type \<Rightarrow> u8" where
  "note_type_u8 OffChainNote = OFF_CHAIN_NOTE"
| "note_type_u8 Encrypted = ENCRYPTED"
| "note_type_u8 Public = PUBLIC"

definition note_type_to_felt :: "prims \<Rightarrow> note_type \<Rightarrow> felt" where
  "note_type_to_felt P t = felt_new P (ucast (note_type_u8 t))"

definition note_type_try_from_u8 :: "u8 \<Rightarrow> (note_type, note_error) result" where
  "note_type_try_from_u8 value =
    (if value = OFF_CHAIN_NOTE then Ok OffChainNote
     else if value = ENCRYPTED then Ok Encrypted
     else if value = PUBLIC then Ok Public
     else Err (InvalidNoteTypeValue (ucast value)))"

definition note_type_try_from_u64 :: "u64 \<Rightarrow> (note_type, note_error) result" where
  "note_type_try_from_u64 value =
     and_then (ok_or (InvalidNoteTypeValue value) (try_into_u8 value)) note_type_try_from_u8"

definition note_type_try_from_u16 :: "u16 \<Rightarrow> (note_type, note_error) result" where
  "note_type_try_from_u16 value = note_type_try_from_u64 (ucast value)"

definition note_type_try_from_u32 :: "u32 \<Rightarrow> (note_type, note_error) result" where
  "note_type_try_from_u32 value = note_type_try_from_u64 (ucast value)"

definition note_type_try_from_felt :: "felt \<Rightarrow> (note_type, note_error) result" where
  "note_type_try_from_felt value = note_type_try_from_u64 value"

definition write_note_type :: "prims \<Rightarrow> note_type \<Rightarrow> u8 list" where
  "write_note_type P t = put_u8 P (note_type_u8 t)"

definition read_note_type :: "prims \<Rightarrow> (note_type, deserialization_error) reader" where
  "read_note_type P bs = and_then (get_u8 P bs) (\<lambda>(v, bs').
     if v = OFF_CHAIN_NOTE then Ok (OffChainNote, bs')
     else if v = ENCRYPTED then Ok (Encrypted, bs')
     else if v = PUBLIC then Ok (Public, bs')
     else Err (InvalidValue (''Value '' @ show_nat (unat v) @ '' is not a valid NoteType'')))"

section \<open>Note tags\<close>

datatype note_execution_mode = Network | Local

datatype note_tag = NoteTag (tag_inner: u32)

definition note_tag_from_account_id :: "account_id \<Rightarrow> note_execution_mode \<Rightarrow> (note_tag, note_error) result" where
  "note_tag_from_account_id i execution =
    (case execution of
       Local \<Rightarrow>
         let high_bits = id_felt i AND 0xffff000000000000 in Ok (NoteTag (ucast (drop_bit 34 high_bits)))
     | Network \<Rightarrow>
         and_then (is_on_chain i) (\<lambda>on_chain.
           if \<not> on_chain then Err NetworkExecutionRequiresOnChainAccount
           else
             let high_bits = id_felt i AND 0xfffffffc00000000;
                 tag = ucast (drop_bit 34 high_bits) in
             Ok (NoteTag (tag OR 0x80000000))))"

definition is_single_target :: "note_tag \<Rightarrow> bool" where
  "is_single_target t \<longleftrightarrow> drop_bit 30 (tag_inner t) = 0b00 \<or> drop_bit 29 (tag_inner t) = 0b100"

definition execution_mode :: "note_tag \<Rightarrow> note_execution_mode" where
  "execution_mode t =
    (if drop_bit 31 (tag_inner t) = 0 \<or> drop_bit 29 (tag_inner t) = 0b101 then Local else Network)"

definition note_tag_validate :: "note_tag \<Rightarrow> note_type \<Rightarrow> (note_tag, note_error) result" where
  "note_tag_validate t ty =
    (let tag_mask = (ucast (note_type_u8 ty) :: u32) in
     if drop_bit 30 (tag_inner t) AND tag_mask \<noteq> 0 then Err (InconsistentNoteTag ty (ucast (tag_inner t)))
     else Ok t)"

definition note_tag_try_from_u64 :: "u64 \<Rightarrow> note_tag option" where
  "note_tag_try_from_u64 value = map_option NoteTag (try_into_u32 value)"

definition note_tag_to_felt :: "prims \<Rightarrow> note_tag \<Rightarrow> felt" where
  "note_tag_to_felt P t = felt_new P (ucast (tag_inner t))"

definition write_note_tag :: "prims \<Rightarrow> note_tag \<Rightarrow> u8 list" where
  "write_note_tag P t = put_u32 P (tag_inner t)"

definition read_note_tag :: "prims \<Rightarrow> (note_tag, deserialization_error) reader" where
  "read_note_tag P bs = and_then (get_u32 P bs) (\<lambda>(tag, bs'). Ok (NoteTag tag, bs'))"

section \<open>Note metadata\<close>

record note_metadata =
  md_sender :: account_id
  md_note_type :: note_type
  md_tag :: note_tag
  md_aux :: felt

definition note_metadata_new ::
    "account_id \<Rightarrow> note_type \<Rightarrow> note_tag \<Rightarrow> felt \<Rightarrow> (note_metadata, note_error) result" where
  "note_metadata_new s ty t a =
     and_then (note_tag_validate t ty) (\<lambda>t.
       Ok \<lparr> md_sender = s, md_note_type = ty, md_tag = t, md_aux = a \<rparr>)"

definition note_metadata_to_word :: "prims \<Rightarrow> note_metadata \<Rightarrow> word4" where
  "note_metadata_to_word P m = W (note_tag_to_felt P (md_tag m)) (id_felt (md_sender m))
     (note_type_to_felt P (md_note_type m)) (md_aux m)"

fun note_metadata_try_from_word :: "word4 \<Rightarrow> (note_metadata, note_error) result" where
  "note_metadata_try_from_word (W e0 e1 e2 e3) =
     and_then (map_err InvalidNoteSender (try_from_felt e1)) (\<lambda>s.
     and_then (note_type_try_from_felt e2) (\<lambda>ty.
     and_then (ok_or (InconsistentNoteTag ty e0) (try_into_u32 e0)) (\<lambda>tag.
       note_metadata_new s ty (NoteTag tag) e3)))"

definition write_note_metadata :: "prims \<Rightarrow> note_metadata \<Rightarrow> u8 list" where
  "write_note_metadata P m = write_account_id P (md_sender m) @ write_note_type P (md_note_type m)
     @ write_note_tag P (md_tag m) @ put_felt P (md_aux m)"

definition read_note_metadata :: "prims \<Rightarrow> (note_metadata, deserialization_error) reader" where
  "read_note_metadata P bs =
     and_then (read_account_id P bs) (\<lambda>(s, bs1).
     and_then (read_note_type P bs1) (\<lambda>(ty, bs2).
     and_then (read_note_tag P bs2) (\<lambda>(t, bs3).
     and_then (get_felt P bs3) (\<lambda>(a, bs4).
     and_then (map_err (\<lambda>e. InvalidValue (show_note_error P e)) (note_metadata_new s ty t a)) (\<lambda>m.
       Ok (m, bs4))))))"

section \<open>Tag rules\<close>

text \<open>The two highest bits of a tag must not overlap the note type.\<close>

fun tag_type_ok :: "note_tag \<Rightarrow> note_type \<Rightarrow> bool" where
  "tag_type_ok (NoteTag t) Public \<longleftrightarrow> \<not> bit t 30"
| "tag_type_ok (NoteTag t) OffChainNote \<longleftrightarrow> \<not> bit t 31"
| "tag_type_ok (NoteTag t) Encrypted \<longleftrightarrow> \<not> bit t 30 \<and> \<not> bit t 31"

lemma drop_bit_30: "drop_bit 30 t = of_bool (bit t 30) + 2 * of_bool (bit t 31)" for t :: u32
proof -
  have "drop_bit 30 t = take_bit 2 (drop_bit 30 t)"
    by (rule bit_word_eqI) (auto simp: bit_simps dest: bit_imp_le_length)
  also have "\<dots> = of_bool (bit t 30) + 2 * of_bool (bit t 31)" by (simp add: take_bit_two bit_drop_bit_eq)
  finally show ?thesis .
qed

lemma note_tag_validate_Ok: "note_tag_validate t ty = Ok t' \<longleftrightarrow> t' = t \<and> tag_type_ok t ty"
  by (cases t; cases ty; cases "bit (tag_inner t) 30"; cases "bit (tag_inner t) 31")
    (auto simp: note_tag_validate_def note_type_consts Let_def drop_bit_30)

lemma note_metadata_new_Ok:
  "note_metadata_new s ty t a = Ok m \<longleftrightarrow>
     m = \<lparr> md_sender = s, md_note_type = ty, md_tag = t, md_aux = a \<rparr> \<and> tag_type_ok t ty"
  by (auto simp: note_metadata_new_def res_simps note_tag_validate_Ok)

definition metadata_ok :: "prims \<Rightarrow> note_metadata \<Rightarrow> bool" where
  "metadata_ok P m \<longleftrightarrow> account_id_ok P (md_sender m) \<and> tag_type_ok (md_tag m) (md_note_type m) \<and> felt_ok P (md_aux m)"

lemma note_type_u64_round_trip: "note_type_try_from_u64 (ucast (note_type_u8 t)) = Ok t"
  by (cases t) (simp_all add: note_type_try_from_u64_def try_into_u8_def note_type_try_from_u8_def note_type_consts)

lemma note_type_try_from_u64_Ok: "note_type_try_from_u64 v = Ok t \<Longrightarrow> v = ucast (note_type_u8 t)"
  by (auto simp: note_type_try_from_u64_def try_into_u8_def note_type_try_from_u8_def res_simps word_unat_eq_iff
      note_type_consts unsigned_ucast_eq take_bit_nat_eq_self split: if_splits)

context felt_spec
begin

lemma felt_new_u32: "felt_new P (ucast (x :: u32)) = ucast x"
  using unsigned_less [of x, where 'a = nat]
  by (intro felt_new_id felt_ok_63_bits) (simp add: unsigned_ucast_eq take_bit_nat_eq_self)

lemma felt_new_note_type: "felt_new P (ucast (note_type_u8 t)) = ucast (note_type_u8 t)"
  using unat_u8_less [of "note_type_u8 t"] by (intro felt_new_id felt_ok_63_bits) simp

lemma metadata_word_round_trip:
  "metadata_ok P m \<Longrightarrow> note_metadata_try_from_word (note_metadata_to_word P m) = Ok m"
  by (cases "md_tag m") (auto simp: note_metadata_to_word_def metadata_ok_def account_id_ok_def try_from_felt_valid
      note_type_to_felt_def felt_new_note_type note_type_try_from_felt_def note_type_u64_round_trip
      note_tag_to_felt_def felt_new_u32 try_into_u32_ucast note_metadata_new_Ok)

lemma metadata_word_canonical:
  assumes "note_metadata_try_from_word w = Ok m" "word_ok P w"
  shows "metadata_ok P m \<and> note_metadata_to_word P m = w"
  using assms by (cases w)
    (auto simp: res_simps try_from_felt_eq_Ok note_metadata_new_Ok note_metadata_to_word_def metadata_ok_def
      account_id_ok_def note_type_to_felt_def note_type_try_from_felt_def felt_new_note_type note_tag_to_felt_def
      felt_new_u32 dest!: note_type_try_from_u64_Ok try_into_u32_Some)

end

context io_spec
begin

lemma read_write_note_type: "read_note_type P (write_note_type P t @ bs) = Ok (t, bs)"
  by (cases t) (simp_all add: read_note_type_def write_note_type_def get_put_u8 note_type_consts)

lemma read_write_note_tag: "read_note_tag P (write_note_tag P t @ bs) = Ok (t, bs)"
  by (simp add: read_note_tag_def write_note_tag_def get_put_u32)

lemma read_write_note_metadata:
  "metadata_ok P m \<Longrightarrow> read_note_metadata P (write_note_metadata P m @ bs) = Ok (m, bs)"
  by (simp add: read_note_metadata_def write_note_metadata_def metadata_ok_def read_write_account_id
      read_write_note_type read_write_note_tag get_put_felt note_metadata_new_Ok [THEN iffD2])

lemma read_note_metadata_ok: "read_note_metadata P bs = Ok (m, bs') \<Longrightarrow> metadata_ok P m"
  by (auto simp: read_note_metadata_def res_simps metadata_ok_def note_metadata_new_Ok
      dest: read_account_id_ok get_felt_ok)

end

sublocale io_spec \<subseteq> c_note_metadata: codec "write_note_metadata P" "read_note_metadata P" "metadata_ok P"
  by unfold_locales (rule read_write_note_metadata)

section \<open>Tags of accounts\<close>

lemma drop_bit_31: "drop_bit 31 t = of_bool (bit t 31)" for t :: u32
proof -
  have "drop_bit 31 t = drop_bit 1 (drop_bit 30 t)" by (simp only: drop_bit_drop_bit) simp
  then show ?thesis by (cases "bit t 30"; cases "bit t 31") (simp_all add: drop_bit_30)
qed

lemma drop_bit_29: "drop_bit 29 t = of_bool (bit t 29) + 2 * (of_bool (bit t 30) + 2 * of_bool (bit t 31))" for t :: u32
proof -
  have "drop_bit 29 t = take_bit 3 (drop_bit 29 t)"
    by (rule bit_word_eqI) (auto simp: bit_simps dest: bit_imp_le_length)
  also have "\<dots> = of_bool (bit (drop_bit 29 t) 0) + 2 * (of_bool (bit (drop_bit 29 t) 1) + 2 * of_bool (bit (drop_bit 29 t) 2))"
    by (simp add: numeral_3_eq_3 numeral_2_eq_2 take_bit_Suc bit_0 bit_Suc odd_iff_mod_2_eq_one)
  finally show ?thesis by (simp add: bit_drop_bit_eq)
qed

lemma note_tag_bits:
  "execution_mode (NoteTag t) = (if bit t 31 \<and> (bit t 30 \<or> \<not> bit t 29) then Network else Local)"
  "is_single_target (NoteTag t) \<longleftrightarrow> \<not> bit t 30 \<and> (bit t 31 \<longrightarrow> \<not> bit t 29)"
  by (cases "bit t 29"; cases "bit t 30"; cases "bit t 31";
      simp add: execution_mode_def is_single_target_def drop_bit_29 drop_bit_30 drop_bit_31)+

lemma local_tag_bits:
  "\<not> bit (ucast (drop_bit 34 (x AND 0xffff000000000000)) :: u32) 30"
  "\<not> bit (ucast (drop_bit 34 (x AND 0xffff000000000000)) :: u32) 31" for x :: u64
  by (auto simp: bit_simps dest: bit_imp_le_length)

lemma network_tag_bits:
  "bit (ucast (drop_bit 34 (x AND 0xfffffffc00000000)) OR 0x80000000 :: u32) 31"
  "\<not> bit (ucast (drop_bit 34 (x AND 0xfffffffc00000000)) OR 0x80000000 :: u32) 30"
  "bit (ucast (drop_bit 34 (x AND 0xfffffffc00000000)) OR 0x80000000 :: u32) 29 = bit x 63" for x :: u64
  by (auto simp: bit_simps dest: bit_imp_le_length)

section \<open>Properties\<close>

text \<open>
  Metadata encodings.  Well-formed metadata is recovered from its word and from its bytes;
  whatever is accepted from a canonical word is well-formed and has that word as its
  encoding, and whatever is read is well-formed: in particular the tag agrees with the type.
\<close>

theorem note_metadata_encodings:
  assumes "prims_spec P"
  shows "(metadata_ok P m \<longrightarrow> note_metadata_try_from_word (note_metadata_to_word P m) = Ok m \<and>
      read_note_metadata P (write_note_metadata P m @ bs) = Ok (m, bs)) \<and>
    (word_ok P w \<and> note_metadata_try_from_word w = Ok m \<longrightarrow> metadata_ok P m \<and> note_metadata_to_word P m = w) \<and>
    (read_note_metadata P bs = Ok (m, bs') \<longrightarrow> metadata_ok P m)"
proof -
  note ax = prims_spec.axioms [OF assms]
  show ?thesis
    using felt_spec.metadata_word_round_trip [OF ax(1), of m] io_spec.read_write_note_metadata [OF ax(3), of m bs]
      felt_spec.metadata_word_canonical [OF ax(1), of w m] io_spec.read_note_metadata_ok [OF ax(3), of bs m bs']
    by blast
qed

theorem note_metadata_encodings_witness:
  "note_metadata_try_from_word (note_metadata_to_word sample_prims
     \<lparr> md_sender = AccountId 0x200000000000001F, md_note_type = Public, md_tag = NoteTag 0x80000007, md_aux = 5 \<rparr>)
   = Ok \<lparr> md_sender = AccountId 0x200000000000001F, md_note_type = Public, md_tag = NoteTag 0x80000007, md_aux = 5 \<rparr>"
  using note_metadata_encodings [OF sample_laws.prims_spec_axioms,
      of "\<lparr> md_sender = AccountId 0x200000000000001F, md_note_type = Public, md_tag = NoteTag 0x80000007, md_aux = 5 \<rparr>"]
  by (simp add: metadata_ok_def account_id_ok_def account_id_valid_def sample_felt_ok bit_eval)

text \<open>
  Tags made from account identifiers.  A tag for local execution reads back as local and
  single-target and suits every note type.  A tag for network execution exists only for
  on-chain accounts, reads back as network and single-target, and suits public notes only.
\<close>

theorem note_tag_from_account_id_correct:
  assumes "account_id_valid i"
  shows "(\<exists>t. note_tag_from_account_id i Local = Ok t \<and> execution_mode t = Local \<and> is_single_target t \<and>
      note_tag_validate t ty = Ok t) \<and>
    (if is_on_chain i = (Ok True :: (bool, note_error) result)
     then \<exists>t. note_tag_from_account_id i Network = Ok t \<and> execution_mode t = Network \<and> is_single_target t \<and>
       (note_tag_validate t ty = Ok t \<longleftrightarrow> ty = Public)
     else note_tag_from_account_id i Network = Err NetworkExecutionRequiresOnChainAccount)"
proof (intro conjI)
  show "\<exists>t. note_tag_from_account_id i Local = Ok t \<and> execution_mode t = Local \<and> is_single_target t \<and>
      note_tag_validate t ty = Ok t"
    using local_tag_bits [of "id_felt i"]
    by (cases ty) (simp_all add: note_tag_from_account_id_def Let_def note_tag_bits note_tag_validate_Ok)
  show "if is_on_chain i = (Ok True :: (bool, note_error) result)
     then \<exists>t. note_tag_from_account_id i Network = Ok t \<and> execution_mode t = Network \<and> is_single_target t \<and>
       (note_tag_validate t ty = Ok t \<longleftrightarrow> ty = Public)
     else note_tag_from_account_id i Network = Err NetworkExecutionRequiresOnChainAccount"
  proof (cases "bit (id_felt i) 63")
    case True
    with assms have "is_on_chain i = (Ok False :: (bool, note_error) result)"
      by (simp add: is_on_chain_def storage_type_valid)
    then show ?thesis by (simp add: note_tag_from_account_id_def)
  next
    case False
    with assms have "is_on_chain i = (Ok True :: (bool, note_error) result)"
      by (simp add: is_on_chain_def storage_type_valid)
    with False network_tag_bits [of "id_felt i"] show ?thesis
      by (cases ty) (simp_all add: note_tag_from_account_id_def Let_def note_tag_bits note_tag_validate_Ok)
  qed
qed

theorem note_tag_from_account_id_correct_witness:
  "\<exists>t. note_tag_from_account_id (AccountId 0x200000000000001F) Network = Ok t \<and> execution_mode t = Network"
proof -
  have "account_id_valid (AccountId 0x200000000000001F)" by (simp add: account_id_valid_def bit_eval)
  moreover have "is_on_chain (AccountId 0x200000000000001F) = (Ok True :: (bool, note_error) result)"
    by (simp add: is_on_chain_def storage_type_bits)
  ultimately show ?thesis using note_tag_from_account_id_correct [of "AccountId 0x200000000000001F"] by auto
qed

end
