(* ===== verification/Note_Contents.thy ===== *)
theory Note_Contents
  imports Asset Note_Metadata
begin

text \<open>
  What a note carries: its assets, its inputs and its script (\<open>objects/src/notes/assets.rs\<close>,
  \<open>inputs.rs\<close>, \<open>script.rs\<close>).  Programs and their compilation are third-party code: a record
  of operations \<open>Q\<close> with the contract \<open>prog_spec\<close>.
\<close>

section \<open>Programs\<close>

text \<open>
  \<open>put_program\<close> writes a program with its imports, which is what both \<open>to_bytes\<close> and
  \<open>write_into\<close> do for note scripts; \<open>program_from_bytes\<close> parses a byte slice.
\<close>

record ('p, 'b) prog_ops =
  put_program :: "'p \<Rightarrow> u8 list"
  get_program :: "('p, deserialization_error) reader"
  program_from_bytes :: "u8 list \<Rightarrow> ('p, deserialization_error) result"
  compile_in_context :: "'p \<Rightarrow> ('b, assembly_error) result"
  block_hash :: "'b \<Rightarrow> digest"

locale prog_spec =
  fixes P :: prims and Q :: "('p, 'b) prog_ops"
  assumes get_put_program: "get_program Q (put_program Q p @ bs) = Ok (p, bs)"
    and block_hash_ok: "word_ok P (block_hash Q b)"

section \<open>Note assets\<close>

definition MAX_ASSETS_PER_NOTE :: nat where
  "MAX_ASSETS_PER_NOTE = 256"

record note_assets =
  na_assets :: "asset list"
  na_hash :: digest

definition duplicate_asset_error :: "asset \<Rightarrow> note_error" where
  "duplicate_asset_error a = (case a of
     Fungible f \<Rightarrow> DuplicateFungibleAsset (fa_faucet_id f)
   | NonFungible n \<Rightarrow> DuplicateNonFungibleNoteAsset n)"

fun check_unique_assets :: "asset list \<Rightarrow> (unit, note_error) result" where
  "check_unique_assets [] = Ok ()"
| "check_unique_assets (a # rest) =
    (if rest \<noteq> [] \<and> list_ex (\<lambda>b. is_same b a) rest then Err (duplicate_asset_error a)
     else check_unique_assets rest)"

definition compute_asset_commitment :: "prims \<Rightarrow> asset list \<Rightarrow> digest" where
  "compute_asset_commitment P as =
     hash_elements P (concat (map (\<lambda>a. elements (asset_to_word P a)) as)
       @ (if length as mod 2 = 1 then elements EMPTY_WORD else []))"

definition note_assets_new :: "prims \<Rightarrow> asset list \<Rightarrow> (note_assets, note_error) result" where
  "note_assets_new P as =
    (if as = [] then Err EmptyAssetList
     else if length as > MAX_ASSETS_PER_NOTE then Err (TooManyAssets (length as))
     else and_then (check_unique_assets as) (\<lambda>_.
       Ok \<lparr> na_assets = as, na_hash = compute_asset_commitment P as \<rparr>))"

definition num_assets :: "note_assets \<Rightarrow> nat" where
  "num_assets n = length (na_assets n)"

definition to_padded_assets :: "prims \<Rightarrow> note_assets \<Rightarrow> felt list" where
  "to_padded_assets P n =
    (let len = length (na_assets n);
         padded_len = (if len mod 2 = 0 then len * 4 else (len + 1) * 4) in
     resize padded_len 0 (concat (map (\<lambda>a. elements (asset_to_word P a)) (na_assets n))))"

definition note_assets_eq :: "note_assets \<Rightarrow> note_assets \<Rightarrow> bool" where
  "note_assets_eq a b \<longleftrightarrow> na_assets a = na_assets b"

definition write_note_assets :: "prims \<Rightarrow> note_assets \<Rightarrow> u8 list" where
  "write_note_assets P n =
     put_u8 P (of_nat (length (na_assets n)) - 1) @ write_many (write_asset P) (na_assets n)"

definition read_note_assets :: "prims \<Rightarrow> (note_assets, deserialization_error) reader" where
  "read_note_assets P bs =
     and_then (get_u8 P bs) (\<lambda>(n, bs1).
       let count = n + 1 in
       and_then (read_many (unat count) (read_asset P) bs1) (\<lambda>(as, bs2).
       and_then (map_err (\<lambda>e. InvalidValue (show_note_error P e)) (note_assets_new P as)) (\<lambda>na. Ok (na, bs2))))"

section \<open>Note inputs\<close>

definition MAX_INPUTS_PER_NOTE :: nat where
  "MAX_INPUTS_PER_NOTE = 128"

record note_inputs =
  ni_values :: "felt list"
  ni_hash :: digest

definition next_multiple_of :: "nat \<Rightarrow> nat \<Rightarrow> nat" where
  "next_multiple_of n k = (if n mod k = 0 then n else n + (k - n mod k))"

definition pad_inputs :: "felt list \<Rightarrow> felt list" where
  "pad_inputs inputs = resize (next_multiple_of (length inputs) 8) 0 inputs"

definition note_inputs_new :: "prims \<Rightarrow> felt list \<Rightarrow> (note_inputs, note_error) result" where
  "note_inputs_new P values =
    (if length values > MAX_INPUTS_PER_NOTE then Err (TooManyInputs (length values))
     else Ok \<lparr> ni_values = values, ni_hash = hash_elements P (pad_inputs values) \<rparr>)"

definition num_values :: "note_inputs \<Rightarrow> u8" where
  "num_values n = of_nat (length (ni_values n))"

definition to_padded_values :: "note_inputs \<Rightarrow> felt list" where
  "to_padded_values n = pad_inputs (ni_values n)"

fun commitment_to_key :: "prims \<Rightarrow> digest \<Rightarrow> digest" where
  "commitment_to_key P (W a b c d) = W a b c (felt_add P d 1)"

definition note_inputs_eq :: "note_inputs \<Rightarrow> note_inputs \<Rightarrow> bool" where
  "note_inputs_eq a b \<longleftrightarrow> ni_values a = ni_values b"

definition write_note_inputs :: "prims \<Rightarrow> note_inputs \<Rightarrow> (u8 list, unit) result" where
  "write_note_inputs P n =
    (if length (ni_values n) < 2 ^ 8
     then Ok (put_u8 P (of_nat (length (ni_values n))) @ write_many (put_felt P) (ni_values n))
     else Panic ''inputs len is not a u8 value'')"

definition read_note_inputs :: "prims \<Rightarrow> (note_inputs, deserialization_error) reader" where
  "read_note_inputs P bs =
     and_then (get_u8 P bs) (\<lambda>(n, bs1).
     and_then (read_many (unat n) (get_felt P) bs1) (\<lambda>(values, bs2).
     and_then (map_err (\<lambda>e. InvalidValue (show_note_error P e)) (note_inputs_new P values)) (\<lambda>ni. Ok (ni, bs2))))"

section \<open>Note scripts\<close>

record 'p note_script =
  script_hash :: digest
  script_code :: 'p

definition note_script_new :: "('p, 'b) prog_ops \<Rightarrow> 'p \<Rightarrow> ('p note_script \<times> 'b, note_error) result" where
  "note_script_new Q code =
     and_then (map_err ScriptCompilationError (compile_in_context Q code)) (\<lambda>code_block.
       Ok (\<lparr> script_hash = block_hash Q code_block, script_code = code \<rparr>, code_block))"

definition note_script_from_parts :: "'p \<Rightarrow> digest \<Rightarrow> 'p note_script" where
  "note_script_from_parts code h = \<lparr> script_hash = h, script_code = code \<rparr>"

text \<open>The loop \<open>while encoded.len() >= 4\<close>.\<close>

fun chunks4 :: "'a list \<Rightarrow> 'a list list" where
  "chunks4 (a # b # c # d # rest) = [a, b, c, d] # chunks4 rest"
| "chunks4 _ = []"

definition u32_felts :: "prims \<Rightarrow> u8 list \<Rightarrow> felt list" where
  "u32_felts P encoded = map (\<lambda>data. felt_new P (ucast (from_le_bytes data :: u32))) (chunks4 encoded)"

definition note_script_to_felts :: "prims \<Rightarrow> ('p, 'b) prog_ops \<Rightarrow> 'p note_script \<Rightarrow> felt list" where
  "note_script_to_felts P Q s =
    (let bytes = put_program Q (script_code s);
         len = length bytes;
         missing = len mod 4;
         bytes = resize (length bytes + missing) 0 bytes in
     elements (script_hash s) @ [felt_new P (of_nat len)] @ u32_felts P bytes)"

definition felt_u32_bytes :: "felt \<Rightarrow> (u8 list, deserialization_error) result" where
  "felt_u32_bytes x = map_ok (le_bytes 4)
     (ok_or (InvalidValue ''out of range integral type conversion attempted'') (try_into_u32 x))"

text \<open>\<open>data.shrink_to(len)\<close> bounds the capacity of the vector and leaves its contents alone.\<close>

definition note_script_try_from_felts ::
    "('p, 'b) prog_ops \<Rightarrow> felt list \<Rightarrow> ('p note_script, deserialization_error) result" where
  "note_script_try_from_felts Q value =
    (if length value < 5 then Err UnexpectedEOF
     else
       let h = W (value ! 0) (value ! 1) (value ! 2) (value ! 3) in
       and_then (try_map felt_u32_bytes (drop 5 value)) (\<lambda>data.
       and_then (program_from_bytes Q (concat data)) (\<lambda>code.
         Ok (note_script_from_parts code h))))"

definition write_note_script :: "prims \<Rightarrow> ('p, 'b) prog_ops \<Rightarrow> 'p note_script \<Rightarrow> u8 list" where
  "write_note_script P Q s = put_digest P (script_hash s) @ put_program Q (script_code s)"

definition read_note_script :: "prims \<Rightarrow> ('p, 'b) prog_ops \<Rightarrow> ('p note_script, deserialization_error) reader" where
  "read_note_script P Q bs =
     and_then (get_digest P bs) (\<lambda>(h, bs1).
     and_then (get_program Q bs1) (\<lambda>(code, bs2). Ok (note_script_from_parts code h, bs2)))"

section \<open>Assets\<close>

lemma check_unique_assets_Ok: "check_unique_assets as = Ok () \<longleftrightarrow> sorted_wrt (\<lambda>a b. \<not> is_same a b) as"
  by (induction as) (auto simp: list_ex_iff is_same_sym)

lemma check_unique_assets_Err:
  "\<not> sorted_wrt (\<lambda>a b. \<not> is_same a b) as \<Longrightarrow> \<exists>a\<in>set as. check_unique_assets as = Err (duplicate_asset_error a)"
  by (induction as) (auto simp: list_ex_iff is_same_sym)

lemma length_asset_elements: "length (concat (map (\<lambda>a. elements (asset_to_word P a)) as)) = 4 * length as"
  by (induction as) simp_all

lemma to_padded_assets_eq:
  "to_padded_assets P n = concat (map (\<lambda>a. elements (asset_to_word P a)) (na_assets n))
     @ (if length (na_assets n) mod 2 = 1 then elements EMPTY_WORD else [])"
proof -
  have "replicate 4 0 = elements EMPTY_WORD" by (simp add: numeral_eq_Suc)
  moreover have "(m + 1) * 4 - 4 * m = 4" for m :: nat by simp
  ultimately show ?thesis
    by (simp add: to_padded_assets_def resize_def Let_def length_asset_elements mod_2_eq_odd del: elements.simps)
qed

lemma length_to_padded_assets: "length (to_padded_assets P n) mod 8 = 0"
  unfolding to_padded_assets_def Let_def length_resize by (auto, presburger+)

definition note_assets_ok :: "prims \<Rightarrow> note_assets \<Rightarrow> bool" where
  "note_assets_ok P n \<longleftrightarrow> note_assets_new P (na_assets n) = Ok n \<and> list_all (asset_ok P) (na_assets n)"

lemma note_assets_new_Ok:
  "note_assets_new P as = Ok n \<longleftrightarrow> as \<noteq> [] \<and> length as \<le> 256 \<and> sorted_wrt (\<lambda>a b. \<not> is_same a b) as \<and>
     n = \<lparr> na_assets = as, na_hash = compute_asset_commitment P as \<rparr>"
  by (auto simp: note_assets_new_def MAX_ASSETS_PER_NOTE_def res_simps check_unique_assets_Ok not_less)

lemma note_assets_new_assets: "note_assets_new P as = Ok n \<Longrightarrow> na_assets n = as"
  by (auto simp: note_assets_new_Ok)

context prims_spec
begin

lemma read_write_note_assets:
  assumes ok: "note_assets_ok P n" and len: "length (na_assets n) \<le> 255"
  shows "read_note_assets P (write_note_assets P n @ bs) = Ok (n, bs)"
proof -
  have "unat (of_nat (length (na_assets n)) :: u8) = length (na_assets n)"
    using len by (simp add: unat_of_nat)
  with ok show ?thesis
    using c_asset.read_many_write_many [of "na_assets n" "length (na_assets n)" bs]
    by (simp add: read_note_assets_def write_note_assets_def get_put_u8 Let_def note_assets_ok_def)
qed

lemma read_write_note_assets_256:
  assumes "length (na_assets n) = 256"
  shows "read_note_assets P (write_note_assets P n @ bs) = Err (InvalidValue (show_note_error P EmptyAssetList))"
proof -
  have "(256 :: u8) = 0" by simp
  with assms show ?thesis
    by (simp add: read_note_assets_def write_note_assets_def get_put_u8 Let_def note_assets_new_def)
qed

lemma read_many_asset_ok: "read_many n (read_asset P) bs = Ok (as, bs') \<Longrightarrow> list_all (asset_ok P) as"
  by (induction n arbitrary: bs as bs') (auto simp: res_simps read_asset_ok)

lemma read_note_assets_ok: "read_note_assets P bs = Ok (n, bs') \<Longrightarrow> note_assets_ok P n"
  by (auto simp: read_note_assets_def Let_def res_simps note_assets_ok_def note_assets_new_assets
      dest: read_many_asset_ok)

end

section \<open>Inputs\<close>

definition note_inputs_ok :: "prims \<Rightarrow> note_inputs \<Rightarrow> bool" where
  "note_inputs_ok P n \<longleftrightarrow> note_inputs_new P (ni_values n) = Ok n \<and> list_all (felt_ok P) (ni_values n)"

lemma note_inputs_new_Ok:
  "note_inputs_new P vs = Ok n \<longleftrightarrow> length vs \<le> 128 \<and>
     n = \<lparr> ni_values = vs, ni_hash = hash_elements P (pad_inputs vs) \<rparr>"
  by (auto simp: note_inputs_new_def MAX_INPUTS_PER_NOTE_def)

lemma next_multiple_of_8: "next_multiple_of n 8 mod 8 = 0" "n \<le> next_multiple_of n 8" "next_multiple_of n 8 < n + 8"
  unfolding next_multiple_of_def by (auto, presburger+)

lemma pad_inputs_eq: "pad_inputs vs = vs @ replicate (next_multiple_of (length vs) 8 - length vs) 0"
  using next_multiple_of_8(2) [of "length vs"] by (simp add: pad_inputs_def resize_def)

context prims_spec
begin

lemma read_write_note_inputs:
  assumes ok: "note_inputs_ok P n"
  shows "\<exists>b. write_note_inputs P n = Ok b \<and> read_note_inputs P (b @ bs) = Ok (n, bs)"
proof -
  have "length (ni_values n) \<le> 128" using ok by (auto simp: note_inputs_ok_def note_inputs_new_Ok)
  moreover from this have "unat (of_nat (length (ni_values n)) :: u8) = length (ni_values n)"
    by (simp add: unat_of_nat)
  ultimately show ?thesis
    using ok c_felt.read_many_write_many [of "ni_values n" "length (ni_values n)" bs]
    by (simp add: write_note_inputs_def read_note_inputs_def get_put_u8 note_inputs_ok_def)
qed

lemma read_many_felt_ok: "read_many n (get_felt P) bs = Ok (xs, bs') \<Longrightarrow> list_all (felt_ok P) xs"
  by (induction n arbitrary: bs xs bs') (auto simp: res_simps get_felt_ok)

lemma read_note_inputs_ok: "read_note_inputs P bs = Ok (n, bs') \<Longrightarrow> note_inputs_ok P n"
  by (auto simp: read_note_inputs_def res_simps note_inputs_ok_def note_inputs_new_Ok dest: read_many_felt_ok)

end

section \<open>Scripts\<close>

text \<open>The bytes the decoder hands to the parser for a program of the given bytes.\<close>

definition script_decoded_bytes :: "u8 list \<Rightarrow> u8 list" where
  "script_decoded_bytes bs =
    (if length bs mod 4 = 0 then bs
     else if length bs mod 4 = 1 then butlast bs
     else if length bs mod 4 = 2 then bs @ [0, 0]
     else bs @ [0])"

lemma concat_chunks4: "concat (chunks4 xs) = take (4 * (length xs div 4)) xs"
proof (induction xs rule: chunks4.induct)
  case (1 a b c d rest)
  have "4 * (length (a # b # c # d # rest) div 4) = Suc (Suc (Suc (Suc (4 * (length rest div 4)))))"
    by simp presburger
  with 1 show ?case by (simp only: chunks4.simps concat.simps take_Suc_Cons append.simps)
qed auto

lemma length_chunks4: "list_all (\<lambda>c. length c = 4) (chunks4 xs)"
  by (induction xs rule: chunks4.induct) auto

lemma padded_chunks:
  "concat (chunks4 (resize (length bs + length bs mod 4) 0 bs)) = script_decoded_bytes bs"
proof -
  define k where "k = length bs div 4"
  define m where "m = length bs mod 4"
  have len: "length bs = 4 * k + m" by (simp add: k_def m_def)
  have m: "length bs mod 4 = m" by (simp add: m_def)
  have "concat (chunks4 (resize (length bs + length bs mod 4) 0 bs))
      = take (4 * ((4 * k + 2 * m) div 4)) (bs @ replicate m 0)"
  proof -
    have "resize (length bs + m) 0 bs = bs @ replicate m 0" by (simp add: resize_def)
    moreover have "length (bs @ replicate m 0) = 4 * k + 2 * m" using len by simp
    ultimately show ?thesis by (simp only: m concat_chunks4)
  qed
  moreover have "m < 4" by (simp add: m_def)
  then consider "m = 0" | "m = 1" | "m = 2" | "m = 3" by linarith
  then have "take (4 * ((4 * k + 2 * m) div 4)) (bs @ replicate m 0) = script_decoded_bytes bs"
  proof cases
    case 2
    then have *: "4 * ((4 * k + 2 * m) div 4) = length bs - 1" by (simp add: len)
    show ?thesis unfolding * script_decoded_bytes_def m using 2 by (simp add: butlast_conv_take)
  next
    case 3
    then have *: "4 * ((4 * k + 2 * m) div 4) = length bs + 2" by (simp add: len)
    show ?thesis unfolding * script_decoded_bytes_def m using 3 by (simp add: numeral_eq_Suc)
  next
    case 4
    then have *: "4 * ((4 * k + 2 * m) div 4) = length bs + 1" by (simp add: len)
    show ?thesis unfolding * script_decoded_bytes_def m using 4 by (simp add: numeral_eq_Suc)
  next
    case 1
    then have *: "4 * ((4 * k + 2 * m) div 4) = length bs" by (simp add: len)
    show ?thesis unfolding * script_decoded_bytes_def m using 1 by simp
  qed
  ultimately show ?thesis by simp
qed

context felt_spec
begin

lemma felt_u32_bytes_felt: "length c = 4 \<Longrightarrow> felt_u32_bytes (felt_new P (ucast (from_le_bytes c :: u32))) = Ok c"
  using le_bytes_from_le_bytes [of c, where 'a = 32]
  by (simp add: felt_u32_bytes_def felt_new_u32 try_into_u32_ucast)

lemma u32_felts_decode: "try_map felt_u32_bytes (u32_felts P bs) = Ok (chunks4 bs)"
  unfolding u32_felts_def by (rule try_map_id) (use length_chunks4 [of bs] in \<open>auto simp: list_all_iff felt_u32_bytes_felt\<close>)

lemma note_script_felts:
  "note_script_try_from_felts Q (note_script_to_felts P Q s) =
     map_ok (\<lambda>code. note_script_from_parts code (script_hash s))
       (program_from_bytes Q (script_decoded_bytes (put_program Q (script_code s))))"
proof (cases "script_hash s")
  case (W a b c d)
  then show ?thesis
    by (cases "program_from_bytes Q (script_decoded_bytes (put_program Q (script_code s)))")
      (simp_all add: note_script_try_from_felts_def note_script_to_felts_def Let_def u32_felts_decode padded_chunks)
qed

end

definition script_ok :: "prims \<Rightarrow> 'p note_script \<Rightarrow> bool" where
  "script_ok P s \<longleftrightarrow> word_ok P (script_hash s)"

locale script_spec = prims_spec P + prog_spec P Q for P :: prims and Q :: "('p, 'b) prog_ops"
begin

lemma read_write_note_script:
  "script_ok P s \<Longrightarrow> read_note_script P Q (write_note_script P Q s @ bs) = Ok (s, bs)"
  by (cases s) (simp add: script_ok_def read_note_script_def write_note_script_def get_put_digest get_put_program
      note_script_from_parts_def)

lemma read_note_script_ok: "read_note_script P Q bs = Ok (s, bs') \<Longrightarrow> script_ok P s"
  by (auto simp: script_ok_def read_note_script_def res_simps note_script_from_parts_def dest: get_digest_ok)

end

section \<open>A concrete program type\<close>

text \<open>Programs that are lists of bytes, each written after a marker, and compiled to themselves.\<close>

fun sample_parse :: "(u8 list, deserialization_error) reader" where
  "sample_parse [] = Err UnexpectedEOF"
| "sample_parse (m # bs) =
    (if m = 0 then Ok ([], bs)
     else case bs of
       [] \<Rightarrow> Err UnexpectedEOF
     | b # bs' \<Rightarrow> map_ok (\<lambda>(p, r). (b # p, r)) (sample_parse bs'))"

definition sample_prog :: "(u8 list, u8 list) prog_ops" where
  "sample_prog = \<lparr>
     put_program = (\<lambda>p. concat (map (\<lambda>b. [1, b]) p) @ [0]),
     get_program = sample_parse,
     program_from_bytes = (\<lambda>bs. map_ok fst (sample_parse bs)),
     compile_in_context = Ok,
     block_hash = hash_bytes sample_prims \<rparr>"

lemma sample_parse_put: "sample_parse (concat (map (\<lambda>b. [1, b]) p) @ 0 # bs) = Ok (p, bs)"
  by (induction p) simp_all

interpretation sample_prog_laws: prog_spec sample_prims sample_prog
  by unfold_locales (simp_all add: sample_prog_def sample_parse_put sample_hash_laws.hash_bytes_ok)

interpretation sample_script_laws: script_spec sample_prims sample_prog
  by unfold_locales

section \<open>Properties\<close>

text \<open>
  Note assets.  \<open>NoteAssets::new\<close> rejects an empty list, more than 256 assets and a list
  with two entries of the same asset; otherwise it keeps the list and commits to the
  elements that \<open>to_padded_assets\<close> returns, whose number is a multiple of eight.
\<close>

theorem note_assets_new_cases:
  "if as = [] then note_assets_new P as = Err EmptyAssetList
   else if length as > 256 then note_assets_new P as = Err (TooManyAssets (length as))
   else if \<not> sorted_wrt (\<lambda>a b. \<not> is_same a b) as
   then \<exists>a\<in>set as. note_assets_new P as = Err (duplicate_asset_error a)
   else \<exists>n. note_assets_new P as = Ok n \<and> na_assets n = as \<and>
     na_hash n = hash_elements P (to_padded_assets P n) \<and> length (to_padded_assets P n) mod 8 = 0"
proof -
  have "na_hash \<lparr> na_assets = as, na_hash = compute_asset_commitment P as \<rparr> =
      hash_elements P (to_padded_assets P \<lparr> na_assets = as, na_hash = compute_asset_commitment P as \<rparr>)"
    by (simp add: to_padded_assets_eq compute_asset_commitment_def)
  then have "\<exists>n. note_assets_new P as = Ok n \<and> na_assets n = as \<and>
     na_hash n = hash_elements P (to_padded_assets P n) \<and> length (to_padded_assets P n) mod 8 = 0"
    if "as \<noteq> []" "length as \<le> 256" "sorted_wrt (\<lambda>a b. \<not> is_same a b) as"
    using that length_to_padded_assets by (auto simp: note_assets_new_Ok)
  moreover have "\<exists>a\<in>set as. note_assets_new P as = Err (duplicate_asset_error a)"
    if dup: "as \<noteq> []" "length as \<le> 256" "\<not> sorted_wrt (\<lambda>a b. \<not> is_same a b) as"
  proof -
    from check_unique_assets_Err [OF dup(3)] obtain a where
      "a \<in> set as" "check_unique_assets as = Err (duplicate_asset_error a)" by blast
    with dup show ?thesis by (intro bexI [of _ a]) (simp_all add: note_assets_new_def MAX_ASSETS_PER_NOTE_def)
  qed
  ultimately show ?thesis by (simp add: not_less) (simp add: note_assets_new_def MAX_ASSETS_PER_NOTE_def)
qed

text \<open>
  C39. Reading back note assets.  Up to 255 assets are read back as they were written.  The
  count byte of 256 assets overflows when it is read, so a note with the maximal number of
  assets is written but cannot be read.
\<close>

theorem note_assets_serialization:
  assumes "prims_spec P" "note_assets_ok P n"
  shows "if length (na_assets n) \<le> 255 then read_note_assets P (write_note_assets P n @ bs) = Ok (n, bs)
    else read_note_assets P (write_note_assets P n @ bs) = Err (InvalidValue (show_note_error P EmptyAssetList))"
proof (cases "length (na_assets n) \<le> 255")
  case False
  moreover have "length (na_assets n) \<le> 256"
    using assms(2) by (simp add: note_assets_ok_def note_assets_new_Ok)
  ultimately have "length (na_assets n) = 256" by simp
  with False prims_spec.read_write_note_assets_256 [OF assms(1), of n] show ?thesis by simp
qed (simp add: prims_spec.read_write_note_assets [OF assms])

theorem note_assets_serialization_witness:
  "\<exists>n. na_assets n = [sample_coin, sample_nft] \<and>
     read_note_assets sample_prims (write_note_assets sample_prims n @ []) = Ok (n, [])"
proof -
  let ?n = "\<lparr> na_assets = [sample_coin, sample_nft],
    na_hash = compute_asset_commitment sample_prims [sample_coin, sample_nft] \<rparr>"
  have "note_assets_ok sample_prims ?n"
    using sample_assets_ok by (simp add: note_assets_ok_def note_assets_new_Ok) (simp add: sample_coin_def sample_nft_def)
  from note_assets_serialization [OF sample_laws.prims_spec_axioms this, of "[]"] show ?thesis
    by (intro exI [of _ ?n]) simp
qed

text \<open>
  Note inputs.  At most 128 inputs are accepted; they are padded with zeros to the next
  multiple of eight before hashing, and accepted inputs are read back as they were written.
\<close>

theorem note_inputs_correct:
  assumes "prims_spec P" "list_all (felt_ok P) vs"
  shows "if length vs > 128 then note_inputs_new P vs = Err (TooManyInputs (length vs))
    else \<exists>n b k. note_inputs_new P vs = Ok n \<and> ni_values n = vs \<and>
      ni_hash n = hash_elements P (vs @ replicate k 0) \<and> k < 8 \<and> (length vs + k) mod 8 = 0 \<and>
      write_note_inputs P n = Ok b \<and> read_note_inputs P (b @ bs) = Ok (n, bs)"
proof (cases "length vs > 128")
  case False
  let ?n = "\<lparr> ni_values = vs, ni_hash = hash_elements P (pad_inputs vs) \<rparr>"
  have new: "note_inputs_new P vs = Ok ?n" using False by (simp add: note_inputs_new_Ok)
  then have "note_inputs_ok P ?n" using assms(2) by (simp add: note_inputs_ok_def)
  from prims_spec.read_write_note_inputs [OF assms(1) this] obtain b where
    "write_note_inputs P ?n = Ok b" "read_note_inputs P (b @ bs) = Ok (?n, bs)" by blast
  moreover have "next_multiple_of (length vs) 8 - length vs < 8"
    "(length vs + (next_multiple_of (length vs) 8 - length vs)) mod 8 = 0"
    using next_multiple_of_8 [of "length vs"] by auto
  ultimately show ?thesis
    using False new by (auto simp: pad_inputs_eq intro!: exI [of _ ?n])
qed (simp add: note_inputs_new_def MAX_INPUTS_PER_NOTE_def)

theorem note_inputs_correct_witness:
  "\<exists>n. note_inputs_new sample_prims [1, 2, 3] = Ok n \<and> ni_values n = [1, 2, 3]"
  using note_inputs_correct [OF sample_laws.prims_spec_axioms, of "[1, 2, 3]"] by (auto simp: sample_felt_ok)

text \<open>
  C40. Note scripts as field elements.  The parser gets exactly the bytes of the program only if their
  number is a multiple of 4.  If it is 1 modulo 4, the last byte is lost, since the padding is computed
  as the remainder instead of what is missing to the next multiple of 4.  If it is 2 or 3 modulo 4, the
  parser also gets the two zeros or the zero of the padding: the length that is stored to remove
  the padding only shrinks the capacity of the decoded vector.
\<close>

theorem note_script_felts_decode:
  assumes "felt_spec P"
  shows "note_script_try_from_felts Q (note_script_to_felts P Q s) =
     map_ok (\<lambda>code. note_script_from_parts code (script_hash s))
       (program_from_bytes Q (let bytes = put_program Q (script_code s) in
         if length bytes mod 4 = 0 then bytes
         else if length bytes mod 4 = 1 then butlast bytes
         else if length bytes mod 4 = 2 then bytes @ [0, 0]
         else bytes @ [0]))"
  using felt_spec.note_script_felts [OF assms, of Q s] by (simp add: script_decoded_bytes_def Let_def)

theorem note_script_felts_decode_witness:
  "note_script_try_from_felts sample_prog (note_script_to_felts sample_prims sample_prog
     \<lparr> script_hash = W 1 2 3 4, script_code = [7, 8] \<rparr>) = Err UnexpectedEOF"
  unfolding note_script_felts_decode [OF sample_felt_laws.felt_spec_axioms]
  by (simp add: sample_prog_def)

end
