(* ===== verification/Note.thy ===== *)
theory Note
  imports Note_Contents
begin

text \<open>
  Notes (\<open>objects/src/notes/mod.rs\<close>) with their recipients, identifiers and nullifiers, note
  envelopes, and the proof that a note was included in a block (\<open>recipient.rs\<close>, \<open>note_id.rs\<close>,
  \<open>nullifier.rs\<close>, \<open>envelope.rs\<close>, \<open>origin.rs\<close>).  Node indexes and Merkle paths are third-party
  types with the operations \<open>M\<close> and the contract \<open>merkle_spec\<close>.
\<close>

section \<open>Recipients\<close>

record 'p note_recipient =
  rcp_serial_num :: word4
  rcp_script :: "'p note_script"
  rcp_inputs :: note_inputs
  rcp_digest :: digest

definition compute_recipient_digest :: "prims \<Rightarrow> word4 \<Rightarrow> 'p note_script \<Rightarrow> note_inputs \<Rightarrow> digest" where
  "compute_recipient_digest P serial_num script inputs =
    (let serial_num_hash = hash_merge P serial_num EMPTY_WORD;
         merge_script = hash_merge P serial_num_hash (script_hash script) in
     hash_merge P merge_script (ni_hash inputs))"

definition note_recipient_new :: "prims \<Rightarrow> word4 \<Rightarrow> 'p note_script \<Rightarrow> note_inputs \<Rightarrow> 'p note_recipient" where
  "note_recipient_new P serial_num script inputs =
     \<lparr> rcp_serial_num = serial_num, rcp_script = script, rcp_inputs = inputs,
       rcp_digest = compute_recipient_digest P serial_num script inputs \<rparr>"

definition recipient_to_elements :: "'p note_recipient \<Rightarrow> felt list" where
  "recipient_to_elements r = elements (ni_hash (rcp_inputs r)) @ elements (script_hash (rcp_script r))
     @ elements (rcp_serial_num r)"

definition write_note_recipient ::
    "prims \<Rightarrow> ('p, 'b) prog_ops \<Rightarrow> 'p note_recipient \<Rightarrow> (u8 list, unit) result" where
  "write_note_recipient P Q r =
     and_then (write_note_inputs P (rcp_inputs r)) (\<lambda>inputs.
       Ok (write_note_script P Q (rcp_script r) @ inputs @ put_word P (rcp_serial_num r)))"

definition read_note_recipient ::
    "prims \<Rightarrow> ('p, 'b) prog_ops \<Rightarrow> ('p note_recipient, deserialization_error) reader" where
  "read_note_recipient P Q bs =
     and_then (read_note_script P Q bs) (\<lambda>(script, bs1).
     and_then (read_note_inputs P bs1) (\<lambda>(inputs, bs2).
     and_then (get_word P bs2) (\<lambda>(serial_num, bs3).
       Ok (note_recipient_new P serial_num script inputs, bs3))))"

section \<open>Identifiers and nullifiers\<close>

definition note_id_new :: "prims \<Rightarrow> digest \<Rightarrow> digest \<Rightarrow> note_id" where
  "note_id_new P recipient asset_commitment = NoteId (hash_merge P recipient asset_commitment)"

definition write_note_id :: "prims \<Rightarrow> note_id \<Rightarrow> u8 list" where
  "write_note_id P i = put_digest P (note_id_digest i)"

definition read_note_id :: "prims \<Rightarrow> (note_id, deserialization_error) reader" where
  "read_note_id P bs = and_then (get_digest P bs) (\<lambda>(d, bs'). Ok (NoteId d, bs'))"

datatype nullifier = Nullifier (nullifier_digest: digest)

definition nullifier_new :: "prims \<Rightarrow> digest \<Rightarrow> digest \<Rightarrow> digest \<Rightarrow> word4 \<Rightarrow> nullifier" where
  "nullifier_new P sh ih ah serial_num =
     Nullifier (hash_elements P (elements serial_num @ elements sh @ elements ih @ elements ah))"

definition most_significant_felt :: "nullifier \<Rightarrow> felt" where
  "most_significant_felt n = elements (nullifier_digest n) ! 3"

definition write_nullifier :: "prims \<Rightarrow> nullifier \<Rightarrow> u8 list" where
  "write_nullifier P n = put_digest P (nullifier_digest n)"

definition read_nullifier :: "prims \<Rightarrow> (nullifier, deserialization_error) reader" where
  "read_nullifier P bs = and_then (get_digest P bs) (\<lambda>(d, bs'). Ok (Nullifier d, bs'))"

section \<open>Notes\<close>

record 'p miden_note =
  nt_assets :: note_assets
  nt_metadata :: note_metadata
  nt_recipient :: "'p note_recipient"
  nt_id :: note_id
  nt_nullifier :: nullifier

definition note_new :: "prims \<Rightarrow> note_assets \<Rightarrow> note_metadata \<Rightarrow> 'p note_recipient \<Rightarrow> 'p miden_note" where
  "note_new P as m r = \<lparr> nt_assets = as, nt_metadata = m, nt_recipient = r,
     nt_id = note_id_new P (rcp_digest r) (na_hash as),
     nt_nullifier = nullifier_new P (script_hash (rcp_script r)) (ni_hash (rcp_inputs r)) (na_hash as)
       (rcp_serial_num r) \<rparr>"

definition authentication_hash :: "prims \<Rightarrow> 'p miden_note \<Rightarrow> digest" where
  "authentication_hash P n = hash_merge P (note_id_digest (nt_id n)) (note_metadata_to_word P (nt_metadata n))"

definition note_to_note_id :: "prims \<Rightarrow> 'p miden_note \<Rightarrow> note_id" where
  "note_to_note_id P n = note_id_new P (rcp_digest (nt_recipient n)) (na_hash (nt_assets n))"

definition note_to_nullifier :: "prims \<Rightarrow> 'p miden_note \<Rightarrow> nullifier" where
  "note_to_nullifier P n = nullifier_new P (script_hash (rcp_script (nt_recipient n)))
     (ni_hash (rcp_inputs (nt_recipient n))) (na_hash (nt_assets n)) (rcp_serial_num (nt_recipient n))"

definition write_note :: "prims \<Rightarrow> ('p, 'b) prog_ops \<Rightarrow> 'p miden_note \<Rightarrow> (u8 list, unit) result" where
  "write_note P Q n =
     and_then (write_note_recipient P Q (nt_recipient n)) (\<lambda>r.
       Ok (write_note_assets P (nt_assets n) @ write_note_metadata P (nt_metadata n) @ r))"

definition read_note :: "prims \<Rightarrow> ('p, 'b) prog_ops \<Rightarrow> ('p miden_note, deserialization_error) reader" where
  "read_note P Q bs =
     and_then (read_note_assets P bs) (\<lambda>(as, bs1).
     and_then (read_note_metadata P bs1) (\<lambda>(m, bs2).
     and_then (read_note_recipient P Q bs2) (\<lambda>(r, bs3).
       Ok (note_new P as m r, bs3))))"

section \<open>Envelopes\<close>

record note_envelope =
  env_note_id :: note_id
  env_metadata :: note_metadata

definition note_envelope_new :: "note_id \<Rightarrow> note_metadata \<Rightarrow> (note_envelope, note_error) result" where
  "note_envelope_new i m =
    (if md_note_type m \<noteq> OffChainNote then Err (InvalidNoteType (md_note_type m))
     else Ok \<lparr> env_note_id = i, env_metadata = m \<rparr>)"

definition note_envelope_to_felts :: "prims \<Rightarrow> note_envelope \<Rightarrow> felt list" where
  "note_envelope_to_felts P e = elements (note_id_digest (env_note_id e))
     @ elements (note_metadata_to_word P (env_metadata e))"

definition note_envelope_to_words :: "prims \<Rightarrow> note_envelope \<Rightarrow> word4 \<times> word4" where
  "note_envelope_to_words P e = (note_id_digest (env_note_id e), note_metadata_to_word P (env_metadata e))"

definition note_envelope_to_bytes :: "prims \<Rightarrow> note_envelope \<Rightarrow> u8 list" where
  "note_envelope_to_bytes P e = digest_as_bytes P (note_id_digest (env_note_id e))
     @ concat (map (le_bytes 8) (elements (note_metadata_to_word P (env_metadata e))))"

definition note_to_envelope :: "'p miden_note \<Rightarrow> note_envelope" where
  "note_to_envelope n = \<lparr> env_note_id = nt_id n, env_metadata = nt_metadata n \<rparr>"

definition write_note_envelope :: "prims \<Rightarrow> note_envelope \<Rightarrow> u8 list" where
  "write_note_envelope P e = write_note_id P (env_note_id e) @ write_note_metadata P (env_metadata e)"

definition read_note_envelope :: "prims \<Rightarrow> (note_envelope, deserialization_error) reader" where
  "read_note_envelope P bs =
     and_then (read_note_id P bs) (\<lambda>(i, bs1).
     and_then (read_note_metadata P bs1) (\<lambda>(m, bs2).
       Ok (\<lparr> env_note_id = i, env_metadata = m \<rparr>, bs2)))"

section \<open>Inclusion proofs\<close>

record node_index =
  node_depth :: u8
  node_value :: u64

type_synonym merkle_path = "digest list"

record merkle_ops =
  node_index_new :: "u8 \<Rightarrow> u64 \<Rightarrow> (node_index, merkle_error) result"
  put_node_index :: "node_index \<Rightarrow> u8 list"
  get_node_index :: "(node_index, deserialization_error) reader"
  put_merkle_path :: "merkle_path \<Rightarrow> u8 list"
  get_merkle_path :: "(merkle_path, deserialization_error) reader"
  show_merkle_error :: "merkle_error \<Rightarrow> string"

definition node_index_ok :: "node_index \<Rightarrow> bool" where
  "node_index_ok i \<longleftrightarrow> unat (node_value i) < 2 ^ unat (node_depth i)"

definition merkle_path_ok :: "prims \<Rightarrow> merkle_path \<Rightarrow> bool" where
  "merkle_path_ok P p \<longleftrightarrow> length p \<le> 255 \<and> list_all (word_ok P) p"

locale merkle_spec =
  fixes P :: prims and M :: merkle_ops
  assumes node_index_new_ok: "unat v < 2 ^ unat d \<Longrightarrow>
      node_index_new M d v = Ok \<lparr> node_depth = d, node_value = v \<rparr>"
    and node_index_new_err: "\<not> unat v < 2 ^ unat d \<Longrightarrow> \<exists>e. node_index_new M d v = Err e"
    and get_put_node_index: "node_index_ok i \<Longrightarrow> get_node_index M (put_node_index M i @ bs) = Ok (i, bs)"
    and get_node_index_ok: "get_node_index M bs = Ok (i, bs') \<Longrightarrow> node_index_ok i"
    and get_put_merkle_path: "merkle_path_ok P p \<Longrightarrow> get_merkle_path M (put_merkle_path M p @ bs) = Ok (p, bs)"
    and get_merkle_path_ok: "get_merkle_path M bs = Ok (p, bs') \<Longrightarrow> merkle_path_ok P p"

definition NOTE_TREE_DEPTH :: u8 where
  "NOTE_TREE_DEPTH = 20"

record note_origin =
  org_block_num :: u32
  org_node_index :: node_index

record note_inclusion_proof =
  prf_origin :: note_origin
  prf_sub_hash :: digest
  prf_note_root :: digest
  prf_note_path :: merkle_path

definition note_inclusion_proof_new ::
    "merkle_ops \<Rightarrow> u32 \<Rightarrow> digest \<Rightarrow> digest \<Rightarrow> u64 \<Rightarrow> merkle_path \<Rightarrow> (note_inclusion_proof, note_error) result" where
  "note_inclusion_proof_new M block_num sh nr index path =
     and_then (map_err (\<lambda>e. InvalidOriginIndex (show_merkle_error M e)) (node_index_new M NOTE_TREE_DEPTH index)) (\<lambda>ni.
       Ok \<lparr> prf_origin = \<lparr> org_block_num = block_num, org_node_index = ni \<rparr>, prf_sub_hash = sh,
            prf_note_root = nr, prf_note_path = path \<rparr>)"

definition write_note_origin :: "prims \<Rightarrow> merkle_ops \<Rightarrow> note_origin \<Rightarrow> u8 list" where
  "write_note_origin P M org = put_u32 P (org_block_num org) @ put_node_index M (org_node_index org)"

definition read_note_origin :: "prims \<Rightarrow> merkle_ops \<Rightarrow> (note_origin, deserialization_error) reader" where
  "read_note_origin P M bs =
     and_then (get_u32 P bs) (\<lambda>(b, bs1).
     and_then (get_node_index M bs1) (\<lambda>(i, bs2).
       Ok (\<lparr> org_block_num = b, org_node_index = i \<rparr>, bs2)))"

definition write_note_inclusion_proof :: "prims \<Rightarrow> merkle_ops \<Rightarrow> note_inclusion_proof \<Rightarrow> u8 list" where
  "write_note_inclusion_proof P M p = write_note_origin P M (prf_origin p) @ put_digest P (prf_sub_hash p)
     @ put_digest P (prf_note_root p) @ put_merkle_path M (prf_note_path p)"

definition read_note_inclusion_proof :: "prims \<Rightarrow> merkle_ops \<Rightarrow> (note_inclusion_proof, deserialization_error) reader" where
  "read_note_inclusion_proof P M bs =
     and_then (read_note_origin P M bs) (\<lambda>(org, bs1).
     and_then (get_digest P bs1) (\<lambda>(sh, bs2).
     and_then (get_digest P bs2) (\<lambda>(nr, bs3).
     and_then (get_merkle_path M bs3) (\<lambda>(path, bs4).
       Ok (\<lparr> prf_origin = org, prf_sub_hash = sh, prf_note_root = nr, prf_note_path = path \<rparr>, bs4)))))"

section \<open>Well-formed notes\<close>

definition recipient_ok :: "prims \<Rightarrow> 'p note_recipient \<Rightarrow> bool" where
  "recipient_ok P r \<longleftrightarrow> script_ok P (rcp_script r) \<and> note_inputs_ok P (rcp_inputs r) \<and> word_ok P (rcp_serial_num r) \<and>
     r = note_recipient_new P (rcp_serial_num r) (rcp_script r) (rcp_inputs r)"

definition note_ok :: "prims \<Rightarrow> 'p miden_note \<Rightarrow> bool" where
  "note_ok P n \<longleftrightarrow> note_assets_ok P (nt_assets n) \<and> metadata_ok P (nt_metadata n) \<and> recipient_ok P (nt_recipient n) \<and>
     n = note_new P (nt_assets n) (nt_metadata n) (nt_recipient n)"

lemma note_new_parts [simp]:
  "nt_assets (note_new P as m r) = as" "nt_metadata (note_new P as m r) = m" "nt_recipient (note_new P as m r) = r"
  by (simp_all add: note_new_def)

lemma recipient_new_parts [simp]:
  "rcp_serial_num (note_recipient_new P s sc i) = s" "rcp_script (note_recipient_new P s sc i) = sc"
  "rcp_inputs (note_recipient_new P s sc i) = i"
  by (simp_all add: note_recipient_new_def)

context io_spec
begin

lemma read_write_note_id: "word_ok P (note_id_digest i) \<Longrightarrow> read_note_id P (write_note_id P i @ bs) = Ok (i, bs)"
  by (simp add: read_note_id_def write_note_id_def get_put_digest)

lemma read_write_nullifier:
  "word_ok P (nullifier_digest n) \<Longrightarrow> read_nullifier P (write_nullifier P n @ bs) = Ok (n, bs)"
  by (simp add: read_nullifier_def write_nullifier_def get_put_digest)

text \<open>An envelope is read back whatever its note type is.\<close>

lemma read_write_note_envelope:
  "word_ok P (note_id_digest (env_note_id e)) \<Longrightarrow> metadata_ok P (env_metadata e) \<Longrightarrow>
   read_note_envelope P (write_note_envelope P e @ bs) = Ok (e, bs)"
  by (simp add: read_note_envelope_def write_note_envelope_def read_write_note_id read_write_note_metadata)

end

context script_spec
begin

lemma read_write_note_recipient:
  assumes "recipient_ok P r"
  shows "\<exists>b. write_note_recipient P Q r = Ok b \<and> read_note_recipient P Q (b @ bs) = Ok (r, bs)"
proof -
  have ok: "script_ok P (rcp_script r)" "note_inputs_ok P (rcp_inputs r)" "word_ok P (rcp_serial_num r)"
    and r: "note_recipient_new P (rcp_serial_num r) (rcp_script r) (rcp_inputs r) = r"
    using assms by (auto simp: recipient_ok_def)
  obtain b where b: "write_note_inputs P (rcp_inputs r) = Ok b"
    "read_note_inputs P (b @ put_word P (rcp_serial_num r) @ bs) = Ok (rcp_inputs r, put_word P (rcp_serial_num r) @ bs)"
    using read_write_note_inputs [OF ok(2)] by blast
  then show ?thesis
    using ok r by (simp add: write_note_recipient_def read_note_recipient_def read_write_note_script get_put_word)
qed

lemma read_note_recipient_ok: "read_note_recipient P Q bs = Ok (r, bs') \<Longrightarrow> recipient_ok P r"
  by (auto simp: read_note_recipient_def res_simps recipient_ok_def
      dest: read_note_script_ok read_note_inputs_ok get_word_ok)

lemma read_write_note:
  assumes "note_ok P n" "length (na_assets (nt_assets n)) \<le> 255"
  shows "\<exists>b. write_note P Q n = Ok b \<and> read_note P Q (b @ bs) = Ok (n, bs)"
proof -
  have ok: "note_assets_ok P (nt_assets n)" "metadata_ok P (nt_metadata n)" "recipient_ok P (nt_recipient n)"
    and n: "note_new P (nt_assets n) (nt_metadata n) (nt_recipient n) = n"
    using assms(1) by (auto simp: note_ok_def)
  obtain b where b: "write_note_recipient P Q (nt_recipient n) = Ok b"
    "read_note_recipient P Q (b @ bs) = Ok (nt_recipient n, bs)"
    using read_write_note_recipient [OF ok(3)] by blast
  then show ?thesis
    using n by (simp add: write_note_def read_note_def read_write_note_assets [OF ok(1) assms(2)]
        read_write_note_metadata [OF ok(2)])
qed

lemma read_note_ok: "read_note P Q bs = Ok (n, bs') \<Longrightarrow> note_ok P n"
  by (auto simp: read_note_def res_simps note_ok_def dest: read_note_assets_ok read_note_metadata_ok read_note_recipient_ok)

end

section \<open>Inclusion proofs read back\<close>

definition inclusion_proof_ok :: "prims \<Rightarrow> note_inclusion_proof \<Rightarrow> bool" where
  "inclusion_proof_ok P p \<longleftrightarrow> node_index_ok (org_node_index (prf_origin p)) \<and> word_ok P (prf_sub_hash p) \<and>
     word_ok P (prf_note_root p) \<and> merkle_path_ok P (prf_note_path p)"

locale proof_spec = prims_spec P + merkle_spec P M for P :: prims and M :: merkle_ops
begin

lemma read_write_inclusion_proof:
  "inclusion_proof_ok P p \<Longrightarrow> read_note_inclusion_proof P M (write_note_inclusion_proof P M p @ bs) = Ok (p, bs)"
  by (simp add: inclusion_proof_ok_def read_note_inclusion_proof_def write_note_inclusion_proof_def
      read_note_origin_def write_note_origin_def get_put_u32 get_put_node_index get_put_digest get_put_merkle_path)

lemma read_inclusion_proof_ok: "read_note_inclusion_proof P M bs = Ok (p, bs') \<Longrightarrow> inclusion_proof_ok P p"
  by (auto simp: inclusion_proof_ok_def read_note_inclusion_proof_def read_note_origin_def res_simps
      dest: get_node_index_ok get_digest_ok get_merkle_path_ok)

end

definition sample_merkle :: merkle_ops where
  "sample_merkle = \<lparr>
     node_index_new = (\<lambda>d v. if unat v < 2 ^ unat d then Ok \<lparr> node_depth = d, node_value = v \<rparr> else Err (MerkleError ''index'')),
     put_node_index = (\<lambda>i. put_u8 sample_prims (node_depth i) @ put_u64 sample_prims (node_value i)),
     get_node_index = (\<lambda>bs. and_then (get_u8 sample_prims bs) (\<lambda>(d, bs1).
       and_then (get_u64 sample_prims bs1) (\<lambda>(v, bs2).
         if unat v < 2 ^ unat d then Ok (\<lparr> node_depth = d, node_value = v \<rparr>, bs2) else Err (InvalidValue ''index'')))),
     put_merkle_path = (\<lambda>p. put_u8 sample_prims (of_nat (length p)) @ write_many (put_digest sample_prims) p),
     get_merkle_path = (\<lambda>bs. and_then (get_u8 sample_prims bs) (\<lambda>(n, bs1).
       read_many (unat n) (get_digest sample_prims) bs1)),
     show_merkle_error = (\<lambda>_. []) \<rparr>"

interpretation sample_merkle_laws: merkle_spec sample_prims sample_merkle
proof unfold_locales
  show "get_node_index sample_merkle (put_node_index sample_merkle i @ bs) = Ok (i, bs)" if "node_index_ok i" for i bs
    using that by (simp add: sample_merkle_def sample_io_laws.get_put_u8 sample_io_laws.get_put_u64 node_index_ok_def)
  show "get_merkle_path sample_merkle (put_merkle_path sample_merkle p @ bs) = Ok (p, bs)"
    if "merkle_path_ok sample_prims p" for p bs
  proof -
    have "unat (of_nat (length p) :: u8) = length p" using that by (simp add: merkle_path_ok_def unat_of_nat)
    with that sample_io_laws.c_digest.read_many_write_many [of p "length p" bs] show ?thesis
      by (simp add: sample_merkle_def sample_io_laws.get_put_u8 merkle_path_ok_def)
  qed
  have many: "read_many n (get_digest sample_prims) bs = Ok (p, bs') \<Longrightarrow> list_all (word_ok sample_prims) p" for n bs p bs'
    by (induction n arbitrary: bs p bs') (auto simp: res_simps sample_io_laws.get_digest_ok)
  show "merkle_path_ok sample_prims p" if "get_merkle_path sample_merkle bs = Ok (p, bs')" for bs p bs'
  proof -
    from that obtain n :: u8 and bs1 where "read_many (unat n) (get_digest sample_prims) bs1 = Ok (p, bs')"
      by (auto simp: sample_merkle_def res_simps)
    from many [OF this] read_many_length [OF this] unat_u8_less [of n] show ?thesis by (simp add: merkle_path_ok_def)
  qed
qed (auto simp: sample_merkle_def node_index_ok_def res_simps split: if_splits)

interpretation sample_proof_laws: proof_spec sample_prims sample_merkle
  by unfold_locales

text \<open>A note with a given serial number.\<close>

definition sample_note :: "word4 \<Rightarrow> u8 list miden_note" where
  "sample_note serial = note_new sample_prims
     \<lparr> na_assets = [sample_coin], na_hash = compute_asset_commitment sample_prims [sample_coin] \<rparr>
     \<lparr> md_sender = sample_faucet, md_note_type = Public, md_tag = NoteTag 0x80000007, md_aux = 0 \<rparr>
     (note_recipient_new sample_prims serial \<lparr> script_hash = W 9 9 9 9, script_code = [7] \<rparr>
        \<lparr> ni_values = [5], ni_hash = hash_elements sample_prims (pad_inputs [5]) \<rparr>)"

lemma sample_note_ok:
  assumes "word_ok sample_prims serial"
  shows "note_ok sample_prims (sample_note serial)"
proof -
  have "account_id_ok sample_prims sample_faucet"
    using sample_assets_ok(1) by (simp add: sample_coin_def fungible_ok_def)
  with assms sample_assets_ok(1) show ?thesis
    by (simp add: sample_note_def note_ok_def recipient_ok_def note_assets_ok_def note_assets_new_Ok metadata_ok_def
        script_ok_def note_inputs_ok_def note_inputs_new_Ok sample_felt_ok)
qed

section \<open>Properties\<close>

text \<open>
  C25. Reading back notes.  A well-formed note with at most 255 assets is written without a
  panic and read back as the same note, with the same identifier and nullifier; and every
  note that is read has the identifier and the nullifier that its own recipient, assets,
  script, inputs and serial number determine.
\<close>

theorem note_serialization:
  assumes "script_spec P Q"
  shows "(note_ok P n \<and> length (na_assets (nt_assets n)) \<le> 255 \<longrightarrow>
      (\<exists>b. write_note P Q n = Ok b \<and> read_note P Q (b @ rest) = Ok (n, rest))) \<and>
    (read_note P Q bs = Ok (m, bs') \<longrightarrow> note_ok P m \<and> nt_id m = note_to_note_id P m \<and>
      nt_nullifier m = note_to_nullifier P m)"
proof (intro conjI impI)
  assume "read_note P Q bs = Ok (m, bs')"
  from script_spec.read_note_ok [OF assms this] show "note_ok P m"
    and "nt_id m = note_to_note_id P m" "nt_nullifier m = note_to_nullifier P m"
    by (auto simp: note_ok_def note_to_note_id_def note_to_nullifier_def) (metis note_new_def miden_note.select_convs)+
qed (use script_spec.read_write_note [OF assms] in blast)

theorem note_serialization_witness:
  "\<exists>b. write_note sample_prims sample_prog (sample_note (W 1 2 3 4)) = Ok b \<and>
     read_note sample_prims sample_prog (b @ []) = Ok (sample_note (W 1 2 3 4), [])"
proof -
  have "word_ok sample_prims (W 1 2 3 4)" by (simp add: sample_felt_ok)
  from sample_note_ok [OF this] note_serialization [OF sample_script_laws.script_spec_axioms, of "sample_note (W 1 2 3 4)" "[]"]
  show ?thesis by (simp add: sample_note_def)
qed

text \<open>
  Inclusion proofs.  A proof is built exactly for a leaf index below \<open>2^20\<close>, proofs are read
  back as they were written, and every proof that is read is well-formed.
\<close>

theorem inclusion_proof_correct:
  assumes "proof_spec P M"
  shows "(if unat index < 2 ^ 20
      then \<exists>p. note_inclusion_proof_new M b sh nr index path = Ok p \<and>
        (word_ok P sh \<and> word_ok P nr \<and> merkle_path_ok P path \<longrightarrow>
          read_note_inclusion_proof P M (write_note_inclusion_proof P M p @ rest) = Ok (p, rest))
      else \<exists>e. note_inclusion_proof_new M b sh nr index path = Err (InvalidOriginIndex e)) \<and>
    (read_note_inclusion_proof P M bs = Ok (q, bs') \<longrightarrow> inclusion_proof_ok P q)"
proof (intro conjI impI)
  have M: "merkle_spec P M" using assms by (rule proof_spec.axioms)
  show "if unat index < 2 ^ 20
      then \<exists>p. note_inclusion_proof_new M b sh nr index path = Ok p \<and>
        (word_ok P sh \<and> word_ok P nr \<and> merkle_path_ok P path \<longrightarrow>
          read_note_inclusion_proof P M (write_note_inclusion_proof P M p @ rest) = Ok (p, rest))
      else \<exists>e. note_inclusion_proof_new M b sh nr index path = Err (InvalidOriginIndex e)"
    using merkle_spec.node_index_new_ok [OF M, of index 20] merkle_spec.node_index_new_err [OF M, of index 20]
      proof_spec.read_write_inclusion_proof [OF assms]
    by (auto simp: note_inclusion_proof_new_def NOTE_TREE_DEPTH_def inclusion_proof_ok_def node_index_ok_def)
qed (rule proof_spec.read_inclusion_proof_ok [OF assms])

theorem inclusion_proof_correct_witness:
  "\<exists>p. note_inclusion_proof_new sample_merkle 7 (W 1 2 3 4) (W 5 6 7 8) 12 [W 0 0 0 1] = Ok p \<and>
     read_note_inclusion_proof sample_prims sample_merkle (write_note_inclusion_proof sample_prims sample_merkle p @ []) = Ok (p, [])"
  using inclusion_proof_correct [OF sample_proof_laws.proof_spec_axioms, of 12 7 "W 1 2 3 4" "W 5 6 7 8" "[W 0 0 0 1]" "[]"]
  by (auto simp: sample_felt_ok merkle_path_ok_def)

end
