(* ===== verification/Block.thy ===== *)
theory Block
  imports Note Storage
begin

text \<open>
  Block headers (\<open>objects/src/block/header.rs\<close>) and the trees that commit to the notes of a
  block and of a batch (\<open>block/note_tree.rs\<close>, \<open>batches/note_tree.rs\<close>).  A \<open>usize\<close> is a 64-bit
  integer.  Operations of the sparse Merkle tree beyond the record \<open>S\<close> are extra arguments:
  \<open>opening\<close> for the path of \<open>SimpleSmt::open\<close>, \<open>num_leaves\<close> and \<open>contiguous\<close> for
  \<open>SimpleSmt::with_contiguous_leaves\<close>.
\<close>

section \<open>Block headers\<close>

record block_header =
  bh_prev_hash :: digest
  bh_block_num :: u32
  bh_chain_root :: digest
  bh_account_root :: digest
  bh_nullifier_root :: digest
  bh_note_root :: digest
  bh_batch_root :: digest
  bh_proof_hash :: digest
  bh_version :: felt
  bh_timestamp :: felt
  bh_sub_hash :: digest
  bh_hash :: digest

definition compute_sub_hash ::
    "prims \<Rightarrow> digest \<Rightarrow> digest \<Rightarrow> digest \<Rightarrow> digest \<Rightarrow> digest \<Rightarrow> digest \<Rightarrow> felt \<Rightarrow> felt \<Rightarrow> u32 \<Rightarrow> digest" where
  "compute_sub_hash P prev chain acct nullif batch prf version timestamp block_num =
     hash_elements P (resize 32 0 (elements prev @ elements chain @ elements acct @ elements nullif
       @ elements batch @ elements prf @ [felt_new P (ucast block_num), version, timestamp, 0]))"

definition block_header_new ::
    "prims \<Rightarrow> digest \<Rightarrow> u32 \<Rightarrow> digest \<Rightarrow> digest \<Rightarrow> digest \<Rightarrow> digest \<Rightarrow> digest \<Rightarrow> digest \<Rightarrow> felt \<Rightarrow> felt
       \<Rightarrow> block_header" where
  "block_header_new P prev block_num chain acct nullif nts batch prf version timestamp =
    (let sub = compute_sub_hash P prev chain acct nullif batch prf version timestamp block_num in
     \<lparr> bh_prev_hash = prev, bh_block_num = block_num, bh_chain_root = chain, bh_account_root = acct,
       bh_nullifier_root = nullif, bh_note_root = nts, bh_batch_root = batch, bh_proof_hash = prf,
       bh_version = version, bh_timestamp = timestamp, bh_sub_hash = sub, bh_hash = hash_merge P sub nts \<rparr>)"

definition write_block_header :: "prims \<Rightarrow> block_header \<Rightarrow> u8 list" where
  "write_block_header P h = put_digest P (bh_prev_hash h) @ put_u32 P (bh_block_num h)
     @ put_digest P (bh_chain_root h) @ put_digest P (bh_account_root h) @ put_digest P (bh_nullifier_root h)
     @ put_digest P (bh_note_root h) @ put_digest P (bh_batch_root h) @ put_digest P (bh_proof_hash h)
     @ put_felt P (bh_version h) @ put_felt P (bh_timestamp h) @ put_digest P (bh_sub_hash h)
     @ put_digest P (bh_hash h)"

definition read_block_header :: "prims \<Rightarrow> (block_header, deserialization_error) reader" where
  "read_block_header P bs =
     and_then (get_digest P bs) (\<lambda>(prev, bs1).
     and_then (get_u32 P bs1) (\<lambda>(block_num, bs2).
     and_then (get_digest P bs2) (\<lambda>(chain, bs3).
     and_then (get_digest P bs3) (\<lambda>(acct, bs4).
     and_then (get_digest P bs4) (\<lambda>(nullif, bs5).
     and_then (get_digest P bs5) (\<lambda>(nts, bs6).
     and_then (get_digest P bs6) (\<lambda>(batch, bs7).
     and_then (get_digest P bs7) (\<lambda>(prf, bs8).
     and_then (get_felt P bs8) (\<lambda>(version, bs9).
     and_then (get_felt P bs9) (\<lambda>(timestamp, bs10).
     and_then (get_digest P bs10) (\<lambda>(sub, bs11).
     and_then (get_digest P bs11) (\<lambda>(h, bs12).
       Ok (\<lparr> bh_prev_hash = prev, bh_block_num = block_num, bh_chain_root = chain, bh_account_root = acct,
         bh_nullifier_root = nullif, bh_note_root = nts, bh_batch_root = batch, bh_proof_hash = prf,
         bh_version = version, bh_timestamp = timestamp, bh_sub_hash = sub, bh_hash = h \<rparr>, bs12)))))))))))))"

section \<open>Note trees\<close>

definition BATCH_OUTPUT_NOTES_TREE_DEPTH :: nat where
  "BATCH_OUTPUT_NOTES_TREE_DEPTH = 13"

definition MAX_NOTES_PER_BATCH :: u64 where
  "MAX_NOTES_PER_BATCH = 2 ^ (BATCH_OUTPUT_NOTES_TREE_DEPTH - 1)"

definition BLOCK_OUTPUT_NOTES_BATCH_TREE_DEPTH :: nat where
  "BLOCK_OUTPUT_NOTES_BATCH_TREE_DEPTH = 8"

definition BLOCK_OUTPUT_NOTES_TREE_DEPTH :: nat where
  "BLOCK_OUTPUT_NOTES_TREE_DEPTH = BATCH_OUTPUT_NOTES_TREE_DEPTH + BLOCK_OUTPUT_NOTES_BATCH_TREE_DEPTH"

definition block_note_index :: "u64 \<Rightarrow> u64 \<Rightarrow> u64" where
  "block_note_index batch_idx note_idx_in_batch = batch_idx * MAX_NOTES_PER_BATCH + note_idx_in_batch"

definition block_leaf_index :: "u64 \<Rightarrow> u64 \<Rightarrow> u64" where
  "block_leaf_index batch_idx note_idx_in_batch = block_note_index batch_idx note_idx_in_batch * 2"

type_synonym note_entry = "u64 \<times> u64 \<times> digest \<times> note_metadata"

fun note_leaves :: "prims \<Rightarrow> note_entry \<Rightarrow> (u64 \<times> word4) list" where
  "note_leaves P (batch_index, nix, nid, metadata) =
    (let id_index = block_leaf_index batch_index nix in
     [(id_index, nid), (id_index + 1, note_metadata_to_word P metadata)])"

definition block_note_tree_with_entries ::
    "prims \<Rightarrow> 's simple_smt_ops \<Rightarrow> note_entry list \<Rightarrow> ('s, merkle_error) result" where
  "block_note_tree_with_entries P S entries = ssmt_with_leaves S (concat (map (note_leaves P) entries))"

definition block_note_tree_root :: "'s simple_smt_ops \<Rightarrow> 's \<Rightarrow> digest" where
  "block_note_tree_root S t = ssmt_root S t"

definition get_note_path ::
    "merkle_ops \<Rightarrow> ('s \<Rightarrow> u64 \<Rightarrow> merkle_path) \<Rightarrow> 's \<Rightarrow> u64 \<Rightarrow> u64 \<Rightarrow> (merkle_path, merkle_error) result" where
  "get_note_path M opening t batch_idx nix =
     and_then (node_index_new M (of_nat BLOCK_OUTPUT_NOTES_TREE_DEPTH) (block_leaf_index batch_idx nix)) (\<lambda>i.
       case opening t (node_value i) of
         [] \<Rightarrow> Panic ''range start index 1 out of range''
       | _ # path \<Rightarrow> Ok path)"

definition write_block_note_tree :: "prims \<Rightarrow> 's simple_smt_ops \<Rightarrow> ('s \<Rightarrow> nat) \<Rightarrow> 's \<Rightarrow> u8 list" where
  "write_block_note_tree P S num_leaves t = put_u32 P (of_nat (num_leaves t))
     @ write_many (\<lambda>(i, w). put_u64 P i @ put_word P w) (ssmt_leaves S t)"

definition read_leaf :: "prims \<Rightarrow> (u64 \<times> word4, deserialization_error) reader" where
  "read_leaf P bs =
     and_then (get_u64 P bs) (\<lambda>(i, bs1). and_then (get_word P bs1) (\<lambda>(w, bs2). Ok ((i, w), bs2)))"

definition read_block_note_tree ::
    "prims \<Rightarrow> merkle_ops \<Rightarrow> 's simple_smt_ops \<Rightarrow> ('s, deserialization_error) reader" where
  "read_block_note_tree P M S bs =
     and_then (get_u32 P bs) (\<lambda>(count, bs1).
     and_then (read_many (unat count) (read_leaf P) bs1) (\<lambda>(leaves, bs2).
     and_then (map_err (\<lambda>e. InvalidValue (show_merkle_error M e)) (ssmt_with_leaves S leaves)) (\<lambda>t. Ok (t, bs2))))"

definition batch_note_tree_with_contiguous_leaves ::
    "prims \<Rightarrow> (word4 list \<Rightarrow> ('s, merkle_error) result) \<Rightarrow> (note_id \<times> note_metadata) list \<Rightarrow> ('s, merkle_error) result" where
  "batch_note_tree_with_contiguous_leaves P contiguous entries =
     contiguous (concat (map (\<lambda>(i, m). [note_id_digest i, note_metadata_to_word P m]) entries))"

definition batch_note_tree_root :: "'s simple_smt_ops \<Rightarrow> 's \<Rightarrow> digest" where
  "batch_note_tree_root S t = ssmt_root S t"

section \<open>Headers\<close>

definition block_header_ok :: "prims \<Rightarrow> block_header \<Rightarrow> bool" where
  "block_header_ok P h \<longleftrightarrow>
     list_all (word_ok P) [bh_prev_hash h, bh_chain_root h, bh_account_root h, bh_nullifier_root h, bh_note_root h,
       bh_batch_root h, bh_proof_hash h, bh_sub_hash h, bh_hash h] \<and> felt_ok P (bh_version h) \<and> felt_ok P (bh_timestamp h)"

context io_spec
begin

lemma read_write_block_header:
  "block_header_ok P h \<Longrightarrow> read_block_header P (write_block_header P h @ bs) = Ok (h, bs)"
  by (simp add: block_header_ok_def read_block_header_def write_block_header_def get_put_digest get_put_u32 get_put_felt)

end

lemma block_header_new_ok:
  assumes "hash_spec P" "list_all (word_ok P) [prev, chain, acct, nullif, nts, batch, prf]" "felt_ok P v" "felt_ok P ts"
  shows "block_header_ok P (block_header_new P prev n chain acct nullif nts batch prf v ts)"
  using assms hash_spec.hash_elements_ok [OF assms(1)] hash_spec.hash_merge_ok [OF assms(1)]
  by (simp add: block_header_new_def block_header_ok_def Let_def compute_sub_hash_def)

section \<open>The leaves of a note\<close>

definition entry_ok :: "note_entry \<Rightarrow> bool" where
  "entry_ok e \<longleftrightarrow> (case e of (b, n, _) \<Rightarrow> unat b < 256 \<and> unat n < 4096)"

definition entry_pos :: "note_entry \<Rightarrow> u64 \<times> u64" where
  "entry_pos e = (case e of (b, n, _) \<Rightarrow> (b, n))"

lemma block_leaf_index_unat:
  assumes "unat b < 256" "unat n < 4096"
  shows "unat (block_note_index b n) = unat b * 4096 + unat n"
    "unat (block_leaf_index b n) = 2 * (unat b * 4096 + unat n)"
    "unat (block_leaf_index b n + 1) = 2 * (unat b * 4096 + unat n) + 1"
proof -
  have max: "unat MAX_NOTES_PER_BATCH = 4096" by (simp add: MAX_NOTES_PER_BATCH_def BATCH_OUTPUT_NOTES_TREE_DEPTH_def)
  have "unat b * 4096 + unat n < 2 ^ 20" using assms by simp
  then show "unat (block_note_index b n) = unat b * 4096 + unat n"
    and "unat (block_leaf_index b n) = 2 * (unat b * 4096 + unat n)"
    and "unat (block_leaf_index b n + 1) = 2 * (unat b * 4096 + unat n) + 1"
    by (simp_all add: block_note_index_def block_leaf_index_def unat_word_ariths max)
qed

lemma block_note_index_inj:
  assumes "unat b < 256" "unat n < 4096" "unat b' < 256" "unat n' < 4096"
    "unat b * 4096 + unat n = unat b' * 4096 + unat n'"
  shows "b = b' \<and> n = n'"
proof -
  have "x = x' \<and> y = y'" if "x * 4096 + y = x' * 4096 + y'" "y < 4096" "y' < 4096" for x x' y y' :: nat
  proof -
    have "(x * 4096 + y) div 4096 = x" "(x' * 4096 + y') div 4096 = x'" using that by simp_all
    then show ?thesis using that(1) by simp
  qed
  then show ?thesis using assms unfolding word_unat_eq_iff by blast
qed

lemma block_leaves_apart:
  assumes "unat b < 256" "unat n < 4096" "unat b' < 256" "unat n' < 4096" "(b, n) \<noteq> (b', n')"
    "x = block_leaf_index b n \<or> x = block_leaf_index b n + 1"
    "y = block_leaf_index b' n' \<or> y = block_leaf_index b' n' + 1"
  shows "x \<noteq> y"
proof
  assume "x = y"
  let ?p = "unat b * 4096 + unat n" and ?q = "unat b' * 4096 + unat n'"
  have "unat x = 2 * ?p \<or> unat x = 2 * ?p + 1" using assms(6) block_leaf_index_unat [OF assms(1,2)] by metis
  moreover have "unat x = 2 * ?q \<or> unat x = 2 * ?q + 1"
    using assms(7) \<open>x = y\<close> block_leaf_index_unat [OF assms(3,4)] by metis
  ultimately have "?p = ?q" by presburger
  then show False using block_note_index_inj [OF assms(1-4)] assms(5) by simp
qed

lemma note_leaves_fst:
  "(b, n, i, m) \<in> set es \<Longrightarrow> j \<in> fst ` set (note_leaves P (b, n, i, m)) \<longleftrightarrow>
     j = block_leaf_index b n \<or> j = block_leaf_index b n + 1"
  by (auto simp: Let_def)

lemma entries_distinct:
  assumes "list_all entry_ok es" "distinct (map entry_pos es)"
  shows "distinct (map fst (concat (map (note_leaves P) es)))"
  using assms
proof (induction es)
  case (Cons e es)
  obtain b n i m where e: "e = (b, n, i, m)" by (cases e) auto
  have pos: "unat b < 256" "unat n < 4096" using Cons.prems(1) by (auto simp: e entry_ok_def)
  have apart: "x \<noteq> j" if j: "j \<in> fst ` set (concat (map (note_leaves P) es))"
    and x: "x = block_leaf_index b n \<or> x = block_leaf_index b n + 1" for j x
  proof -
    from j obtain e' where e': "e' \<in> set es" "j \<in> fst ` set (note_leaves P e')"
      unfolding set_concat set_map by blast
    obtain b' n' i' m' where e'_eq: "e' = (b', n', i', m')" by (cases e') auto
    have pos': "unat b' < 256" "unat n' < 4096"
      using Cons.prems(1) e' by (auto simp: list_all_iff entry_ok_def e'_eq)
    have "(b, n) \<noteq> (b', n')" using Cons.prems(2) e' by (force simp: e e'_eq entry_pos_def)
    then show ?thesis
      using block_leaves_apart [OF pos pos' _ x] e' note_leaves_fst [of b' n' i' m' es j P] unfolding e'_eq by blast
  qed
  have "distinct (map fst (concat (map (note_leaves P) es)))" using Cons by simp
  then show ?case using apart by (force simp: e Let_def)
qed simp

lemma entries_in_range:
  assumes "list_all entry_ok es"
  shows "list_all (\<lambda>l. unat (fst l) < 2 ^ BLOCK_OUTPUT_NOTES_TREE_DEPTH) (concat (map (note_leaves P) es))"
proof -
  have "unat (block_leaf_index b n) < 2 ^ 21 \<and> unat (block_leaf_index b n + 1) < 2 ^ 21"
    if "(b, n, i, m) \<in> set es" for b n i m
  proof -
    have "unat b < 256" "unat n < 4096" using assms that by (auto simp: list_all_iff entry_ok_def)
    then show ?thesis using block_leaf_index_unat [of b n] by simp
  qed
  then show ?thesis
    by (force simp: list_all_iff Let_def BLOCK_OUTPUT_NOTES_TREE_DEPTH_def BATCH_OUTPUT_NOTES_TREE_DEPTH_def
        BLOCK_OUTPUT_NOTES_BATCH_TREE_DEPTH_def)
qed

lemma entries_not_distinct:
  assumes "\<not> distinct (map entry_pos es)"
  shows "\<not> distinct (map fst (concat (map (note_leaves P) es)))"
  using assms
proof (induction es)
  case (Cons e es)
  obtain b n i m where e: "e = (b, n, i, m)" by (cases e) auto
  show ?case
  proof (cases "entry_pos e \<in> entry_pos ` set es")
    case True
    then obtain i' m' where "(b, n, i', m') \<in> set es" by (force simp: e entry_pos_def)
    then have "block_leaf_index b n \<in> fst ` set (concat (map (note_leaves P) es))" by (force simp: Let_def)
    then show ?thesis by (simp add: e Let_def)
  next
    case False
    then show ?thesis using Cons by simp
  qed
qed simp

section \<open>Paths\<close>

text \<open>The root that a Merkle path gives for a node at an index (\<open>MerklePath::compute_root\<close>).\<close>

fun path_root :: "prims \<Rightarrow> nat \<Rightarrow> digest \<Rightarrow> merkle_path \<Rightarrow> digest" where
  "path_root P i node [] = node"
| "path_root P i node (s # path) = path_root P (i div 2) (if even i then hash_merge P node s else hash_merge P s node) path"

text \<open>
  The opening of a leaf is a path of the depth of the tree: it starts with the neighbour of the leaf and
  leads from the leaf to the root.
\<close>

locale opening_spec = simple_smt_spec S d
  for S :: "'s simple_smt_ops" and d :: nat +
  fixes P :: prims and open_path :: "'s \<Rightarrow> u64 \<Rightarrow> merkle_path"
  assumes opening_length: "unat i < 2 ^ d \<Longrightarrow> length (open_path t i) = d"
    and opening_neighbour: "unat i < 2 ^ d \<Longrightarrow> open_path t i = s # path \<Longrightarrow>
      ssmt_get S t (if even (unat i) then i + 1 else i - 1) = Ok s"
    and opening_root: "unat i < 2 ^ d \<Longrightarrow> ssmt_get S t i = Ok w \<Longrightarrow> path_root P (unat i) w (open_path t i) = ssmt_root S t"
begin

lemma opening_pair:
  assumes "0 < d" "unat i < 2 ^ d" "even (unat i)" "ssmt_get S t i = Ok w" "ssmt_get S t (i + 1) = Ok w'"
  obtains path where "open_path t i = w' # path" "length path = d - 1"
    "path_root P (unat i div 2) (hash_merge P w w') path = ssmt_root S t"
proof -
  obtain s path where path: "open_path t i = s # path" using opening_length [OF assms(2), of t] assms(1) by (cases "open_path t i") auto
  have "s = w'" using opening_neighbour [OF assms(2) path] assms(3,5) by simp
  with path that opening_length [OF assms(2), of t] opening_root [OF assms(2,4)] assms(3) show thesis by simp
qed

end

text \<open>A tree whose inner nodes are the hashes of their children, with the openings of its leaves.\<close>

fun merkle_node :: "prims \<Rightarrow> (nat \<Rightarrow> word4) \<Rightarrow> nat \<Rightarrow> nat \<Rightarrow> digest" where
  "merkle_node P leaf 0 i = leaf i"
| "merkle_node P leaf (Suc h) i = hash_merge P (merkle_node P leaf h (2 * i)) (merkle_node P leaf h (2 * i + 1))"

definition neighbour :: "nat \<Rightarrow> nat" where
  "neighbour i = (if even i then i + 1 else i - 1)"

definition merkle_opening :: "prims \<Rightarrow> (nat \<Rightarrow> word4) \<Rightarrow> nat \<Rightarrow> nat \<Rightarrow> merkle_path" where
  "merkle_opening P leaf d i = map (\<lambda>h. merkle_node P leaf h (neighbour (i div 2 ^ h))) [0..<d]"

lemma merkle_step:
  "(if even i then hash_merge P (merkle_node P leaf h i) (merkle_node P leaf h (neighbour i))
    else hash_merge P (merkle_node P leaf h (neighbour i)) (merkle_node P leaf h i)) = merkle_node P leaf (Suc h) (i div 2)"
  by (auto simp: neighbour_def elim!: evenE oddE)

lemma merkle_path_root:
  "h \<le> d \<Longrightarrow> path_root P (i div 2 ^ h) (merkle_node P leaf h (i div 2 ^ h))
     (map (\<lambda>h. merkle_node P leaf h (neighbour (i div 2 ^ h))) [h..<d]) = merkle_node P leaf d (i div 2 ^ d)"
proof (induction "d - h" arbitrary: h)
  case (Suc n)
  then have "h < d" "n = d - Suc h" by simp_all
  moreover have "i div 2 ^ h div 2 = i div 2 ^ Suc h" by (simp only: div_mult2_eq power_Suc2)
  ultimately show ?case
    using Suc.hyps(1) [of "Suc h"] merkle_step [of "i div 2 ^ h" P leaf h] by (simp add: upt_conv_Cons del: merkle_node.simps)
qed simp

definition merkle_ssmt :: "nat \<Rightarrow> (u64 \<times> word4) list simple_smt_ops" where
  "merkle_ssmt d = (sample_ssmt d)\<lparr>ssmt_root := \<lambda>t. merkle_node sample_prims (\<lambda>i. leaf_lookup t (of_nat i)) d 0\<rparr>"

definition sample_opening :: "nat \<Rightarrow> (u64 \<times> word4) list \<Rightarrow> u64 \<Rightarrow> merkle_path" where
  "sample_opening d t i = merkle_opening sample_prims (\<lambda>i. leaf_lookup t (of_nat i)) d (unat i)"

lemma merkle_node_cong:
  "(\<And>j. j < 2 ^ h * Suc i \<Longrightarrow> f j = g j) \<Longrightarrow> merkle_node P f h i = merkle_node P g h i"
proof (induction h arbitrary: i)
  case (Suc h)
  have "j < 2 ^ Suc h * Suc i" if "j < 2 ^ h * Suc (2 * i) \<or> j < 2 ^ h * Suc (2 * i + 1)" for j
  proof -
    have "2 ^ h * Suc (2 * i) \<le> 2 ^ Suc h * Suc i" "2 ^ h * Suc (2 * i + 1) = 2 ^ Suc h * Suc i" by (simp_all add: algebra_simps)
    then show ?thesis using that by linarith
  qed
  then show ?case using Suc.IH [of "2 * i"] Suc.IH [of "2 * i + 1"] Suc.prems by simp
qed simp

lemma merkle_ssmt_ops:
  "ssmt_get (merkle_ssmt d) = ssmt_get (sample_ssmt d)" "ssmt_with_leaves (merkle_ssmt d) = ssmt_with_leaves (sample_ssmt d)"
  "ssmt_insert (merkle_ssmt d) = ssmt_insert (sample_ssmt d)" "ssmt_leaves (merkle_ssmt d) = ssmt_leaves (sample_ssmt d)"
  "ssmt_root (merkle_ssmt d) t = merkle_node sample_prims (\<lambda>i. leaf_lookup t (of_nat i)) d 0"
  by (simp_all add: merkle_ssmt_def)

lemma merkle_ssmt_get: "unat i < 2 ^ d \<Longrightarrow> ssmt_get (sample_ssmt d) t i = Ok (leaf_lookup t i)"
  by (simp add: sample_ssmt_def)

lemma sample_opening_laws:
  assumes "unat i < 2 ^ d" "d \<le> 63"
  shows "sample_opening d t i = s # path \<Longrightarrow> ssmt_get (sample_ssmt d) t (if even (unat i) then i + 1 else i - 1) = Ok s"
    "ssmt_get (sample_ssmt d) t i = Ok w \<Longrightarrow>
       path_root sample_prims (unat i) w (sample_opening d t i) = merkle_node sample_prims (\<lambda>i. leaf_lookup t (of_nat i)) d 0"
proof -
  let ?f = "\<lambda>i. leaf_lookup t (of_nat i)"
  show "path_root sample_prims (unat i) w (sample_opening d t i) = merkle_node sample_prims ?f d 0"
    if "ssmt_get (sample_ssmt d) t i = Ok w"
  proof -
    have "w = ?f (unat i)" using that merkle_ssmt_get [OF assms(1)] by simp
    then show ?thesis using merkle_path_root [of 0 d sample_prims "unat i" ?f] assms(1)
      by (simp add: sample_opening_def merkle_opening_def)
  qed
  show "ssmt_get (sample_ssmt d) t (if even (unat i) then i + 1 else i - 1) = Ok s" if path: "sample_opening d t i = s # path"
  proof -
    have d: "0 < d" using path by (cases d) (simp_all add: sample_opening_def merkle_opening_def)
    then have s: "s = ?f (neighbour (unat i))"
      using path by (simp add: sample_opening_def merkle_opening_def upt_conv_Cons)
    have "(2::nat) ^ d \<le> 2 ^ 63" using assms(2) by (intro power_increasing) simp_all
    then have small: "unat i < 2 ^ 63" using assms(1) by linarith
    have "even ((2::nat) ^ d)" using d by simp
    then have "unat i + 1 < 2 ^ d" if "even (unat i)" using that assms(1) by presburger
    then have n: "neighbour (unat i) < 2 ^ d" using assms(1) by (auto simp: neighbour_def)
    let ?j = "if even (unat i) then i + 1 else i - 1"
    have j: "unat ?j = neighbour (unat i)"
      using small by (auto simp: neighbour_def unat_word_ariths unat_sub_if_size elim!: oddE)
    then have "?f (neighbour (unat i)) = leaf_lookup t ?j" unfolding j [symmetric] by simp
    then show ?thesis using merkle_ssmt_get [of ?j d t] n s j by simp
  qed
qed

lemma block_tree_depth: "BLOCK_OUTPUT_NOTES_TREE_DEPTH = 21"
  by (simp add: BLOCK_OUTPUT_NOTES_TREE_DEPTH_def BATCH_OUTPUT_NOTES_TREE_DEPTH_def BLOCK_OUTPUT_NOTES_BATCH_TREE_DEPTH_def)

interpretation merkle_laws: opening_spec "merkle_ssmt BLOCK_OUTPUT_NOTES_TREE_DEPTH" BLOCK_OUTPUT_NOTES_TREE_DEPTH sample_prims
  "sample_opening BLOCK_OUTPUT_NOTES_TREE_DEPTH"
proof unfold_locales
  let ?d = BLOCK_OUTPUT_NOTES_TREE_DEPTH
  have depth: "?d = Suc 20" by (simp add: block_tree_depth)
  show "ssmt_root (merkle_ssmt ?d) t = ssmt_root (merkle_ssmt ?d) t'"
    if "\<And>i. unat i < 2 ^ ?d \<Longrightarrow> ssmt_get (merkle_ssmt ?d) t i = ssmt_get (merkle_ssmt ?d) t' i" for t t'
  proof -
    have "leaf_lookup t (of_nat j) = leaf_lookup t' (of_nat j)" if "j < 2 ^ ?d * Suc 0" for j
    proof -
      have "unat (of_nat j :: u64) = j" using that by (simp add: unat_of_nat depth)
      then show ?thesis using that merkle_ssmt_get [of "of_nat j" ?d] \<open>\<And>i. unat i < 2 ^ ?d \<Longrightarrow> _\<close> [of "of_nat j"]
        by (simp add: merkle_ssmt_ops)
    qed
    then show ?thesis unfolding merkle_ssmt_ops by (rule merkle_node_cong)
  qed
  show "list_all (\<lambda>x. x < 0xFFFFFFFF00000001) (elements (ssmt_root (merkle_ssmt ?d) t))" for t
    using sample_hash_laws.hash_merge_ok unfolding merkle_ssmt_ops depth merkle_node.simps by (simp only: sample_word_ok)
  show "length (sample_opening ?d t i) = ?d" for t i by (simp add: sample_opening_def merkle_opening_def)
  have small: "?d \<le> 63" by (simp add: depth)
  show "ssmt_get (merkle_ssmt ?d) t (if even (unat i) then i + 1 else i - 1) = Ok s"
    if "unat i < 2 ^ ?d" "sample_opening ?d t i = s # path" for t i s path
    unfolding merkle_ssmt_ops by (rule sample_opening_laws(1) [OF that(1) small that(2)])
  show "path_root sample_prims (unat i) w (sample_opening ?d t i) = ssmt_root (merkle_ssmt ?d) t"
    if "unat i < 2 ^ ?d" "ssmt_get (merkle_ssmt ?d) t i = Ok w" for t i w
    using that sample_opening_laws(2) [OF that(1) small] unfolding merkle_ssmt_ops by blast
qed (unfold merkle_ssmt_ops, (erule sample_ssmt_laws.ssmt_with_leaves_ok sample_ssmt_laws.ssmt_with_leaves_dup
    sample_ssmt_laws.ssmt_get_ok sample_ssmt_laws.ssmt_insert_ok sample_ssmt_laws.ssmt_leaves_get sample_ssmt_laws.ssmt_leaves_all;
    assumption | rule sample_ssmt_laws.ssmt_leaves_distinct)+)

definition sample_metadata :: note_metadata where
  "sample_metadata = \<lparr> md_sender = sample_faucet, md_note_type = Public, md_tag = NoteTag 0x80000007, md_aux = 0 \<rparr>"

lemma note_path_pair:
  assumes spec: "opening_spec S BLOCK_OUTPUT_NOTES_TREE_DEPTH P open_path" and M: "merkle_spec P M"
    and pos: "unat b < 256" "unat n < 4096"
    and leaves: "ssmt_get S t (block_leaf_index b n) = Ok w" "ssmt_get S t (block_leaf_index b n + 1) = Ok w'"
  shows "\<exists>path. get_note_path M open_path t b n = Ok path \<and> length path = 20 \<and>
    path_root P (unat (block_note_index b n)) (hash_merge P w w') path = block_note_tree_root S t"
proof -
  let ?i = "block_leaf_index b n"
  note index = block_leaf_index_unat [OF pos]
  have range: "unat ?i < 2 ^ 21" using pos by (simp add: index)
  then have "node_index_new M 21 ?i = Ok \<lparr> node_depth = 21, node_value = ?i \<rparr>"
    using merkle_spec.node_index_new_ok [OF M, of ?i 21] by simp
  moreover obtain path where "open_path t ?i = w' # path" "length path = BLOCK_OUTPUT_NOTES_TREE_DEPTH - 1"
    "path_root P (unat ?i div 2) (hash_merge P w w') path = ssmt_root S t"
    by (rule opening_spec.opening_pair [OF spec _ _ _ leaves]) (use range index in \<open>simp_all add: block_tree_depth\<close>)
  moreover have "unat ?i div 2 = unat (block_note_index b n)" by (simp only: index) simp
  ultimately show ?thesis by (simp add: get_note_path_def block_tree_depth block_note_tree_root_def)
qed

lemma note_path_range:
  assumes "merkle_spec P M" "\<not> unat (block_leaf_index b n) < 2 ^ BLOCK_OUTPUT_NOTES_TREE_DEPTH"
  shows "\<exists>e. get_note_path M open_path t b n = Err e"
  using merkle_spec.node_index_new_err [OF assms(1), of "block_leaf_index b n" 21] assms(2)
  by (auto simp: get_note_path_def block_tree_depth)

section \<open>Properties\<close>

text \<open>
  C26. A block note tree built from notes at pairwise distinct positions (batch below 256, note below
  4096) holds, for every note, its identifier at leaf \<open>leaf_index\<close> and its metadata at the next
  leaf, and the empty word everywhere else; a repeated position is an error.  The path of every note has
  20 nodes and leads from the hash of its identifier and its metadata, at \<open>note_index\<close>, to the root of
  the tree; a position whose leaf index does not fit the tree has no path.
\<close>

theorem block_note_tree_correct:
  assumes spec: "opening_spec S BLOCK_OUTPUT_NOTES_TREE_DEPTH P open_path" and M: "merkle_spec P M" and "list_all entry_ok es"
  shows "if distinct (map entry_pos es)
    then (\<exists>t. block_note_tree_with_entries P S es = Ok t \<and>
      (\<forall>(b, n, i, m) \<in> set es. ssmt_get S t (block_leaf_index b n) = Ok i \<and>
        ssmt_get S t (block_leaf_index b n + 1) = Ok (note_metadata_to_word P m) \<and>
        (\<exists>path. get_note_path M open_path t b n = Ok path \<and> length path = 20 \<and>
          path_root P (unat (block_note_index b n)) (hash_merge P i (note_metadata_to_word P m)) path = block_note_tree_root S t)) \<and>
      (\<forall>b n. \<not> unat (block_leaf_index b n) < 2 ^ BLOCK_OUTPUT_NOTES_TREE_DEPTH \<longrightarrow>
        (\<exists>e. get_note_path M open_path t b n = Err e)) \<and>
      (\<forall>j. unat j < 2 ^ BLOCK_OUTPUT_NOTES_TREE_DEPTH \<and>
        (\<forall>(b, n, i, m) \<in> set es. j \<noteq> block_leaf_index b n \<and> j \<noteq> block_leaf_index b n + 1) \<longrightarrow>
        ssmt_get S t j = Ok EMPTY_WORD))
    else (\<exists>e. block_note_tree_with_entries P S es = Err e)"
proof (cases "distinct (map entry_pos es)")
  case True
  note smt = opening_spec.axioms(1) [OF spec]
  let ?ls = "concat (map (note_leaves P) es)"
  have dist: "distinct (map fst ?ls)" by (rule entries_distinct [OF assms(3) True])
  have range: "list_all (\<lambda>l. unat (fst l) < 2 ^ BLOCK_OUTPUT_NOTES_TREE_DEPTH) ?ls" by (rule entries_in_range [OF assms(3)])
  obtain t where t: "ssmt_with_leaves S ?ls = Ok t"
    and get: "\<And>j. unat j < 2 ^ BLOCK_OUTPUT_NOTES_TREE_DEPTH \<Longrightarrow> ssmt_get S t j = Ok (leaf_lookup ?ls j)"
    using simple_smt_spec.ssmt_with_leaves_ok [OF smt dist range] by blast
  have held: "ssmt_get S t j = Ok w" if "(j, w) \<in> set ?ls" for j w
  proof -
    have "unat j < 2 ^ BLOCK_OUTPUT_NOTES_TREE_DEPTH" using range that by (force simp: list_all_iff)
    moreover have "leaf_lookup ?ls j = w" using map_of_is_SomeI [OF dist that] by simp
    ultimately show ?thesis using get by simp
  qed
  have placed: "ssmt_get S t (block_leaf_index b n) = Ok i \<and>
      ssmt_get S t (block_leaf_index b n + 1) = Ok (note_metadata_to_word P m)" if "(b, n, i, m) \<in> set es" for b n i m
  proof -
    have "set (note_leaves P (b, n, i, m)) \<subseteq> set ?ls" using that by force
    then show ?thesis using held by (simp add: Let_def)
  qed
  have path: "\<exists>path. get_note_path M open_path t b n = Ok path \<and> length path = 20 \<and>
      path_root P (unat (block_note_index b n)) (hash_merge P i (note_metadata_to_word P m)) path = block_note_tree_root S t"
    if "(b, n, i, m) \<in> set es" for b n i m
  proof -
    have "unat b < 256" "unat n < 4096" using assms(3) that by (auto simp: list_all_iff entry_ok_def)
    from note_path_pair [OF spec M this placed [OF that, THEN conjunct1] placed [OF that, THEN conjunct2]] show ?thesis .
  qed
  have empty: "ssmt_get S t j = Ok EMPTY_WORD" if "unat j < 2 ^ BLOCK_OUTPUT_NOTES_TREE_DEPTH"
    "\<forall>(b, n, i, m) \<in> set es. j \<noteq> block_leaf_index b n \<and> j \<noteq> block_leaf_index b n + 1" for j
  proof -
    have "j \<notin> fst ` set ?ls" using that(2) by (force simp: Let_def)
    then have "map_of ?ls j = None" by (simp add: map_of_eq_None_iff)
    then show ?thesis using get [OF that(1)] by simp
  qed
  show ?thesis using True t placed path note_path_range [OF M] empty unfolding block_note_tree_with_entries_def by auto
next
  case False
  then show ?thesis using simple_smt_spec.ssmt_with_leaves_dup [OF opening_spec.axioms(1) [OF spec] entries_not_distinct [OF False]]
    by (simp add: block_note_tree_with_entries_def)
qed

theorem block_note_tree_correct_witness:
  "\<exists>t path. block_note_tree_with_entries sample_prims (merkle_ssmt BLOCK_OUTPUT_NOTES_TREE_DEPTH)
      [(1, 2, W 1 2 3 4, sample_metadata), (1, 3, W 5 6 7 8, sample_metadata)] = Ok t \<and>
    ssmt_get (merkle_ssmt BLOCK_OUTPUT_NOTES_TREE_DEPTH) t (block_leaf_index 1 3) = Ok (W 5 6 7 8) \<and>
    get_note_path sample_merkle (sample_opening BLOCK_OUTPUT_NOTES_TREE_DEPTH) t 1 2 = Ok path \<and>
    path_root sample_prims 4098 (hash_merge sample_prims (W 1 2 3 4) (note_metadata_to_word sample_prims sample_metadata)) path
      = block_note_tree_root (merkle_ssmt BLOCK_OUTPUT_NOTES_TREE_DEPTH) t"
proof -
  let ?es = "[(1, 2, W 1 2 3 4, sample_metadata), (1, 3, W 5 6 7 8, sample_metadata)] :: note_entry list"
  have ok: "list_all entry_ok ?es" by (simp add: entry_ok_def)
  have dist: "distinct (map entry_pos ?es)" by (simp add: entry_pos_def)
  have "unat (block_note_index 1 2) = 4098" using block_leaf_index_unat(1) [of 1 2] by simp
  then show ?thesis
    using block_note_tree_correct [OF merkle_laws.opening_spec_axioms sample_merkle_laws.merkle_spec_axioms ok]
    unfolding if_P [OF dist] by auto
qed

end
