(* ===== verification/Collections.thy ===== *)
theory Collections
  imports Primitives
begin

text \<open>
  The standard collections the transaction code uses: a \<open>BTreeSet\<close> that detects repeated keys in
  a loop, a \<open>BTreeMap\<close> as an association list in key order, and a sequence whose elements may
  panic while they are written.  The locale \<open>note_list\<close> is the contract shared by
  \<open>InputNotes\<close> and \<open>OutputNotes\<close>: a bounded list of notes with pairwise distinct keys.
\<close>

section \<open>Repeated keys\<close>

text \<open>\<open>for x in xs { if !seen.insert(key(x)) { return Err(..) } }\<close>\<close>

fun check_unique :: "('a \<Rightarrow> 'k) \<Rightarrow> ('k \<Rightarrow> 'e) \<Rightarrow> 'k list \<Rightarrow> 'a list \<Rightarrow> (unit, 'e) result" where
  "check_unique key dup seen [] = Ok ()"
| "check_unique key dup seen (x # xs) =
    (if key x \<in> set seen then Err (dup (key x)) else check_unique key dup (key x # seen) xs)"

lemma check_unique_Ok:
  "check_unique key dup seen xs = Ok () \<longleftrightarrow> distinct (map key xs) \<and> key ` set xs \<inter> set seen = {}"
  by (induction xs arbitrary: seen) auto

lemma check_unique_Err:
  assumes "\<not> (distinct (map key xs) \<and> key ` set xs \<inter> set seen = {})"
  shows "\<exists>x \<in> set xs. check_unique key dup seen xs = Err (dup (key x))"
  using assms
proof (induction xs arbitrary: seen)
  case (Cons x xs)
  show ?case
  proof (cases "key x \<in> set seen")
    case False
    with Cons.prems have "\<not> (distinct (map key xs) \<and> key ` set xs \<inter> set (key x # seen) = {})" by auto
    from Cons.IH [OF this] False show ?thesis by auto
  qed simp
qed simp

section \<open>Ordered maps\<close>

fun btree_insert :: "('k \<Rightarrow> 'k \<Rightarrow> bool) \<Rightarrow> 'k \<Rightarrow> 'v \<Rightarrow> ('k \<times> 'v) list \<Rightarrow> ('k \<times> 'v) list" where
  "btree_insert le k v [] = [(k, v)]"
| "btree_insert le k v ((k', v') # m) =
    (if k = k' then (k, v) # m
     else if le k k' then (k, v) # (k', v') # m
     else (k', v') # btree_insert le k v m)"

definition btree_remove :: "'k \<Rightarrow> ('k \<times> 'v) list \<Rightarrow> ('k \<times> 'v) list" where
  "btree_remove k m = filter (\<lambda>e. fst e \<noteq> k) m"

definition btree_collect :: "('k \<Rightarrow> 'k \<Rightarrow> bool) \<Rightarrow> ('k \<times> 'v) list \<Rightarrow> ('k \<times> 'v) list" where
  "btree_collect le es = fold (\<lambda>(k, v). btree_insert le k v) es []"

lemma map_of_btree_insert [simp]: "map_of (btree_insert le k v m) = (map_of m)(k \<mapsto> v)"
  by (induction m) auto

lemma map_of_btree_remove [simp]: "map_of (btree_remove k m) = (map_of m)(k := None)"
  by (induction m) (auto simp: btree_remove_def)

lemma set_btree_insert [simp]: "fst ` set (btree_insert le k v m) = insert k (fst ` set m)"
  by (simp flip: dom_map_of_conv_image_fst)

lemma set_btree_remove [simp]: "fst ` set (btree_remove k m) = fst ` set m - {k}"
  by (auto simp: btree_remove_def)

text \<open>The keys of a tree are strictly increasing in the order of the key type.\<close>

locale key_order =
  fixes le :: "'k \<Rightarrow> 'k \<Rightarrow> bool"
  assumes le_antisym: "le a b \<Longrightarrow> le b a \<Longrightarrow> a = b"
    and le_trans: "le a b \<Longrightarrow> le b c \<Longrightarrow> le a c"
    and le_total: "le a b \<or> le b a"
begin

abbreviation btree_ok :: "('k \<times> 'v) list \<Rightarrow> bool" where
  "btree_ok m \<equiv> sorted_wrt (\<lambda>a b. le a b \<and> a \<noteq> b) (map fst m)"

lemma btree_ok_distinct: "btree_ok m \<Longrightarrow> distinct (map fst m)"
  by (simp add: sorted_wrt_iff_nth_less distinct_conv_nth) (metis nat_neq_iff nth_map)

lemma btree_ok_insert: "btree_ok m \<Longrightarrow> btree_ok (btree_insert le k v m)"
proof (induction m)
  case (Cons e m)
  obtain k' v' where e: "e = (k', v')" by fastforce
  have above: "le k' a \<and> k' \<noteq> a" if "a \<in> fst ` set m" for a using Cons.prems that by (auto simp: e)
  consider "k = k'" | "k \<noteq> k'" "le k k'" | "k \<noteq> k'" "\<not> le k k'" by blast
  then show ?case
  proof cases
    case 2
    then have "le k a \<and> k \<noteq> a" if "a \<in> fst ` set m" for a using above [OF that] le_trans le_antisym by blast
    then show ?thesis using Cons.prems 2 by (auto simp: e)
  next
    case 3
    then have "le k' k" using le_total by blast
    moreover have "fst ` set (btree_insert le k v m) = insert k (fst ` set m)" by simp
    ultimately have "\<forall>a \<in> fst ` set (btree_insert le k v m). le k' a \<and> k' \<noteq> a" using above 3 by auto
    then show ?thesis using Cons 3 by (simp add: e)
  qed (use Cons.prems in \<open>simp add: e\<close>)
qed simp

lemma btree_ok_remove: "btree_ok m \<Longrightarrow> btree_ok (btree_remove k m)"
  by (induction m) (auto simp: btree_remove_def)

end

interpretation linear: key_order "(\<le>) :: 'k::linorder \<Rightarrow> 'k \<Rightarrow> bool"
  by unfold_locales auto

sublocale hash_spec \<subseteq> digests: key_order "digest_le P"
  by unfold_locales (use digest_le_antisym digest_le_trans digest_le_total in blast)+

section \<open>Sequences\<close>

definition write_all :: "('a \<Rightarrow> (u8 list, 'e) result) \<Rightarrow> 'a list \<Rightarrow> (u8 list, 'e) result" where
  "write_all wr xs = and_then (try_map wr xs) (\<lambda>bss. Ok (concat bss))"

lemma write_all_simps [simp]:
  "write_all wr [] = Ok []"
  "write_all wr (x # xs) = and_then (wr x) (\<lambda>b. and_then (write_all wr xs) (\<lambda>bs. Ok (b @ bs)))"
  unfolding write_all_def by simp (cases "wr x"; cases "try_map wr xs"; simp)

locale fallible_codec =
  fixes wr :: "'a \<Rightarrow> (u8 list, 'w) result"
    and rd :: "u8 list \<Rightarrow> ('a \<times> u8 list, 'e) result"
    and valid :: "'a \<Rightarrow> bool"
  assumes rd_wr: "valid x \<Longrightarrow> \<exists>b. wr x = Ok b \<and> (\<forall>bs. rd (b @ bs) = Ok (x, bs))"
begin

lemma read_many_write_all:
  "list_all valid xs \<Longrightarrow> \<exists>b. write_all wr xs = Ok b \<and> (\<forall>bs. read_many (length xs) rd (b @ bs) = Ok (xs, bs))"
proof (induction xs)
  case (Cons x xs)
  from Cons.prems rd_wr obtain b where "wr x = Ok b" "\<forall>bs. rd (b @ bs) = Ok (x, bs)" by fastforce
  moreover from Cons obtain bs where "write_all wr xs = Ok bs"
    "\<forall>cs. read_many (length xs) rd (bs @ cs) = Ok (xs, cs)" by auto
  ultimately show ?case by auto
qed simp

end

section \<open>Lists of notes\<close>

text \<open>
  \<open>mk\<close> builds the collection once the checks have passed; \<open>many\<close> and \<open>dup\<close> are the two errors
  of the constructor \<open>new\<close>.
\<close>

locale note_list =
  fixes new :: "'a list \<Rightarrow> ('c, 'e) result"
    and items :: "'c \<Rightarrow> 'a list"
    and mk :: "'a list \<Rightarrow> 'c"
    and key :: "'a \<Rightarrow> 'k"
    and bound :: nat
    and many :: "nat \<Rightarrow> nat \<Rightarrow> 'e"
    and dup :: "'k \<Rightarrow> 'e"
  assumes new_eq: "new xs = (if bound < length xs then Err (many bound (length xs))
      else and_then (check_unique key dup [] xs) (\<lambda>_. Ok (mk xs)))"
    and items_mk: "items (mk xs) = xs"
    and bound_u16: "bound < 2 ^ 16"
begin

lemma new_Ok_iff: "new xs = Ok c \<longleftrightarrow> length xs \<le> bound \<and> distinct (map key xs) \<and> c = mk xs"
  by (auto simp: new_eq res_simps check_unique_Ok)

lemma new_cases:
  obtains (ok) "length xs \<le> bound" "distinct (map key xs)" "new xs = Ok (mk xs)"
  | (many) "bound < length xs" "new xs = Err (many bound (length xs))"
  | (dup) x where "length xs \<le> bound" "\<not> distinct (map key xs)" "x \<in> set xs" "new xs = Err (dup (key x))"
proof (cases "bound < length xs")
  case False
  show ?thesis
  proof (cases "distinct (map key xs)")
    case True
    then have "new xs = Ok (mk xs)" using False by (simp add: new_Ok_iff)
    with True False ok show ?thesis by simp
  next
    case dup': False
    from check_unique_Err [of key xs "[]" dup] dup' obtain x where
      "x \<in> set xs" "check_unique key dup [] xs = Err (dup (key x))" by auto
    with False dup' dup show ?thesis by (simp add: new_eq)
  qed
qed (simp add: new_eq many)

lemma items_bounded: "new xs = Ok c \<Longrightarrow> items c = xs \<and> length xs \<le> 0xFFFF \<and> length xs < 2 ^ 16"
  using bound_u16 by (auto simp: new_Ok_iff items_mk)

end

text \<open>Writing and reading a list of notes: its length as a \<open>u16\<close>, then the notes.\<close>

definition write_note_list :: "prims \<Rightarrow> ('a \<Rightarrow> (u8 list, unit) result) \<Rightarrow> 'a list \<Rightarrow> (u8 list, unit) result" where
  "write_note_list P wr xs =
    (if length xs \<le> 0xFFFF then map_ok (\<lambda>b. put_u16 P (of_nat (length xs)) @ b) (write_all wr xs)
     else Panic ''assertion failed: self.notes.len() <= u16::MAX.into()'')"

definition read_note_list ::
    "prims \<Rightarrow> ('e \<Rightarrow> string) \<Rightarrow> ('a, deserialization_error) reader \<Rightarrow> ('a list \<Rightarrow> ('c, 'e) result)
      \<Rightarrow> ('c, deserialization_error) reader" where
  "read_note_list P shw rd new bs =
     and_then (get_u16 P bs) (\<lambda>(n, bs1).
     and_then (read_many (unat n) rd bs1) (\<lambda>(xs, bs2).
     and_then (map_err (\<lambda>e. InvalidValue (shw e)) (new xs)) (\<lambda>c. Ok (c, bs2))))"

locale note_list_io = note_list new items mk key bound many dup + io_spec P + fallible_codec wr rd valid
  for new :: "'a list \<Rightarrow> ('c, 'e) result" and items mk and key :: "'a \<Rightarrow> 'k" and bound many dup
    and P :: prims and wr :: "'a \<Rightarrow> (u8 list, unit) result"
    and rd :: "u8 list \<Rightarrow> ('a \<times> u8 list, deserialization_error) result" and valid
begin

lemma read_write_note_list:
  assumes "new xs = Ok c" "list_all valid xs"
  shows "\<exists>b. write_note_list P wr (items c) = Ok b \<and> (\<forall>bs. read_note_list P shw rd new (b @ bs) = Ok (c, bs))"
proof -
  from items_bounded [OF assms(1)] have c: "items c = xs" and len: "length xs \<le> 0xFFFF" "length xs < 2 ^ 16" by auto
  from read_many_write_all [OF assms(2)] obtain b where b: "write_all wr xs = Ok b"
    "\<And>bs. read_many (length xs) rd (b @ bs) = Ok (xs, bs)" by auto
  have "unat (of_nat (length xs) :: u16) = length xs" using len(2) by (simp add: unat_of_nat)
  then show ?thesis using b assms(1) len
    by (simp add: write_note_list_def read_note_list_def c get_put_u16)
qed

end

end
