(* ===== verification/Transaction_Inputs.thy ===== *)
theory Transaction_Inputs
  imports Account Block Collections
begin

text \<open>
  The chain MMR (\<open>objects/src/transaction/chain_mmr.rs\<close>) and the inputs of a transaction
  (\<open>objects/src/transaction/inputs.rs\<close>): input notes, their commitment and the checks that tie
  the account seed, the reference block, the chain and the notes together.

  \<open>PartialMmr\<close> is the record \<open>G\<close> of operations on a type \<open>'g\<close>; \<open>MerklePath::verify\<close> is the
  argument \<open>verify\<close>.
\<close>

section \<open>Chain MMR\<close>

record 'g mmr_ops =
  mmr_forest :: "'g \<Rightarrow> nat"
  mmr_is_tracked :: "'g \<Rightarrow> nat \<Rightarrow> bool"
  mmr_add :: "'g \<Rightarrow> digest \<Rightarrow> bool \<Rightarrow> 'g"
  mmr_hash_peaks :: "'g \<Rightarrow> digest"

record 'g chain_mmr =
  cm_mmr :: 'g
  cm_blocks :: "(u32 \<times> block_header) list"

fun collect_blocks ::
    "'g mmr_ops \<Rightarrow> 'g \<Rightarrow> (u32 \<times> block_header) list \<Rightarrow> block_header list
      \<Rightarrow> ((u32 \<times> block_header) list, chain_mmr_error) result" where
  "collect_blocks G mmr block_map [] = Ok block_map"
| "collect_blocks G mmr block_map (block # blocks) =
    (let n = bh_block_num block in
     if unat n \<ge> mmr_forest G mmr then Err (BlockNumTooBig (mmr_forest G mmr) n)
     else if map_of block_map n \<noteq> None then Err (DuplicateBlock n)
     else if \<not> mmr_is_tracked G mmr (unat n) then Err (UntrackedBlock n)
     else collect_blocks G mmr (btree_insert (\<le>) n block block_map) blocks)"

definition chain_mmr_new ::
    "'g mmr_ops \<Rightarrow> 'g \<Rightarrow> block_header list \<Rightarrow> ('g chain_mmr, chain_mmr_error) result" where
  "chain_mmr_new G mmr blocks =
     and_then (collect_blocks G mmr [] blocks) (\<lambda>block_map. Ok \<lparr> cm_mmr = mmr, cm_blocks = block_map \<rparr>)"

definition chain_length :: "'g mmr_ops \<Rightarrow> 'g chain_mmr \<Rightarrow> nat" where
  "chain_length G c = mmr_forest G (cm_mmr c)"

definition contains_block :: "'g chain_mmr \<Rightarrow> u32 \<Rightarrow> bool" where
  "contains_block c n \<longleftrightarrow> map_of (cm_blocks c) n \<noteq> None"

definition get_block :: "'g chain_mmr \<Rightarrow> u32 \<Rightarrow> block_header option" where
  "get_block c n = map_of (cm_blocks c) n"

definition add_block :: "'g mmr_ops \<Rightarrow> 'g chain_mmr \<Rightarrow> block_header \<Rightarrow> bool \<Rightarrow> 'g chain_mmr \<times> (unit, unit) result" where
  "add_block G c h track =
    (if bh_block_num h \<noteq> of_nat (chain_length G c) then (c, Panic ''assertion failed: block_num == chain_length'')
     else (c\<lparr>cm_mmr := mmr_add G (cm_mmr c) (bh_hash h) track\<rparr>, Ok ()))"

definition chain_tracked_leaves :: "'g chain_mmr \<Rightarrow> (nat \<times> digest) list" where
  "chain_tracked_leaves c = map (\<lambda>(_, h). (unat (bh_block_num h), bh_hash h)) (cm_blocks c)"

section \<open>Input notes\<close>

definition MAX_INPUT_NOTES_PER_TX :: nat where
  "MAX_INPUT_NOTES_PER_TX = 1023"

record 'p input_note =
  in_note :: "'p miden_note"
  in_proof :: note_inclusion_proof

definition input_note_id :: "'p input_note \<Rightarrow> note_id" where
  "input_note_id n = nt_id (in_note n)"

definition input_note_origin :: "'p input_note \<Rightarrow> note_origin" where
  "input_note_origin n = prf_origin (in_proof n)"

definition is_in_block ::
    "prims \<Rightarrow> (merkle_path \<Rightarrow> u64 \<Rightarrow> digest \<Rightarrow> digest \<Rightarrow> bool) \<Rightarrow> 'p input_note \<Rightarrow> block_header \<Rightarrow> bool" where
  "is_in_block P verify n h =
    (let note_index = node_value (org_node_index (input_note_origin n));
         note_hash = authentication_hash P (in_note n) in
     verify (prf_note_path (in_proof n)) note_index note_hash (bh_note_root h))"

definition input_note_nullifier :: "'p input_note \<Rightarrow> nullifier" where
  "input_note_nullifier n = nt_nullifier (in_note n)"

definition nullifier_nullifier :: "nullifier \<Rightarrow> nullifier" where
  "nullifier_nullifier n = n"

record 't input_notes =
  ins_notes :: "'t list"
  ins_commitment :: digest

definition build_input_notes_commitment :: "prims \<Rightarrow> ('t \<Rightarrow> nullifier) \<Rightarrow> 't list \<Rightarrow> digest" where
  "build_input_notes_commitment P nf nts =
    (if nts = [] then EMPTY_WORD
     else hash_elements P (concat (map (\<lambda>n. elements (nullifier_digest (nf n)) @ [0, 0, 0, 0]) nts)))"

definition input_notes_new ::
    "prims \<Rightarrow> ('t \<Rightarrow> nullifier) \<Rightarrow> 't list \<Rightarrow> ('t input_notes, transaction_input_error) result" where
  "input_notes_new P nf nts =
    (if MAX_INPUT_NOTES_PER_TX < length nts then Err (TooManyInputNotes MAX_INPUT_NOTES_PER_TX (length nts))
     else and_then (check_unique (\<lambda>n. nullifier_digest (nf n)) DuplicateInputNote [] nts) (\<lambda>_.
       Ok \<lparr> ins_notes = nts, ins_commitment = build_input_notes_commitment P nf nts \<rparr>))"

definition input_notes_default :: "prims \<Rightarrow> ('t \<Rightarrow> nullifier) \<Rightarrow> 't input_notes" where
  "input_notes_default P nf = \<lparr> ins_notes = [], ins_commitment = build_input_notes_commitment P nf [] \<rparr>"

definition to_nullifiers :: "prims \<Rightarrow> 'p input_note input_notes \<Rightarrow> nullifier input_notes" where
  "to_nullifiers P ins = \<lparr> ins_notes = map input_note_nullifier (ins_notes ins),
     ins_commitment = build_input_notes_commitment P input_note_nullifier (ins_notes ins) \<rparr>"

definition get_input_note :: "'t input_notes \<Rightarrow> nat \<Rightarrow> ('t, unit) result" where
  "get_input_note ins i = (if i < length (ins_notes ins) then Ok (ins_notes ins ! i) else Panic ''index out of bounds'')"

definition input_notes_eq :: "'t input_notes \<Rightarrow> 't input_notes \<Rightarrow> bool" where
  "input_notes_eq a b \<longleftrightarrow> ins_notes a = ins_notes b"

definition write_input_note ::
    "prims \<Rightarrow> ('p, 'b) prog_ops \<Rightarrow> merkle_ops \<Rightarrow> 'p input_note \<Rightarrow> (u8 list, unit) result" where
  "write_input_note P Q M n =
     map_ok (\<lambda>b. b @ write_note_inclusion_proof P M (in_proof n)) (write_note P Q (in_note n))"

definition read_input_note ::
    "prims \<Rightarrow> ('p, 'b) prog_ops \<Rightarrow> merkle_ops \<Rightarrow> ('p input_note, deserialization_error) reader" where
  "read_input_note P Q M bs =
     and_then (read_note P Q bs) (\<lambda>(n, bs1).
     and_then (read_note_inclusion_proof P M bs1) (\<lambda>(p, bs2).
       Ok (\<lparr> in_note = n, in_proof = p \<rparr>, bs2)))"

definition write_input_notes :: "prims \<Rightarrow> ('t \<Rightarrow> (u8 list, unit) result) \<Rightarrow> 't input_notes \<Rightarrow> (u8 list, unit) result" where
  "write_input_notes P wr ins = write_note_list P wr (ins_notes ins)"

definition read_input_notes ::
    "prims \<Rightarrow> ('t \<Rightarrow> nullifier) \<Rightarrow> ('t, deserialization_error) reader \<Rightarrow> ('t input_notes, deserialization_error) reader" where
  "read_input_notes P nf rd = read_note_list P (show_tx_input_error P) rd (input_notes_new P nf)"

section \<open>Transaction inputs\<close>

record ('v, 's, 'm, 'g, 'p) transaction_inputs =
  ti_account :: "('v, 's, 'm) account"
  ti_account_seed :: "word4 option"
  ti_block_header :: block_header
  ti_block_chain :: "'g chain_mmr"
  ti_input_notes :: "'p input_note input_notes"

definition validate_account_seed ::
    "prims \<Rightarrow> 's simple_smt_ops \<Rightarrow> ('v, 's, 'm) account \<Rightarrow> word4 option \<Rightarrow> (unit, transaction_input_error) result" where
  "validate_account_seed P S a account_seed =
    (case (account_is_new a, account_seed) of
       (True, Some seed) \<Rightarrow>
         and_then (map_err InvalidAccountSeed
           (account_id_new P seed (code_root S (acct_code a)) (storage_root S (acct_storage a)))) (\<lambda>i.
           if i \<noteq> acct_id a then Err (InconsistentAccountSeed (acct_id a) i) else Ok ())
     | (True, None) \<Rightarrow> Err AccountSeedNotProvidedForNewAccount
     | (False, Some _) \<Rightarrow> Err AccountSeedProvidedForExistingAccount
     | (False, None) \<Rightarrow> Ok ())"

definition check_note_block ::
    "prims \<Rightarrow> (merkle_path \<Rightarrow> u64 \<Rightarrow> digest \<Rightarrow> digest \<Rightarrow> bool) \<Rightarrow> block_header \<Rightarrow> 'g chain_mmr \<Rightarrow> 'p input_note
      \<Rightarrow> (unit, transaction_input_error) result" where
  "check_note_block P verify block_header block_chain n =
    (let note_block_num = org_block_num (input_note_origin n) in
     and_then (if note_block_num = bh_block_num block_header then Ok block_header
       else case get_block block_chain note_block_num of
         Some h \<Rightarrow> Ok h
       | None \<Rightarrow> Err (InputNoteBlockNotInChainMmr (input_note_id n))) (\<lambda>h.
     if \<not> is_in_block P verify n h then Err (InputNoteNotInBlock (input_note_id n) note_block_num) else Ok ()))"

definition transaction_inputs_new ::
    "prims \<Rightarrow> 's simple_smt_ops \<Rightarrow> 'g mmr_ops \<Rightarrow> (merkle_path \<Rightarrow> u64 \<Rightarrow> digest \<Rightarrow> digest \<Rightarrow> bool)
      \<Rightarrow> ('v, 's, 'm) account \<Rightarrow> word4 option \<Rightarrow> block_header \<Rightarrow> 'g chain_mmr \<Rightarrow> 'p input_note input_notes
      \<Rightarrow> (('v, 's, 'm, 'g, 'p) transaction_inputs, transaction_input_error) result" where
  "transaction_inputs_new P S G verify a seed h c ins =
     and_then (validate_account_seed P S a seed) (\<lambda>_.
     if chain_length G c \<noteq> unat (bh_block_num h)
     then Err (InconsistentChainLength (bh_block_num h) (of_nat (chain_length G c)))
     else if mmr_hash_peaks G (cm_mmr c) \<noteq> bh_chain_root h
     then Err (InconsistentChainRoot (bh_chain_root h) (mmr_hash_peaks G (cm_mmr c)))
     else and_then (try_map (check_note_block P verify h c) (ins_notes ins)) (\<lambda>_.
       Ok \<lparr> ti_account = a, ti_account_seed = seed, ti_block_header = h, ti_block_chain = c, ti_input_notes = ins \<rparr>))"

section \<open>The blocks of a chain MMR\<close>

lemma collect_blocks_Ok:
  "collect_blocks G m bm bs = Ok bm' \<Longrightarrow>
     (\<forall>b \<in> set bs. unat (bh_block_num b) < mmr_forest G m \<and> mmr_is_tracked G m (unat (bh_block_num b))) \<and>
     distinct (map bh_block_num bs) \<and> bh_block_num ` set bs \<inter> dom (map_of bm) = {} \<and>
     map_of bm' = map_of bm ++ map_of (map (\<lambda>b. (bh_block_num b, b)) bs)"
proof (induction bs arbitrary: bm)
  case (Cons b bs)
  let ?n = "bh_block_num b"
  from Cons.prems have b: "unat ?n < mmr_forest G m" "map_of bm ?n = None" "mmr_is_tracked G m (unat ?n)"
    and rest: "collect_blocks G m (btree_insert (\<le>) ?n b bm) bs = Ok bm'"
    by (auto simp: Let_def split: if_splits)
  have IH: "bh_block_num ` set bs \<inter> dom ((map_of bm)(?n \<mapsto> b)) = {}"
    "map_of bm' = (map_of bm)(?n \<mapsto> b) ++ map_of (map (\<lambda>b. (bh_block_num b, b)) bs)"
    using Cons.IH [OF rest] unfolding map_of_btree_insert by blast+
  have bs: "\<forall>b \<in> set bs. unat (bh_block_num b) < mmr_forest G m \<and> mmr_is_tracked G m (unat (bh_block_num b))"
    "distinct (map bh_block_num bs)" using Cons.IH [OF rest] by blast+
  have fresh: "bh_block_num ` set bs \<inter> dom (map_of bm) = {}" "?n \<notin> bh_block_num ` set bs"
    using IH(1) unfolding dom_fun_upd by auto
  have "map_of (map (\<lambda>b. (bh_block_num b, b)) bs) ?n = None" using fresh(2) by (force simp: map_of_eq_None_iff)
  then have blocks: "map_of bm' = map_of bm ++ map_of (map (\<lambda>b. (bh_block_num b, b)) (b # bs))"
    by (auto simp: IH(2) map_add_def fun_eq_iff split: option.splits)
  show ?case by (intro conjI blocks) (use bs fresh b in auto)
qed simp

lemma collect_blocks_total:
  assumes "\<forall>b \<in> set bs. unat (bh_block_num b) < mmr_forest G m \<and> mmr_is_tracked G m (unat (bh_block_num b))"
    "distinct (map bh_block_num bs)" "bh_block_num ` set bs \<inter> dom (map_of bm) = {}"
  shows "\<exists>bm'. collect_blocks G m bm bs = Ok bm'"
  using assms
proof (induction bs arbitrary: bm)
  case (Cons b bs)
  have "bh_block_num ` set bs \<inter> dom (map_of (btree_insert (\<le>) (bh_block_num b) b bm)) = {}"
    using Cons.prems(2,3) unfolding map_of_btree_insert dom_fun_upd by auto
  then have "\<exists>bm'. collect_blocks G m (btree_insert (\<le>) (bh_block_num b) b bm) bs = Ok bm'"
    using Cons.prems(1,2) Cons.IH by simp
  moreover have "map_of bm (bh_block_num b) = None" using Cons.prems(3) by auto
  ultimately show ?case using Cons.prems by (auto simp: Let_def)
qed simp

lemma collect_blocks_no_Panic: "collect_blocks G m bm bs \<noteq> Panic msg"
  by (induction bs arbitrary: bm) (auto simp: Let_def)

lemma collect_blocks_order:
  "collect_blocks G m bm bs = Ok bm' \<Longrightarrow> linear.btree_ok bm \<Longrightarrow> linear.btree_ok bm'"
  by (induction bs arbitrary: bm) (auto simp: Let_def linear.btree_ok_insert split: if_splits)

definition blocks_acceptable :: "'g mmr_ops \<Rightarrow> 'g \<Rightarrow> block_header list \<Rightarrow> bool" where
  "blocks_acceptable G m bs \<longleftrightarrow>
     list_all (\<lambda>b. unat (bh_block_num b) < mmr_forest G m \<and> mmr_is_tracked G m (unat (bh_block_num b))) bs \<and>
     distinct (map bh_block_num bs)"

lemma chain_mmr_new_Ok:
  assumes "chain_mmr_new G m bs = Ok c"
  shows "blocks_acceptable G m bs" "cm_mmr c = m" "linear.btree_ok (cm_blocks c)"
    "get_block c n = find (\<lambda>b. bh_block_num b = n) bs"
proof -
  from assms have bm: "collect_blocks G m [] bs = Ok (cm_blocks c)" and "cm_mmr c = m"
    by (auto simp: chain_mmr_new_def res_simps)
  then show "cm_mmr c = m" by simp
  show "blocks_acceptable G m bs" using collect_blocks_Ok [OF bm] by (simp add: blocks_acceptable_def list_all_iff)
  show "linear.btree_ok (cm_blocks c)" using collect_blocks_order [OF bm] by simp
  have "map_of (map (\<lambda>b. (bh_block_num b, b)) bs) n = find (\<lambda>b. bh_block_num b = n) bs" by (induction bs) auto
  then show "get_block c n = find (\<lambda>b. bh_block_num b = n) bs"
    using collect_blocks_Ok [OF bm] by (simp add: get_block_def)
qed

section \<open>Input notes\<close>

interpretation input_list: note_list "input_notes_new P nf" ins_notes
  "\<lambda>nts. \<lparr> ins_notes = nts, ins_commitment = build_input_notes_commitment P nf nts \<rparr>"
  "\<lambda>n. nullifier_digest (nf n)" MAX_INPUT_NOTES_PER_TX TooManyInputNotes DuplicateInputNote
  by unfold_locales (simp_all add: input_notes_new_def MAX_INPUT_NOTES_PER_TX_def)

definition input_note_ok :: "prims \<Rightarrow> 'p input_note \<Rightarrow> bool" where
  "input_note_ok P n \<longleftrightarrow> note_ok P (in_note n) \<and> inclusion_proof_ok P (in_proof n)"

text \<open>A note can have 256 assets, but only up to 255 are read back.\<close>

definition input_note_readable :: "'p input_note \<Rightarrow> bool" where
  "input_note_readable n \<longleftrightarrow> length (na_assets (nt_assets (in_note n))) \<le> 255"

locale input_io = script_spec P Q + proof_spec P M
  for P :: prims and Q :: "('p, 'b) prog_ops" and M :: merkle_ops

sublocale input_io \<subseteq> note_inputs: note_list_io "input_notes_new P input_note_nullifier" ins_notes
  "\<lambda>nts. \<lparr> ins_notes = nts, ins_commitment = build_input_notes_commitment P input_note_nullifier nts \<rparr>"
  "\<lambda>n. nullifier_digest (input_note_nullifier n)" MAX_INPUT_NOTES_PER_TX TooManyInputNotes DuplicateInputNote
  P "write_input_note P Q M" "read_input_note P Q M" "\<lambda>n. input_note_ok P n \<and> input_note_readable n"
proof unfold_locales
  fix n :: "'p input_note" assume n: "input_note_ok P n \<and> input_note_readable n"
  then have "\<And>bs. \<exists>b. write_note P Q (in_note n) = Ok b \<and> read_note P Q (b @ bs) = Ok (in_note n, bs)"
    using read_write_note by (auto simp: input_note_ok_def input_note_readable_def)
  then obtain b where "write_note P Q (in_note n) = Ok b" "\<And>bs. read_note P Q (b @ bs) = Ok (in_note n, bs)"
    by (metis result.inject(1))
  then show "\<exists>b. write_input_note P Q M n = Ok b \<and> (\<forall>bs. read_input_note P Q M (b @ bs) = Ok (n, bs))"
    using n by (simp add: write_input_note_def read_input_note_def input_note_ok_def read_write_inclusion_proof)
qed

sublocale input_io \<subseteq> nullifier_inputs: note_list_io "input_notes_new P nullifier_nullifier" ins_notes
  "\<lambda>nts. \<lparr> ins_notes = nts, ins_commitment = build_input_notes_commitment P nullifier_nullifier nts \<rparr>"
  "\<lambda>n. nullifier_digest (nullifier_nullifier n)" MAX_INPUT_NOTES_PER_TX TooManyInputNotes DuplicateInputNote
  P "\<lambda>n. Ok (write_nullifier P n)" "read_nullifier P" "\<lambda>n. word_ok P (nullifier_digest n)"
  by unfold_locales (simp add: write_nullifier_def read_nullifier_def get_put_digest)

context input_io
begin

lemma read_write_input_notes:
  assumes "input_notes_new P input_note_nullifier nts = Ok ins" "list_all (\<lambda>n. input_note_ok P n \<and> input_note_readable n) nts"
  shows "\<exists>b. write_input_notes P (write_input_note P Q M) ins = Ok b \<and>
    (\<forall>bs. read_input_notes P input_note_nullifier (read_input_note P Q M) (b @ bs) = Ok (ins, bs))"
  unfolding write_input_notes_def read_input_notes_def by (rule note_inputs.read_write_note_list [OF assms])

lemma read_write_nullifiers:
  assumes "input_notes_new P nullifier_nullifier nfs = Ok ins" "list_all (\<lambda>n. word_ok P (nullifier_digest n)) nfs"
  shows "\<exists>b. write_input_notes P (\<lambda>n. Ok (write_nullifier P n)) ins = Ok b \<and>
    (\<forall>bs. read_input_notes P nullifier_nullifier (read_nullifier P) (b @ bs) = Ok (ins, bs))"
  unfolding write_input_notes_def read_input_notes_def by (rule nullifier_inputs.read_write_note_list [OF assms])

end

lemma to_nullifiers_new:
  "input_notes_new P input_note_nullifier nts = Ok ins \<Longrightarrow>
     input_notes_new P nullifier_nullifier (map input_note_nullifier nts) = Ok (to_nullifiers P ins)"
  by (auto simp: input_list.new_Ok_iff to_nullifiers_def nullifier_nullifier_def build_input_notes_commitment_def comp_def)

section \<open>Consistency of transaction inputs\<close>

definition seed_consistent :: "prims \<Rightarrow> 's simple_smt_ops \<Rightarrow> ('v, 's, 'm) account \<Rightarrow> word4 option \<Rightarrow> bool" where
  "seed_consistent P S a seed \<longleftrightarrow>
    (if acct_nonce a = 0
     then \<exists>s. seed = Some s \<and>
       account_id_new P s (code_root S (acct_code a)) (storage_root S (acct_storage a)) = Ok (acct_id a)
     else seed = None)"

definition note_authenticated ::
    "prims \<Rightarrow> (merkle_path \<Rightarrow> u64 \<Rightarrow> digest \<Rightarrow> digest \<Rightarrow> bool) \<Rightarrow> block_header \<Rightarrow> block_header list \<Rightarrow> 'p input_note \<Rightarrow> bool" where
  "note_authenticated P verify h bs n \<longleftrightarrow>
    (\<exists>b. (b = h \<or> b \<in> set bs) \<and> bh_block_num b = org_block_num (prf_origin (in_proof n)) \<and>
      verify (prf_note_path (in_proof n)) (node_value (org_node_index (prf_origin (in_proof n))))
        (authentication_hash P (in_note n)) (bh_note_root b))"

lemma account_id_new_no_Panic: "account_id_new P seed c st \<noteq> Panic msg"
  by (auto simp: account_id_new_def validate_seed_digest_def try_from_felt_def Let_def res_simps)

lemma validate_account_seed_Ok: "validate_account_seed P S a seed = Ok () \<longleftrightarrow> seed_consistent P S a seed"
  by (cases seed) (auto simp: validate_account_seed_def seed_consistent_def account_is_new_def res_simps)

lemma validate_account_seed_no_Panic: "validate_account_seed P S a seed \<noteq> Panic msg"
  by (cases seed; cases "account_is_new a") (auto simp: validate_account_seed_def account_id_new_no_Panic res_simps)

lemma check_note_block_no_Panic: "check_note_block P verify h c n \<noteq> Panic msg"
  by (auto simp: check_note_block_def Let_def res_simps split: option.splits if_splits)

lemma try_map_no_Panic: "(\<And>x. f x \<noteq> Panic m) \<Longrightarrow> try_map f xs \<noteq> Panic m"
  by (induction xs) (auto simp: res_simps)

lemma check_note_block_Ok:
  assumes "chain_mmr_new G m bs = Ok c" "mmr_forest G m = unat (bh_block_num h)"
  shows "check_note_block P verify h c n = Ok () \<longleftrightarrow> note_authenticated P verify h bs n"
proof -
  let ?num = "org_block_num (prf_origin (in_proof n))"
  note c = chain_mmr_new_Ok [OF assms(1)]
  have older: "bh_block_num b \<noteq> bh_block_num h" if "b \<in> set bs" for b
    using c(1) that assms(2) by (fastforce simp: blocks_acceptable_def list_all_iff)
  have same: "b = b'" if "b \<in> set bs" "b' \<in> set bs" "bh_block_num b = bh_block_num b'" for b b'
    using c(1) that by (auto simp: blocks_acceptable_def distinct_map dest: inj_onD)
  show ?thesis
  proof (cases "?num = bh_block_num h")
    case True
    then show ?thesis using older
      by (auto simp: check_note_block_def note_authenticated_def input_note_origin_def is_in_block_def Let_def)
  next
    case False
    show ?thesis
    proof (cases "find (\<lambda>b. bh_block_num b = ?num) bs")
      case None
      then have "\<forall>b \<in> set bs. bh_block_num b \<noteq> ?num" by (simp add: find_None_iff)
      with None False c(4) [of ?num] show ?thesis
        by (auto simp: check_note_block_def note_authenticated_def input_note_origin_def Let_def)
    next
      case (Some b)
      then have b: "b \<in> set bs" "bh_block_num b = ?num" by (auto simp: find_Some_iff)
      have "note_authenticated P verify h bs n \<longleftrightarrow> is_in_block P verify n b"
        unfolding note_authenticated_def is_in_block_def input_note_origin_def Let_def using False b same by metis
      moreover have "check_note_block P verify h c n = Ok () \<longleftrightarrow> is_in_block P verify n b"
        using False Some c(4) [of ?num] by (simp add: check_note_block_def input_note_origin_def Let_def)
      ultimately show ?thesis by simp
    qed
  qed
qed

lemma try_map_unit_Ok: "(\<exists>us. try_map f xs = Ok us) \<longleftrightarrow> list_all (\<lambda>x. f x = Ok ()) xs"
  by (induction xs) (auto simp: res_simps)

text \<open>A chain of known length that tracks every block.\<close>

definition sample_mmr :: "nat mmr_ops" where
  "sample_mmr = \<lparr> mmr_forest = (\<lambda>n. n), mmr_is_tracked = (\<lambda>_ _. True), mmr_add = (\<lambda>n _ _. Suc n),
     mmr_hash_peaks = (\<lambda>n. W (of_nat n) 0 0 0) \<rparr>"

definition sample_block :: "u32 \<Rightarrow> block_header" where
  "sample_block n = block_header_new sample_prims EMPTY_WORD n (W (ucast n) 0 0 0) EMPTY_WORD EMPTY_WORD (W 7 7 7 7)
     EMPTY_WORD EMPTY_WORD 0 0"

definition sample_input_note :: "word4 \<Rightarrow> u32 \<Rightarrow> u8 list input_note" where
  "sample_input_note serial n = \<lparr> in_note = sample_note serial,
     in_proof = \<lparr> prf_origin = \<lparr> org_block_num = n, org_node_index = \<lparr> node_depth = 20, node_value = 5 \<rparr> \<rparr>,
       prf_sub_hash = W 1 1 1 1, prf_note_root = W 7 7 7 7, prf_note_path = [W 2 2 2 2] \<rparr> \<rparr>"

lemma sample_block_num [simp]: "bh_block_num (sample_block n) = n"
  by (simp add: sample_block_def block_header_new_def Let_def)

lemma sample_input_note_ok:
  "word_ok sample_prims serial \<Longrightarrow>
     input_note_ok sample_prims (sample_input_note serial n) \<and> input_note_readable (sample_input_note serial n)"
  using sample_note_ok [of serial]
  by (simp add: input_note_ok_def input_note_readable_def sample_input_note_def inclusion_proof_ok_def node_index_ok_def merkle_path_ok_def
      sample_felt_ok) (simp add: sample_note_def note_new_def)

interpretation sample_input_io: input_io sample_prims sample_prog sample_merkle
  by unfold_locales

section \<open>Properties\<close>

text \<open>
  C30. A chain MMR is built exactly if every header is below the chain length and tracked, and no
  two headers have the same number; it then answers every query with the header of that number.
\<close>

theorem chain_mmr_new_correct:
  "if blocks_acceptable G m bs
   then \<exists>c. chain_mmr_new G m bs = Ok c \<and> cm_mmr c = m \<and>
     (\<forall>n. get_block c n = find (\<lambda>b. bh_block_num b = n) bs \<and>
       contains_block c n = (\<exists>b. b \<in> set bs \<and> bh_block_num b = n))
   else \<exists>e. chain_mmr_new G m bs = Err e"
proof (cases "blocks_acceptable G m bs")
  case True
  then obtain c where c: "chain_mmr_new G m bs = Ok c"
    using collect_blocks_total [of bs G m "[]"] by (auto simp: chain_mmr_new_def blocks_acceptable_def list_all_iff)
  have "contains_block c n = (\<exists>b. b \<in> set bs \<and> bh_block_num b = n)" for n
  proof -
    have "contains_block c n \<longleftrightarrow> find (\<lambda>b. bh_block_num b = n) bs \<noteq> None"
      using chain_mmr_new_Ok(4) [OF c, of n] by (simp add: contains_block_def get_block_def)
    then show ?thesis by (auto simp: find_None_iff)
  qed
  with True c chain_mmr_new_Ok [OF c] show ?thesis by auto
next
  case False
  then have "collect_blocks G m [] bs \<noteq> Ok bm" for bm
    using collect_blocks_Ok [of G m "[]" bs bm] by (auto simp: blocks_acceptable_def list_all_iff)
  with False show ?thesis
    using collect_blocks_no_Panic [of G m "[]" bs] by (cases "collect_blocks G m [] bs") (auto simp: chain_mmr_new_def)
qed

text \<open>
  C5. Transaction inputs are accepted exactly if the seed fits the account (a new account has one
  that yields its identifier, an existing account has none), the chain has the length and the root
  that the reference block states, and every input note is proved to be in the reference block or
  in a block of the chain with the number the note names.  Nothing else is accepted and nothing
  panics.
\<close>

theorem transaction_inputs_accepted:
  assumes "chain_mmr_new G m bs = Ok c" "input_notes_new P input_note_nullifier nts = Ok ins"
  shows "(transaction_inputs_new P S G verify a seed h c ins = Ok ti \<longleftrightarrow>
      seed_consistent P S a seed \<and> mmr_forest G m = unat (bh_block_num h) \<and> mmr_hash_peaks G m = bh_chain_root h \<and>
      list_all (note_authenticated P verify h bs) nts \<and>
      ti = \<lparr> ti_account = a, ti_account_seed = seed, ti_block_header = h, ti_block_chain = c, ti_input_notes = ins \<rparr>) \<and>
    transaction_inputs_new P S G verify a seed h c ins \<noteq> Panic msg"
proof
  have ins: "ins_notes ins = nts" using input_list.items_bounded [OF assms(2)] by simp
  have m: "cm_mmr c = m" by (rule chain_mmr_new_Ok(2) [OF assms(1)])
  have "try_map (check_note_block P verify h c) nts \<noteq> Panic msg"
    by (rule try_map_no_Panic) (rule check_note_block_no_Panic)
  then show "transaction_inputs_new P S G verify a seed h c ins \<noteq> Panic msg"
    using validate_account_seed_no_Panic [of P S a seed msg] by (auto simp: transaction_inputs_new_def res_simps ins)
  show "transaction_inputs_new P S G verify a seed h c ins = Ok ti \<longleftrightarrow>
      seed_consistent P S a seed \<and> mmr_forest G m = unat (bh_block_num h) \<and> mmr_hash_peaks G m = bh_chain_root h \<and>
      list_all (note_authenticated P verify h bs) nts \<and>
      ti = \<lparr> ti_account = a, ti_account_seed = seed, ti_block_header = h, ti_block_chain = c, ti_input_notes = ins \<rparr>"
  proof (cases "mmr_forest G m = unat (bh_block_num h)")
    case True
    have "(\<exists>us. try_map (check_note_block P verify h c) nts = Ok us) \<longleftrightarrow> list_all (note_authenticated P verify h bs) nts"
      by (simp add: try_map_unit_Ok check_note_block_Ok [OF assms(1) True])
    with True show ?thesis
      by (auto simp: transaction_inputs_new_def res_simps chain_length_def m ins validate_account_seed_Ok)
  qed (auto simp: transaction_inputs_new_def res_simps chain_length_def m)
qed

theorem transaction_inputs_accepted_witness:
  "\<exists>c ins ti. chain_mmr_new sample_mmr 2 [sample_block 0] = Ok c \<and>
     input_notes_new sample_prims input_note_nullifier [sample_input_note (W 1 2 3 4) 0] = Ok ins \<and>
     transaction_inputs_new sample_prims (sample_ssmt 8) sample_mmr (\<lambda>_ _ _ r. r = W 7 7 7 7)
       (sample_account EMPTY_WORD) None (sample_block 2) c ins = Ok ti"
proof -
  obtain c where c: "chain_mmr_new sample_mmr 2 [sample_block 0] = Ok c"
    by (simp add: chain_mmr_new_def sample_mmr_def)
  obtain ins where ins: "input_notes_new sample_prims input_note_nullifier [sample_input_note (W 1 2 3 4) 0] = Ok ins"
    by (simp add: input_notes_new_def MAX_INPUT_NOTES_PER_TX_def)
  have "note_authenticated sample_prims (\<lambda>_ _ _ r. r = W 7 7 7 7) (sample_block 2) [sample_block 0]
      (sample_input_note (W 1 2 3 4) 0)"
    unfolding note_authenticated_def
    by (rule exI [of _ "sample_block 0"])
      (simp add: sample_input_note_def, simp add: sample_block_def block_header_new_def Let_def)
  moreover have "seed_consistent sample_prims (sample_ssmt 8) (sample_account EMPTY_WORD) None"
    by (simp add: seed_consistent_def sample_account_def account_new_def)
  moreover have "mmr_forest sample_mmr 2 = unat (bh_block_num (sample_block 2))"
    "mmr_hash_peaks sample_mmr 2 = bh_chain_root (sample_block 2)"
    by (simp_all add: sample_mmr_def, simp add: sample_block_def block_header_new_def Let_def)
  ultimately have "transaction_inputs_new sample_prims (sample_ssmt 8) sample_mmr (\<lambda>_ _ _ r. r = W 7 7 7 7)
       (sample_account EMPTY_WORD) None (sample_block 2) c ins = Ok \<lparr> ti_account = sample_account EMPTY_WORD,
         ti_account_seed = None, ti_block_header = sample_block 2, ti_block_chain = c, ti_input_notes = ins \<rparr>"
    by (subst transaction_inputs_accepted [OF c ins, THEN conjunct1]) simp
  with c ins show ?thesis by blast
qed

text \<open>
  C27. Input notes.  A list of notes is accepted exactly if it has at most 1023 notes with pairwise
  distinct nullifiers.  An accepted list of well-formed notes with at most 255 assets each is read back
  as it was written; its conversion to nullifiers is the list the constructor builds from the
  nullifiers, with the same commitment.
\<close>

theorem input_notes_correct:
  assumes "input_io P Q M"
  shows "(is_ok (input_notes_new P input_note_nullifier nts) \<longleftrightarrow>
      length nts \<le> 1023 \<and> distinct (map (\<lambda>n. nullifier_digest (nt_nullifier (in_note n))) nts)) \<and>
    (input_notes_new P input_note_nullifier nts = Ok ins \<longrightarrow>
      input_notes_new P nullifier_nullifier (map input_note_nullifier nts) = Ok (to_nullifiers P ins) \<and>
      ins_commitment (to_nullifiers P ins) = ins_commitment ins \<and>
      (list_all (\<lambda>n. input_note_ok P n \<and> length (na_assets (nt_assets (in_note n))) \<le> 255) nts \<longrightarrow>
        (\<exists>b. write_input_notes P (write_input_note P Q M) ins = Ok b \<and>
          read_input_notes P input_note_nullifier (read_input_note P Q M) (b @ rest) = Ok (ins, rest))))"
proof (intro conjI impI)
  show "is_ok (input_notes_new P input_note_nullifier nts) \<longleftrightarrow>
      length nts \<le> 1023 \<and> distinct (map (\<lambda>n. nullifier_digest (nt_nullifier (in_note n))) nts)"
    by (simp add: is_ok_iff input_list.new_Ok_iff MAX_INPUT_NOTES_PER_TX_def input_note_nullifier_def)
  assume new: "input_notes_new P input_note_nullifier nts = Ok ins"
  show "input_notes_new P nullifier_nullifier (map input_note_nullifier nts) = Ok (to_nullifiers P ins)"
    by (rule to_nullifiers_new [OF new])
  show "ins_commitment (to_nullifiers P ins) = ins_commitment ins"
    using new by (simp add: input_list.new_Ok_iff to_nullifiers_def)
  assume "list_all (\<lambda>n. input_note_ok P n \<and> length (na_assets (nt_assets (in_note n))) \<le> 255) nts"
  then have "list_all (\<lambda>n. input_note_ok P n \<and> input_note_readable n) nts" by (simp add: input_note_readable_def)
  from input_io.read_write_input_notes [OF assms new this]
  show "\<exists>b. write_input_notes P (write_input_note P Q M) ins = Ok b \<and>
      read_input_notes P input_note_nullifier (read_input_note P Q M) (b @ rest) = Ok (ins, rest)" by blast
qed

theorem input_notes_correct_witness:
  "\<exists>ins b. input_notes_new sample_prims input_note_nullifier [sample_input_note (W 1 2 3 4) 0] = Ok ins \<and>
     write_input_notes sample_prims (write_input_note sample_prims sample_prog sample_merkle) ins = Ok b \<and>
     read_input_notes sample_prims input_note_nullifier (read_input_note sample_prims sample_prog sample_merkle) (b @ [])
       = Ok (ins, [])"
proof -
  have "input_note_ok sample_prims (sample_input_note (W 1 2 3 4) 0) \<and> input_note_readable (sample_input_note (W 1 2 3 4) 0)"
    by (rule sample_input_note_ok) (simp add: sample_felt_ok)
  moreover obtain ins where "input_notes_new sample_prims input_note_nullifier [sample_input_note (W 1 2 3 4) 0] = Ok ins"
    by (simp add: input_notes_new_def MAX_INPUT_NOTES_PER_TX_def)
  ultimately show ?thesis
    using input_notes_correct [OF sample_input_io.input_io_axioms, of "[sample_input_note (W 1 2 3 4) 0]" ins "[]"]
    by (auto simp: input_note_readable_def)
qed

end
