(* ===== verification/Transaction_Outputs.thy ===== *)
theory Transaction_Outputs
  imports Transaction_Inputs
begin

text \<open>
  The outputs of a transaction (\<open>objects/src/transaction/outputs.rs\<close>), transaction identifiers
  (\<open>transaction_id.rs\<close>) and proven transactions with their builder and validation
  (\<open>proven_tx.rs\<close>).
\<close>

section \<open>Output notes\<close>

definition MAX_OUTPUT_NOTES_PER_TX :: nat where
  "MAX_OUTPUT_NOTES_PER_TX = 4096"

datatype 'p output_note = PublicNote "'p miden_note" | PrivateNote note_envelope

fun output_note_assets :: "'p output_note \<Rightarrow> note_assets option" where
  "output_note_assets (PublicNote n) = Some (nt_assets n)"
| "output_note_assets (PrivateNote e) = None"

fun output_note_id :: "'p output_note \<Rightarrow> note_id" where
  "output_note_id (PublicNote n) = nt_id n"
| "output_note_id (PrivateNote e) = env_note_id e"

fun output_note_recipient_digest :: "'p output_note \<Rightarrow> digest option" where
  "output_note_recipient_digest (PublicNote n) = Some (rcp_digest (nt_recipient n))"
| "output_note_recipient_digest (PrivateNote e) = None"

fun output_note_metadata :: "'p output_note \<Rightarrow> note_metadata" where
  "output_note_metadata (PublicNote n) = nt_metadata n"
| "output_note_metadata (PrivateNote e) = env_metadata e"

fun output_note_to_envelope :: "'p output_note \<Rightarrow> note_envelope" where
  "output_note_to_envelope (PublicNote n) = note_to_envelope n"
| "output_note_to_envelope (PrivateNote e) = e"

definition OUTPUT_PUBLIC :: u8 where
  "OUTPUT_PUBLIC = 0"

definition OUTPUT_PRIVATE :: u8 where
  "OUTPUT_PRIVATE = 1"

fun write_output_note :: "prims \<Rightarrow> ('p, 'b) prog_ops \<Rightarrow> 'p output_note \<Rightarrow> (u8 list, unit) result" where
  "write_output_note P Q (PublicNote n) = map_ok (\<lambda>b. put_u8 P OUTPUT_PUBLIC @ b) (write_note P Q n)"
| "write_output_note P Q (PrivateNote e) = Ok (put_u8 P OUTPUT_PRIVATE @ write_note_envelope P e)"

definition read_output_note :: "prims \<Rightarrow> ('p, 'b) prog_ops \<Rightarrow> ('p output_note, deserialization_error) reader" where
  "read_output_note P Q bs =
     and_then (get_u8 P bs) (\<lambda>(v, bs1).
       if v = OUTPUT_PUBLIC then and_then (read_note P Q bs1) (\<lambda>(n, bs2). Ok (PublicNote n, bs2))
       else if v = OUTPUT_PRIVATE then and_then (read_note_envelope P bs1) (\<lambda>(e, bs2). Ok (PrivateNote e, bs2))
       else Err (InvalidValue (''Invalid note type: '' @ show_nat (unat v))))"

record 'p output_notes =
  outs_notes :: "'p output_note list"
  outs_commitment :: digest

definition build_output_notes_commitment :: "prims \<Rightarrow> 'p output_note list \<Rightarrow> digest" where
  "build_output_notes_commitment P nts =
    (if nts = [] then EMPTY_WORD
     else hash_elements P (concat (map (\<lambda>n. elements (note_id_digest (output_note_id n))
       @ elements (note_metadata_to_word P (output_note_metadata n))) nts)))"

definition output_notes_new :: "prims \<Rightarrow> 'p output_note list \<Rightarrow> ('p output_notes, transaction_output_error) result" where
  "output_notes_new P nts =
    (if MAX_OUTPUT_NOTES_PER_TX < length nts then Err (TooManyOutputNotes MAX_OUTPUT_NOTES_PER_TX (length nts))
     else and_then (check_unique output_note_id DuplicateOutputNote [] nts) (\<lambda>_.
       Ok \<lparr> outs_notes = nts, outs_commitment = build_output_notes_commitment P nts \<rparr>))"

definition get_output_note :: "'p output_notes \<Rightarrow> nat \<Rightarrow> ('p output_note, unit) result" where
  "get_output_note outs i =
    (if i < length (outs_notes outs) then Ok (outs_notes outs ! i) else Panic ''index out of bounds'')"

definition write_output_notes :: "prims \<Rightarrow> ('p, 'b) prog_ops \<Rightarrow> 'p output_notes \<Rightarrow> (u8 list, unit) result" where
  "write_output_notes P Q outs = write_note_list P (write_output_note P Q) (outs_notes outs)"

definition read_output_notes :: "prims \<Rightarrow> ('p, 'b) prog_ops \<Rightarrow> ('p output_notes, deserialization_error) reader" where
  "read_output_notes P Q = read_note_list P (show_tx_output_error P) (read_output_note P Q) (output_notes_new P)"

record 'p transaction_outputs =
  to_account :: account_stub
  to_output_notes :: "'p output_notes"

section \<open>Transaction identifiers\<close>

datatype transaction_id = TransactionId (transaction_id_digest: digest)

definition transaction_id_new :: "prims \<Rightarrow> digest \<Rightarrow> digest \<Rightarrow> digest \<Rightarrow> digest \<Rightarrow> transaction_id" where
  "transaction_id_new P init_hash final_hash input_hash output_hash =
     TransactionId (hash_elements P (elements init_hash @ elements final_hash @ elements input_hash @ elements output_hash))"

definition write_transaction_id :: "prims \<Rightarrow> transaction_id \<Rightarrow> u8 list" where
  "write_transaction_id P i = put_digest P (transaction_id_digest i)"

definition read_transaction_id :: "prims \<Rightarrow> (transaction_id, deserialization_error) reader" where
  "read_transaction_id P bs = and_then (get_digest P bs) (\<lambda>(d, bs1). Ok (TransactionId d, bs1))"

section \<open>Proven transactions\<close>

datatype ('v, 's, 'm) account_details = Full "('v, 's, 'm) account" | Delta account_delta

record ('v, 's, 'm, 'p, 'x) proven_transaction =
  ptx_id :: transaction_id
  ptx_account_id :: account_id
  ptx_initial_account_hash :: digest
  ptx_final_account_hash :: digest
  ptx_account_details :: "('v, 's, 'm) account_details option"
  ptx_input_notes :: "nullifier input_notes"
  ptx_output_notes :: "'p output_notes"
  ptx_tx_script_root :: "digest option"
  ptx_block_ref :: digest
  ptx_proof :: 'x

definition validate_proven_transaction ::
    "prims \<Rightarrow> 'v smt_ops \<Rightarrow> 's simple_smt_ops \<Rightarrow> ('v, 's, 'm, 'p, 'x) proven_transaction
      \<Rightarrow> (('v, 's, 'm, 'p, 'x) proven_transaction, proven_transaction_error) result" where
  "validate_proven_transaction P T S tx =
    (let i = ptx_account_id tx in
     and_then (is_on_chain i) (\<lambda>on_chain.
     if \<not> on_chain \<and> ptx_account_details tx \<noteq> None then Err (OffChainAccountWithDetails i)
     else if on_chain then
       (case ptx_account_details tx of
          None \<Rightarrow> Err (OnChainAccountMissingDetails i)
        | Some details \<Rightarrow>
            (let is_new_account = (ptx_initial_account_hash tx = EMPTY_WORD) in
             case (is_new_account, details) of
               (True, Delta _) \<Rightarrow> Err (NewOnChainAccountRequiresFullDetails i)
             | (True, Full account) \<Rightarrow>
                 if acct_id account \<noteq> i then Err (AccountIdMismatch i (acct_id account))
                 else if account_hash P T S account \<noteq> ptx_final_account_hash tx
                 then Err (AccountFinalHashMismatch (ptx_final_account_hash tx) (account_hash P T S account))
                 else Ok tx
             | (False, Full _) \<Rightarrow> Err (ExistingOnChainAccountRequiresDeltaDetails i)
             | (False, Delta _) \<Rightarrow> Ok tx))
     else Ok tx))"

record ('v, 's, 'm, 'p, 'x) proven_transaction_builder =
  ptb_account_id :: account_id
  ptb_initial_account_hash :: digest
  ptb_final_account_hash :: digest
  ptb_account_details :: "('v, 's, 'm) account_details option"
  ptb_input_notes :: "nullifier list"
  ptb_output_notes :: "'p output_note list"
  ptb_tx_script_root :: "digest option"
  ptb_block_ref :: digest
  ptb_proof :: 'x

definition proven_transaction_builder_new ::
    "account_id \<Rightarrow> digest \<Rightarrow> digest \<Rightarrow> digest \<Rightarrow> 'x \<Rightarrow> ('v, 's, 'm, 'p, 'x) proven_transaction_builder" where
  "proven_transaction_builder_new i init_hash final_hash block_ref prf =
     \<lparr> ptb_account_id = i, ptb_initial_account_hash = init_hash, ptb_final_account_hash = final_hash,
       ptb_account_details = None, ptb_input_notes = [], ptb_output_notes = [], ptb_tx_script_root = None,
       ptb_block_ref = block_ref, ptb_proof = prf \<rparr>"

definition builder_account_details ::
    "('v, 's, 'm, 'p, 'x) proven_transaction_builder \<Rightarrow> ('v, 's, 'm) account_details
      \<Rightarrow> ('v, 's, 'm, 'p, 'x) proven_transaction_builder" where
  "builder_account_details b details = b\<lparr>ptb_account_details := Some details\<rparr>"

definition add_input_notes ::
    "('v, 's, 'm, 'p, 'x) proven_transaction_builder \<Rightarrow> nullifier list
      \<Rightarrow> ('v, 's, 'm, 'p, 'x) proven_transaction_builder" where
  "add_input_notes b nts = b\<lparr>ptb_input_notes := ptb_input_notes b @ nts\<rparr>"

definition add_output_notes ::
    "('v, 's, 'm, 'p, 'x) proven_transaction_builder \<Rightarrow> 'p output_note list
      \<Rightarrow> ('v, 's, 'm, 'p, 'x) proven_transaction_builder" where
  "add_output_notes b nts = b\<lparr>ptb_output_notes := ptb_output_notes b @ nts\<rparr>"

definition builder_tx_script_root ::
    "('v, 's, 'm, 'p, 'x) proven_transaction_builder \<Rightarrow> digest \<Rightarrow> ('v, 's, 'm, 'p, 'x) proven_transaction_builder" where
  "builder_tx_script_root b root = b\<lparr>ptb_tx_script_root := Some root\<rparr>"

definition build_proven_transaction ::
    "prims \<Rightarrow> 'v smt_ops \<Rightarrow> 's simple_smt_ops \<Rightarrow> ('v, 's, 'm, 'p, 'x) proven_transaction_builder
      \<Rightarrow> (('v, 's, 'm, 'p, 'x) proven_transaction, proven_transaction_error) result" where
  "build_proven_transaction P T S b =
     and_then (map_err InputNotesError (input_notes_new P nullifier_nullifier (ptb_input_notes b))) (\<lambda>ins.
     and_then (map_err OutputNotesError (output_notes_new P (ptb_output_notes b))) (\<lambda>outs.
       validate_proven_transaction P T S
         \<lparr> ptx_id = transaction_id_new P (ptb_initial_account_hash b) (ptb_final_account_hash b)
             (ins_commitment ins) (outs_commitment outs),
           ptx_account_id = ptb_account_id b, ptx_initial_account_hash = ptb_initial_account_hash b,
           ptx_final_account_hash = ptb_final_account_hash b, ptx_account_details = ptb_account_details b,
           ptx_input_notes = ins, ptx_output_notes = outs, ptx_tx_script_root = ptb_tx_script_root b,
           ptx_block_ref = ptb_block_ref b, ptx_proof = ptb_proof b \<rparr>))"

definition proven_transaction_to_id :: "prims \<Rightarrow> ('v, 's, 'm, 'p, 'x) proven_transaction \<Rightarrow> transaction_id" where
  "proven_transaction_to_id P tx = transaction_id_new P (ptx_initial_account_hash tx) (ptx_final_account_hash tx)
     (ins_commitment (ptx_input_notes tx)) (outs_commitment (ptx_output_notes tx))"

text \<open>
  The encodings of \<open>Option\<close> and of the execution proof are third-party code: the record \<open>K\<close>.
\<close>

record ('d, 'x) proven_codec =
  put_option :: "u8 list option \<Rightarrow> u8 list"
  get_option_details :: "(u8 list \<Rightarrow> ('d \<times> u8 list, deserialization_error) result)
    \<Rightarrow> u8 list \<Rightarrow> ('d option \<times> u8 list, deserialization_error) result"
  get_option_digest :: "(u8 list \<Rightarrow> (digest \<times> u8 list, deserialization_error) result)
    \<Rightarrow> u8 list \<Rightarrow> (digest option \<times> u8 list, deserialization_error) result"
  put_proof :: "'x \<Rightarrow> u8 list"
  get_proof :: "u8 list \<Rightarrow> ('x \<times> u8 list, deserialization_error) result"

locale proven_codec_spec =
  fixes K :: "('d, 'x) proven_codec"
  assumes get_option_details_None: "get_option_details K rd (put_option K None @ bs) = Ok (None, bs)"
    and get_option_details_Some: "rd (b @ bs) = Ok (x, bs') \<Longrightarrow> get_option_details K rd (put_option K (Some b) @ bs) = Ok (Some x, bs')"
    and get_option_digest_None: "get_option_digest K rd' (put_option K None @ bs) = Ok (None, bs)"
    and get_option_digest_Some: "rd' (b @ bs) = Ok (d, bs') \<Longrightarrow> get_option_digest K rd' (put_option K (Some b) @ bs) = Ok (Some d, bs')"
    and get_put_proof: "get_proof K (put_proof K p @ bs) = Ok (p, bs)"

fun write_account_details ::
    "prims \<Rightarrow> 'v smt_ops \<Rightarrow> 's simple_smt_ops \<Rightarrow> 'm asm_ops \<Rightarrow> ('v, 's, 'm) account_details \<Rightarrow> (u8 list, unit) result" where
  "write_account_details P T S A (Full a) = map_ok (\<lambda>b. put_u8 P 0 @ b) (write_account P T S A a)"
| "write_account_details P T S A (Delta d) = map_ok (\<lambda>b. put_u8 P 1 @ b) (write_account_delta P d)"

definition read_account_details ::
    "prims \<Rightarrow> 'v smt_ops \<Rightarrow> 's simple_smt_ops \<Rightarrow> 'm asm_ops \<Rightarrow> (('v, 's, 'm) account_details, deserialization_error) reader" where
  "read_account_details P T S A bs =
     and_then (get_u8 P bs) (\<lambda>(v, bs1).
       if v = 0 then and_then (read_account P T S A bs1) (\<lambda>(a, bs2). Ok (Full a, bs2))
       else if v = 1 then and_then (read_account_delta P bs1) (\<lambda>(d, bs2). Ok (Delta d, bs2))
       else Err (InvalidValue (''Unknown variant '' @ show_nat (unat v) @ '' for AccountDetails'')))"

definition write_proven_transaction ::
    "prims \<Rightarrow> 'v smt_ops \<Rightarrow> 's simple_smt_ops \<Rightarrow> 'm asm_ops \<Rightarrow> ('p, 'b) prog_ops
      \<Rightarrow> (('v, 's, 'm) account_details, 'x) proven_codec \<Rightarrow> ('v, 's, 'm, 'p, 'x) proven_transaction \<Rightarrow> (u8 list, unit) result" where
  "write_proven_transaction P T S A Q K tx =
     and_then (case ptx_account_details tx of None \<Rightarrow> Ok None
       | Some d \<Rightarrow> map_ok Some (write_account_details P T S A d)) (\<lambda>details.
     and_then (write_input_notes P (\<lambda>n. Ok (write_nullifier P n)) (ptx_input_notes tx)) (\<lambda>ins.
     and_then (write_output_notes P Q (ptx_output_notes tx)) (\<lambda>outs.
       Ok (write_account_id P (ptx_account_id tx) @ put_digest P (ptx_initial_account_hash tx)
         @ put_digest P (ptx_final_account_hash tx) @ put_option K details @ ins @ outs
         @ put_option K (map_option (put_digest P) (ptx_tx_script_root tx)) @ put_digest P (ptx_block_ref tx)
         @ put_proof K (ptx_proof tx)))))"

definition read_proven_transaction ::
    "prims \<Rightarrow> 'v smt_ops \<Rightarrow> 's simple_smt_ops \<Rightarrow> 'm asm_ops \<Rightarrow> ('p, 'b) prog_ops
      \<Rightarrow> (('v, 's, 'm) account_details, 'x) proven_codec
      \<Rightarrow> (('v, 's, 'm, 'p, 'x) proven_transaction, deserialization_error) reader" where
  "read_proven_transaction P T S A Q K bs =
     and_then (read_account_id P bs) (\<lambda>(i, bs1).
     and_then (get_digest P bs1) (\<lambda>(init_hash, bs2).
     and_then (get_digest P bs2) (\<lambda>(final_hash, bs3).
     and_then (get_option_details K (read_account_details P T S A) bs3) (\<lambda>(details, bs4).
     and_then (read_input_notes P nullifier_nullifier (read_nullifier P) bs4) (\<lambda>(ins, bs5).
     and_then (read_output_notes P Q bs5) (\<lambda>(outs, bs6).
     and_then (get_option_digest K (get_digest P) bs6) (\<lambda>(script_root, bs7).
     and_then (get_digest P bs7) (\<lambda>(block_ref, bs8).
     and_then (get_proof K bs8) (\<lambda>(prf, bs9).
     and_then (map_err (\<lambda>e. InvalidValue (show_proven_tx_error P e)) (validate_proven_transaction P T S
         \<lparr> ptx_id = transaction_id_new P init_hash final_hash (ins_commitment ins) (outs_commitment outs),
           ptx_account_id = i, ptx_initial_account_hash = init_hash, ptx_final_account_hash = final_hash,
           ptx_account_details = details, ptx_input_notes = ins, ptx_output_notes = outs,
           ptx_tx_script_root = script_root, ptx_block_ref = block_ref, ptx_proof = prf \<rparr>)) (\<lambda>tx.
       Ok (tx, bs9)))))))))))"

section \<open>Output notes\<close>

interpretation output_list: note_list "output_notes_new P" outs_notes
  "\<lambda>nts. \<lparr> outs_notes = nts, outs_commitment = build_output_notes_commitment P nts \<rparr>"
  output_note_id MAX_OUTPUT_NOTES_PER_TX TooManyOutputNotes DuplicateOutputNote
  by unfold_locales (simp_all add: output_notes_new_def MAX_OUTPUT_NOTES_PER_TX_def)

fun output_note_ok :: "prims \<Rightarrow> 'p output_note \<Rightarrow> bool" where
  "output_note_ok P (PublicNote n) \<longleftrightarrow> note_ok P n"
| "output_note_ok P (PrivateNote e) \<longleftrightarrow> word_ok P (note_id_digest (env_note_id e)) \<and> metadata_ok P (env_metadata e)"

fun output_note_readable :: "'p output_note \<Rightarrow> bool" where
  "output_note_readable (PublicNote n) \<longleftrightarrow> length (na_assets (nt_assets n)) \<le> 255"
| "output_note_readable (PrivateNote e) \<longleftrightarrow> True"

sublocale input_io \<subseteq> outputs: note_list_io "output_notes_new P" outs_notes
  "\<lambda>nts. \<lparr> outs_notes = nts, outs_commitment = build_output_notes_commitment P nts \<rparr>"
  output_note_id MAX_OUTPUT_NOTES_PER_TX TooManyOutputNotes DuplicateOutputNote
  P "write_output_note P Q" "read_output_note P Q" "\<lambda>n. output_note_ok P n \<and> output_note_readable n"
proof unfold_locales
  fix n :: "'p output_note" assume n: "output_note_ok P n \<and> output_note_readable n"
  show "\<exists>b. write_output_note P Q n = Ok b \<and> (\<forall>bs. read_output_note P Q (b @ bs) = Ok (n, bs))"
  proof (cases n)
    case (PublicNote m)
    with n have "\<And>bs. \<exists>b. write_note P Q m = Ok b \<and> read_note P Q (b @ bs) = Ok (m, bs)"
      using read_write_note by simp
    then obtain b where "write_note P Q m = Ok b" "\<And>bs. read_note P Q (b @ bs) = Ok (m, bs)"
      by (metis result.inject(1))
    with PublicNote show ?thesis by (simp add: read_output_note_def get_put_u8)
  next
    case (PrivateNote e)
    with n show ?thesis
      by (simp add: read_output_note_def get_put_u8 OUTPUT_PUBLIC_def OUTPUT_PRIVATE_def read_write_note_envelope)
  qed
qed

section \<open>Validation\<close>

text \<open>
  An off-chain account has no details; a new on-chain account has its full state, with the
  identifier and the final hash of the transaction; an existing on-chain account has a delta.
\<close>

definition details_consistent ::
    "prims \<Rightarrow> 'v smt_ops \<Rightarrow> 's simple_smt_ops \<Rightarrow> account_id \<Rightarrow> digest \<Rightarrow> digest \<Rightarrow> ('v, 's, 'm) account_details option \<Rightarrow> bool" where
  "details_consistent P T S i init_hash final_hash details \<longleftrightarrow>
    (case (is_on_chain i :: (bool, unit) result) of
       Ok True \<Rightarrow>
        (if init_hash = EMPTY_WORD
         then \<exists>a. details = Some (Full a) \<and> acct_id a = i \<and> account_hash P T S a = final_hash
         else \<exists>d. details = Some (Delta d))
     | Ok False \<Rightarrow> details = None
     | _ \<Rightarrow> False)"

lemma is_on_chain_cases:
  "(\<exists>b. (is_on_chain i :: (bool, 'e) result) = Ok b \<and> (is_on_chain i :: (bool, unit) result) = Ok b) \<or>
   (\<exists>m. (is_on_chain i :: (bool, 'e) result) = Panic m \<and> (is_on_chain i :: (bool, unit) result) = Panic m)"
  by (auto simp: is_on_chain_def storage_type_def Let_def)

lemma validate_proven_transaction_Ok:
  "validate_proven_transaction P T S tx = Ok tx' \<longleftrightarrow> tx' = tx \<and>
     details_consistent P T S (ptx_account_id tx) (ptx_initial_account_hash tx) (ptx_final_account_hash tx)
       (ptx_account_details tx)"
proof -
  let ?on = "is_on_chain (ptx_account_id tx) :: (bool, proven_transaction_error) result"
  consider (on) "?on = Ok True" "(is_on_chain (ptx_account_id tx) :: (bool, unit) result) = Ok True"
    | (off) "?on = Ok False" "(is_on_chain (ptx_account_id tx) :: (bool, unit) result) = Ok False"
    | (panic) m where "?on = Panic m" "(is_on_chain (ptx_account_id tx) :: (bool, unit) result) = Panic m"
    using is_on_chain_cases [where ?'e = proven_transaction_error and i = "ptx_account_id tx"]
    by (auto, case_tac b, auto)
  then show ?thesis
  proof cases
    case on
    show ?thesis
    proof (cases "ptx_account_details tx")
      case (Some d)
      then show ?thesis using on
        by (cases d) (auto simp: validate_proven_transaction_def details_consistent_def Let_def split: bool.split)
    qed (use on in \<open>simp add: validate_proven_transaction_def details_consistent_def Let_def\<close>)
  qed (auto simp: validate_proven_transaction_def details_consistent_def Let_def)
qed

definition proven_transaction_valid ::
    "prims \<Rightarrow> 'v smt_ops \<Rightarrow> 's simple_smt_ops \<Rightarrow> ('v, 's, 'm, 'p, 'x) proven_transaction \<Rightarrow> bool" where
  "proven_transaction_valid P T S tx \<longleftrightarrow>
     details_consistent P T S (ptx_account_id tx) (ptx_initial_account_hash tx) (ptx_final_account_hash tx)
       (ptx_account_details tx) \<and>
     input_notes_new P nullifier_nullifier (ins_notes (ptx_input_notes tx)) = Ok (ptx_input_notes tx) \<and>
     output_notes_new P (outs_notes (ptx_output_notes tx)) = Ok (ptx_output_notes tx) \<and>
     ptx_id tx = proven_transaction_to_id P tx"

lemma build_proven_transaction_Ok:
  "build_proven_transaction P T S b = Ok tx \<Longrightarrow> proven_transaction_valid P T S tx"
  by (auto simp: build_proven_transaction_def res_simps validate_proven_transaction_Ok proven_transaction_valid_def
      proven_transaction_to_id_def input_list.new_Ok_iff output_list.new_Ok_iff)

lemma read_note_list_Ok: "read_note_list P shw rd new bs = Ok (c, bs') \<Longrightarrow> \<exists>xs. new xs = Ok c"
  by (auto simp: read_note_list_def res_simps)

lemma read_proven_transaction_valid:
  assumes "read_proven_transaction P T S A Q K bs = Ok (tx, bs')"
  shows "proven_transaction_valid P T S tx"
proof -
  from assms obtain ins outs bs1 bs2 bs3 bs4 where ins: "read_input_notes P nullifier_nullifier (read_nullifier P) bs1 = Ok (ins, bs2)"
    and outs: "read_output_notes P Q bs3 = Ok (outs, bs4)" and tx: "ptx_input_notes tx = ins" "ptx_output_notes tx = outs"
    "ptx_id tx = proven_transaction_to_id P tx"
    "details_consistent P T S (ptx_account_id tx) (ptx_initial_account_hash tx) (ptx_final_account_hash tx)
       (ptx_account_details tx)"
    by (auto simp: read_proven_transaction_def res_simps validate_proven_transaction_Ok proven_transaction_to_id_def)
  from read_note_list_Ok [OF ins [unfolded read_input_notes_def]] read_note_list_Ok [OF outs [unfolded read_output_notes_def]]
  show ?thesis by (auto simp: proven_transaction_valid_def tx input_list.new_Ok_iff output_list.new_Ok_iff)
qed

section \<open>Serialization\<close>

fun details_same ::
    "'v smt_ops \<Rightarrow> 's simple_smt_ops \<Rightarrow> ('v, 's, 'm) account_details option \<Rightarrow> ('v, 's, 'm) account_details option \<Rightarrow> bool" where
  "details_same T S (Some (Full a)) (Some (Full b)) \<longleftrightarrow> account_same T S a b"
| "details_same T S d d' \<longleftrightarrow> d = d'"

fun details_ok ::
    "prims \<Rightarrow> 'v smt_ops \<Rightarrow> 's simple_smt_ops \<Rightarrow> ('v, 's, 'm) account_details option \<Rightarrow> bool" where
  "details_ok P T S None \<longleftrightarrow> True"
| "details_ok P T S (Some (Full a)) \<longleftrightarrow> account_inv P T S a"
| "details_ok P T S (Some (Delta d)) \<longleftrightarrow> account_delta_valid d \<and> account_delta_canonical P d"

text \<open>
  Full details are read back with the same contents if every slot with a type other than the default holds
  a value, and they are written without a panic if the vault has fewer than \<open>2^32\<close> assets.
\<close>

fun details_readable ::
    "'v smt_ops \<Rightarrow> 's simple_smt_ops \<Rightarrow> ('v, 's, 'm) account_details option \<Rightarrow> bool" where
  "details_readable T S (Some (Full a)) \<longleftrightarrow>
     complex_filled S (acct_storage a) \<and> length (vault_assets T (acct_vault a)) < 2 ^ 32"
| "details_readable T S d \<longleftrightarrow> True"

definition proven_transaction_ok ::
    "prims \<Rightarrow> 'v smt_ops \<Rightarrow> 's simple_smt_ops \<Rightarrow> ('v, 's, 'm, 'p, 'x) proven_transaction \<Rightarrow> bool" where
  "proven_transaction_ok P T S tx \<longleftrightarrow> proven_transaction_valid P T S tx \<and> account_id_ok P (ptx_account_id tx) \<and>
     list_all (word_ok P) [ptx_initial_account_hash tx, ptx_final_account_hash tx, ptx_block_ref tx] \<and>
     pred_option (word_ok P) (ptx_tx_script_root tx) \<and> details_ok P T S (ptx_account_details tx) \<and>
     list_all (\<lambda>n. word_ok P (nullifier_digest n)) (ins_notes (ptx_input_notes tx)) \<and>
     list_all (output_note_ok P) (outs_notes (ptx_output_notes tx))"

locale proven_io = input_io P Q M + account_io_spec P T S A + proven_codec_spec K
  for P :: prims and Q :: "('p, 'b) prog_ops" and M :: merkle_ops and T :: "'v smt_ops" and S :: "'s simple_smt_ops"
    and A :: "'m asm_ops" and K :: "(('v, 's, 'm) account_details, 'x) proven_codec"
begin

lemma read_write_output_notes:
  assumes "output_notes_new P nts = Ok outs" "list_all (\<lambda>n. output_note_ok P n \<and> output_note_readable n) nts"
  shows "\<exists>b. write_output_notes P Q outs = Ok b \<and> (\<forall>bs. read_output_notes P Q (b @ bs) = Ok (outs, bs))"
  unfolding write_output_notes_def read_output_notes_def by (rule outputs.read_write_note_list [OF assms])

lemma read_write_details:
  assumes "details_ok P T S (Some d)" "details_readable T S (Some d)"
  shows "\<exists>b. write_account_details P T S A d = Ok b \<and>
    (\<exists>d'. read_account_details P T S A (b @ bs) = Ok (d', bs) \<and> details_same T S (Some d') (Some d) \<and>
      (\<forall>a. d = Full a \<longrightarrow> (\<exists>a'. d' = Full a' \<and> acct_id a' = acct_id a \<and> account_hash P T S a' = account_hash P T S a)))"
proof (cases d)
  case (Full a)
  with assms obtain b where wr: "write_account P T S A a = Ok b" and inv: "account_inv P T S a" "complex_filled S (acct_storage a)"
    by (auto simp: write_account_def write_vault_def Let_def)
  obtain a' where "read_account P T S A (b @ bs) = Ok (a', bs)" "account_same T S a' a" "account_hash P T S a' = account_hash P T S a"
    by (rule read_write_account [OF inv wr])
  then show ?thesis using Full wr
    by (auto simp: read_account_details_def get_put_u8 account_same_def)
next
  case (Delta e)
  with assms read_write_account_delta [of e] show ?thesis by (auto simp: read_account_details_def get_put_u8)
qed

lemma read_write_option_details:
  assumes "details_ok P T S details" "details_readable T S details"
  shows "\<exists>ob. (case details of None \<Rightarrow> Ok None | Some d \<Rightarrow> map_ok Some (write_account_details P T S A d)) = Ok ob \<and>
    (\<exists>details'. get_option_details K (read_account_details P T S A) (put_option K ob @ bs) = Ok (details', bs) \<and>
      details_same T S details' details \<and>
      (details_consistent P T S i h f details \<longrightarrow> details_consistent P T S i h f details'))"
proof (cases details)
  case None
  then show ?thesis by (simp add: get_option_details_None)
next
  case (Some d)
  with read_write_details [of d bs] assms obtain b d' where b: "write_account_details P T S A d = Ok b"
    "read_account_details P T S A (b @ bs) = Ok (d', bs)" "details_same T S (Some d') (Some d)"
    and full: "\<And>a. d = Full a \<Longrightarrow> \<exists>a'. d' = Full a' \<and> acct_id a' = acct_id a \<and> account_hash P T S a' = account_hash P T S a"
    by auto
  have "details_consistent P T S i h f (Some d) \<longrightarrow> details_consistent P T S i h f (Some d')"
  proof (cases d)
    case (Full a)
    with full show ?thesis by (auto simp: details_consistent_def split: result.splits bool.splits if_splits)
  next
    case (Delta e)
    with b(3) show ?thesis by (cases d') auto
  qed
  with Some b show ?thesis using get_option_details_Some [of "read_account_details P T S A" b bs d' bs] by auto
qed

lemma read_write_option_digest:
  "pred_option (word_ok P) d \<Longrightarrow>
     get_option_digest K (get_digest P) (put_option K (map_option (put_digest P) d) @ bs) = Ok (d, bs)"
  by (cases d) (auto simp: get_option_digest_None get_put_digest intro: get_option_digest_Some)

lemma read_write_proven_transaction:
  assumes "proven_transaction_ok P T S tx" "list_all output_note_readable (outs_notes (ptx_output_notes tx))"
    "details_readable T S (ptx_account_details tx)"
  shows "\<exists>b. write_proven_transaction P T S A Q K tx = Ok b \<and>
    (\<exists>details'. read_proven_transaction P T S A Q K (b @ bs) = Ok (tx\<lparr>ptx_account_details := details'\<rparr>, bs) \<and>
      details_same T S details' (ptx_account_details tx))"
proof -
  have ok: "proven_transaction_valid P T S tx" "account_id_ok P (ptx_account_id tx)" "word_ok P (ptx_initial_account_hash tx)"
    "word_ok P (ptx_final_account_hash tx)" "word_ok P (ptx_block_ref tx)" "pred_option (word_ok P) (ptx_tx_script_root tx)"
    "details_ok P T S (ptx_account_details tx)"
    using assms(1) by (simp_all add: proven_transaction_ok_def)
  obtain ins where ins: "write_input_notes P (\<lambda>n. Ok (write_nullifier P n)) (ptx_input_notes tx) = Ok ins"
    "\<And>bs. read_input_notes P nullifier_nullifier (read_nullifier P) (ins @ bs) = Ok (ptx_input_notes tx, bs)"
    using read_write_nullifiers [of "ins_notes (ptx_input_notes tx)" "ptx_input_notes tx"] ok(1) assms
    by (auto simp: proven_transaction_ok_def proven_transaction_valid_def)
  obtain outs where outs: "write_output_notes P Q (ptx_output_notes tx) = Ok outs"
    "\<And>bs. read_output_notes P Q (outs @ bs) = Ok (ptx_output_notes tx, bs)"
    using read_write_output_notes [of "outs_notes (ptx_output_notes tx)" "ptx_output_notes tx"] ok(1) assms
    by (auto simp: proven_transaction_ok_def proven_transaction_valid_def list_all_iff)
  let ?rest = "ins @ outs @ put_option K (map_option (put_digest P) (ptx_tx_script_root tx)) @ put_digest P (ptx_block_ref tx)
     @ put_proof K (ptx_proof tx) @ bs"
  obtain ob details' where details: "(case ptx_account_details tx of None \<Rightarrow> Ok None
      | Some d \<Rightarrow> map_ok Some (write_account_details P T S A d)) = Ok ob"
    "get_option_details K (read_account_details P T S A) (put_option K ob @ ?rest) = Ok (details', ?rest)"
    "details_same T S details' (ptx_account_details tx)"
    "details_consistent P T S (ptx_account_id tx) (ptx_initial_account_hash tx) (ptx_final_account_hash tx) details'"
    using read_write_option_details [OF ok(7) assms(3), of ?rest "ptx_account_id tx" "ptx_initial_account_hash tx" "ptx_final_account_hash tx"]
      ok(1) unfolding proven_transaction_valid_def by blast
  let ?tx = "\<lparr> ptx_id = transaction_id_new P (ptx_initial_account_hash tx) (ptx_final_account_hash tx)
        (ins_commitment (ptx_input_notes tx)) (outs_commitment (ptx_output_notes tx)),
      ptx_account_id = ptx_account_id tx, ptx_initial_account_hash = ptx_initial_account_hash tx,
      ptx_final_account_hash = ptx_final_account_hash tx, ptx_account_details = details',
      ptx_input_notes = ptx_input_notes tx, ptx_output_notes = ptx_output_notes tx,
      ptx_tx_script_root = ptx_tx_script_root tx, ptx_block_ref = ptx_block_ref tx, ptx_proof = ptx_proof tx \<rparr>"
  have tx: "?tx = tx\<lparr>ptx_account_details := details'\<rparr>"
    using ok(1) by (simp add: proven_transaction_valid_def proven_transaction_to_id_def)
  have "validate_proven_transaction P T S ?tx = Ok ?tx" by (simp add: validate_proven_transaction_Ok details(4))
  then have "\<exists>b. write_proven_transaction P T S A Q K tx = Ok b \<and> read_proven_transaction P T S A Q K (b @ bs) = Ok (?tx, bs)"
    using ok details ins outs
    by (simp add: write_proven_transaction_def read_proven_transaction_def c_account_id.rd_wr get_put_digest get_put_proof
        read_write_option_digest)
  with details(3) show ?thesis unfolding tx by blast
qed

end

fun sample_get_option :: "(u8 list \<Rightarrow> ('d \<times> u8 list, deserialization_error) result)
    \<Rightarrow> u8 list \<Rightarrow> ('d option \<times> u8 list, deserialization_error) result" where
  "sample_get_option rd [] = Err UnexpectedEOF"
| "sample_get_option rd (t # bs) = (if t = 0 then Ok (None, bs) else and_then (rd bs) (\<lambda>(x, bs'). Ok (Some x, bs')))"

definition sample_codec :: "('d, u8) proven_codec" where
  "sample_codec = \<lparr> put_option = (\<lambda>ob. case ob of None \<Rightarrow> [0] | Some b \<Rightarrow> 1 # b),
     get_option_details = sample_get_option, get_option_digest = sample_get_option,
     put_proof = (\<lambda>x. [x]), get_proof = (\<lambda>bs. case bs of [] \<Rightarrow> Err UnexpectedEOF | b # bs' \<Rightarrow> Ok (b, bs')) \<rparr>"

interpretation sample_codec_laws: proven_codec_spec sample_codec
  by unfold_locales (simp_all add: sample_codec_def)

interpretation sample_proven_io: proven_io sample_prims sample_prog sample_merkle sample_smt "sample_ssmt 8" sample_asm sample_codec
  by unfold_locales

section \<open>Properties\<close>

text \<open>
  C7. Building a proven transaction.  The builder succeeds exactly if there are at most 1023 input
  notes with distinct nullifiers, at most 4096 output notes with distinct identifiers, and the
  account details are those the account requires: none off chain, the full state with matching
  identifier and final hash for a new on-chain account, a delta for an existing one.  The
  transaction it returns has the identifier that its account hashes and note commitments determine.
\<close>

theorem build_proven_transaction_correct:
  "(is_ok (build_proven_transaction P T S b) \<longleftrightarrow>
     length (ptb_input_notes b) \<le> 1023 \<and> distinct (map nullifier_digest (ptb_input_notes b)) \<and>
     length (ptb_output_notes b) \<le> 4096 \<and> distinct (map output_note_id (ptb_output_notes b)) \<and>
     details_consistent P T S (ptb_account_id b) (ptb_initial_account_hash b) (ptb_final_account_hash b)
       (ptb_account_details b)) \<and>
   (build_proven_transaction P T S b = Ok tx \<longrightarrow> proven_transaction_valid P T S tx \<and>
     ins_notes (ptx_input_notes tx) = ptb_input_notes b \<and> outs_notes (ptx_output_notes tx) = ptb_output_notes b \<and>
     ptx_account_details tx = ptb_account_details b \<and>
     ptx_id tx = transaction_id_new P (ptb_initial_account_hash b) (ptb_final_account_hash b)
       (build_input_notes_commitment P nullifier_nullifier (ptb_input_notes b))
       (build_output_notes_commitment P (ptb_output_notes b)))"
proof (intro conjI impI)
  show "is_ok (build_proven_transaction P T S b) \<longleftrightarrow>
     length (ptb_input_notes b) \<le> 1023 \<and> distinct (map nullifier_digest (ptb_input_notes b)) \<and>
     length (ptb_output_notes b) \<le> 4096 \<and> distinct (map output_note_id (ptb_output_notes b)) \<and>
     details_consistent P T S (ptb_account_id b) (ptb_initial_account_hash b) (ptb_final_account_hash b)
       (ptb_account_details b)"
    by (auto simp: is_ok_iff build_proven_transaction_def res_simps input_list.new_Ok_iff output_list.new_Ok_iff
        validate_proven_transaction_Ok nullifier_nullifier_def MAX_INPUT_NOTES_PER_TX_def MAX_OUTPUT_NOTES_PER_TX_def)
  assume build: "build_proven_transaction P T S b = Ok tx"
  show "proven_transaction_valid P T S tx" by (rule build_proven_transaction_Ok [OF build])
qed (auto simp: build_proven_transaction_def res_simps input_list.new_Ok_iff output_list.new_Ok_iff
      validate_proven_transaction_Ok)

theorem build_proven_transaction_correct_witness:
  "\<exists>tx. build_proven_transaction sample_prims sample_smt (sample_ssmt 8)
      (add_input_notes (builder_account_details (proven_transaction_builder_new sample_faucet (W 1 0 0 0) (W 2 0 0 0) (W 3 0 0 0) (0::u8))
        (Delta sample_delta)) [Nullifier (W 1 1 1 1)] :: (_, _, digest list, u8 list, u8) proven_transaction_builder) = Ok tx \<and>
     ins_notes (ptx_input_notes tx) = [Nullifier (W 1 1 1 1)]"
proof -
  let ?b = "add_input_notes (builder_account_details (proven_transaction_builder_new sample_faucet (W 1 0 0 0) (W 2 0 0 0) (W 3 0 0 0) (0::u8))
        (Delta sample_delta)) [Nullifier (W 1 1 1 1)] :: (_, _, digest list, u8 list, u8) proven_transaction_builder"
  have "(is_on_chain sample_faucet :: (bool, unit) result) = Ok True"
    by (simp add: is_on_chain_def storage_type_def sample_faucet_def ACCOUNT_STORAGE_MASK_SHIFT_def ACCOUNT_STORAGE_MASK_def
        ON_CHAIN_def Let_def)
  then have "details_consistent sample_prims sample_smt (sample_ssmt 8) (ptb_account_id ?b) (ptb_initial_account_hash ?b)
      (ptb_final_account_hash ?b) (ptb_account_details ?b)"
    by (simp add: details_consistent_def add_input_notes_def builder_account_details_def proven_transaction_builder_new_def)
  then have "is_ok (build_proven_transaction sample_prims sample_smt (sample_ssmt 8) ?b)"
    by (subst build_proven_transaction_correct [THEN conjunct1])
      (simp add: add_input_notes_def builder_account_details_def proven_transaction_builder_new_def)
  then obtain tx where tx: "build_proven_transaction sample_prims sample_smt (sample_ssmt 8) ?b = Ok tx"
    by (auto simp: is_ok_iff)
  from build_proven_transaction_correct [THEN conjunct2, rule_format, OF tx] tx show ?thesis
    by (simp add: add_input_notes_def builder_account_details_def proven_transaction_builder_new_def)
qed

text \<open>
  C24. Proven transactions in transit.  Take a well-formed proven transaction whose public notes have at
  most 255 assets each and whose full account details, if it carries them, have a value in every slot
  with a type other than the default and fewer than \<open>2^32\<close> assets.  It is written without a panic and
  read back with every field unchanged; full account details are read back as an account with the
  same contents.  Whatever bytes are read, a transaction that is accepted has consistent
  account details, distinct notes and the identifier its contents determine.
\<close>

theorem proven_transaction_serialization:
  assumes "proven_io P Q M T S A K"
  shows "(proven_transaction_ok P T S tx \<and>
      (\<forall>n. PublicNote n \<in> set (outs_notes (ptx_output_notes tx)) \<longrightarrow> length (na_assets (nt_assets n)) \<le> 255) \<and>
      (\<forall>a. ptx_account_details tx = Some (Full a) \<longrightarrow>
        complex_filled S (acct_storage a) \<and> length (vault_assets T (acct_vault a)) < 2 ^ 32) \<longrightarrow>
      (\<exists>b details'. write_proven_transaction P T S A Q K tx = Ok b \<and>
        read_proven_transaction P T S A Q K (b @ rest) = Ok (tx\<lparr>ptx_account_details := details'\<rparr>, rest) \<and>
        details_same T S details' (ptx_account_details tx))) \<and>
    (read_proven_transaction P T S A Q K bs = Ok (tx', bs') \<longrightarrow> proven_transaction_valid P T S tx')"
proof (intro conjI impI)
  assume tx: "proven_transaction_ok P T S tx \<and>
      (\<forall>n. PublicNote n \<in> set (outs_notes (ptx_output_notes tx)) \<longrightarrow> length (na_assets (nt_assets n)) \<le> 255) \<and>
      (\<forall>a. ptx_account_details tx = Some (Full a) \<longrightarrow>
        complex_filled S (acct_storage a) \<and> length (vault_assets T (acct_vault a)) < 2 ^ 32)"
  have "output_note_readable n" if "n \<in> set (outs_notes (ptx_output_notes tx))" for n using tx that by (cases n) auto
  then have "list_all output_note_readable (outs_notes (ptx_output_notes tx))" by (simp add: list_all_iff)
  moreover have "details_readable T S (ptx_account_details tx)"
    using tx by (cases "(T, S, ptx_account_details tx)" rule: details_readable.cases) auto
  ultimately show "\<exists>b details'. write_proven_transaction P T S A Q K tx = Ok b \<and>
      read_proven_transaction P T S A Q K (b @ rest) = Ok (tx\<lparr>ptx_account_details := details'\<rparr>, rest) \<and>
      details_same T S details' (ptx_account_details tx)"
    using proven_io.read_write_proven_transaction [OF assms] tx by blast
qed (rule read_proven_transaction_valid)

theorem proven_transaction_serialization_witness:
  "\<exists>tx b. proven_transaction_ok sample_prims sample_smt (sample_ssmt 8)
      (tx :: (_, _, digest list, u8 list, u8) proven_transaction) \<and>
     write_proven_transaction sample_prims sample_smt (sample_ssmt 8) sample_asm sample_prog sample_codec tx = Ok b \<and>
     read_proven_transaction sample_prims sample_smt (sample_ssmt 8) sample_asm sample_prog sample_codec (b @ []) = Ok (tx, [])"
proof -
  let ?tx = "\<lparr> ptx_id = transaction_id_new sample_prims (W 1 0 0 0) (W 2 0 0 0) EMPTY_WORD EMPTY_WORD,
    ptx_account_id = sample_faucet, ptx_initial_account_hash = W 1 0 0 0, ptx_final_account_hash = W 2 0 0 0,
    ptx_account_details = Some (Delta sample_delta), ptx_input_notes = \<lparr> ins_notes = [], ins_commitment = EMPTY_WORD \<rparr>,
    ptx_output_notes = \<lparr> outs_notes = [], outs_commitment = EMPTY_WORD \<rparr>, ptx_tx_script_root = Some (W 3 0 0 0),
    ptx_block_ref = W 4 0 0 0, ptx_proof = 9 \<rparr> :: (_, _, digest list, u8 list, u8) proven_transaction"
  have "(is_on_chain sample_faucet :: (bool, unit) result) = Ok True"
    by (simp add: is_on_chain_def storage_type_def sample_faucet_def ACCOUNT_STORAGE_MASK_SHIFT_def ACCOUNT_STORAGE_MASK_def
        ON_CHAIN_def Let_def)
  moreover have "account_id_ok sample_prims sample_faucet"
    using sample_assets_ok(1) by (simp add: sample_coin_def fungible_ok_def)
  ultimately have ok: "proven_transaction_ok sample_prims sample_smt (sample_ssmt 8) ?tx"
    by (simp add: proven_transaction_ok_def proven_transaction_valid_def details_consistent_def sample_felt_ok
        input_list.new_Ok_iff output_list.new_Ok_iff proven_transaction_to_id_def sample_delta_valid
        build_input_notes_commitment_def build_output_notes_commitment_def)
  obtain b details where b: "write_proven_transaction sample_prims sample_smt (sample_ssmt 8) sample_asm sample_prog sample_codec ?tx = Ok b"
    "read_proven_transaction sample_prims sample_smt (sample_ssmt 8) sample_asm sample_prog sample_codec (b @ [])
      = Ok (?tx\<lparr>ptx_account_details := details\<rparr>, [])" "details_same sample_smt (sample_ssmt 8) details (ptx_account_details ?tx)"
    using proven_transaction_serialization [OF sample_proven_io.proven_io_axioms, THEN conjunct1, rule_format, of ?tx "[]"] ok by auto
  from b(3) have "details = Some (Delta sample_delta)" by simp
  with ok b show ?thesis by (intro exI [of _ ?tx] exI [of _ b]) simp
qed

end
