(* ===== verification/Transaction_Args.thy ===== *)
theory Transaction_Args
  imports Transaction_Outputs
begin

text \<open>
  Transaction arguments and scripts (\<open>objects/src/transaction/tx_args.rs\<close>) and the stages of a
  transaction: prepared (\<open>prepared_tx.rs\<close>), executed (\<open>executed_tx.rs\<close>) and its witness
  (\<open>tx_witness.rs\<close>).  The advice map of the virtual machine is the record \<open>D\<close> of operations on a
  type \<open>'d\<close>; programs and advice inputs are type variables.
\<close>

section \<open>Advice maps\<close>

record 'd advice_map_ops =
  am_default :: 'd
  am_insert :: "'d \<Rightarrow> digest \<Rightarrow> felt list \<Rightarrow> 'd"
  am_get :: "'d \<Rightarrow> digest \<Rightarrow> felt list option"
  am_entries :: "'d \<Rightarrow> (digest \<times> felt list) list"

locale advice_map_spec =
  fixes D :: "'d advice_map_ops"
  assumes am_get_default: "am_get D (am_default D) k = None"
    and am_get_insert: "am_get D (am_insert D m k v) = (am_get D m)(k \<mapsto> v)"
    and am_entries_get: "map_of (am_entries D m) = am_get D m"
    and am_entries_distinct: "distinct (map fst (am_entries D m))"

definition am_extend :: "'d advice_map_ops \<Rightarrow> 'd \<Rightarrow> (digest \<times> felt list) list \<Rightarrow> 'd" where
  "am_extend D m es = fold (\<lambda>(k, v) m. am_insert D m k v) es m"

context advice_map_spec
begin

lemma am_get_extend:
  assumes "distinct (map fst es)"
  shows "am_get D (am_extend D m es) = am_get D m ++ map_of es"
  using assms
proof (induction es arbitrary: m)
  case (Cons e es)
  obtain k v where e: "e = (k, v)" by fastforce
  have "map_of es k = None" using Cons.prems by (auto simp: e map_of_eq_None_iff)
  then show ?case using Cons by (auto simp: e am_extend_def am_get_insert map_add_def fun_eq_iff split: option.splits)
qed (simp add: am_extend_def)

end

section \<open>Transaction scripts and arguments\<close>

record 'p transaction_script =
  txs_code :: 'p
  txs_hash :: digest
  txs_inputs :: "(digest \<times> felt list) list"

definition transaction_script_new ::
    "prims \<Rightarrow> ('p, 'b) prog_ops \<Rightarrow> 'p \<Rightarrow> (word4 \<times> felt list) list
      \<Rightarrow> ('p transaction_script \<times> 'b, transaction_script_error) result" where
  "transaction_script_new P Q code inputs =
     and_then (map_err TxScriptCompilationError (compile_in_context Q code)) (\<lambda>blk.
       Ok (\<lparr> txs_code = code, txs_hash = block_hash Q blk, txs_inputs = btree_collect (digest_le P) inputs \<rparr>, blk))"

definition transaction_script_from_parts ::
    "prims \<Rightarrow> 'p \<Rightarrow> digest \<Rightarrow> (word4 \<times> felt list) list \<Rightarrow> ('p transaction_script, transaction_script_error) result" where
  "transaction_script_from_parts P code h inputs =
     Ok \<lparr> txs_code = code, txs_hash = h, txs_inputs = btree_collect (digest_le P) inputs \<rparr>"

record ('p, 'd) transaction_args =
  ta_tx_script :: "'p transaction_script option"
  ta_note_args :: "(note_id \<times> word4) list"
  ta_advice_map :: 'd

definition transaction_args_new ::
    "'d advice_map_ops \<Rightarrow> 'p transaction_script option \<Rightarrow> (note_id \<times> word4) list option \<Rightarrow> 'd \<Rightarrow> ('p, 'd) transaction_args" where
  "transaction_args_new D script nargs adv =
    (let adv' = (case script of Some s \<Rightarrow> am_extend D adv (txs_inputs s) | None \<Rightarrow> adv) in
     \<lparr> ta_tx_script = script, ta_note_args = (case nargs of Some a \<Rightarrow> a | None \<Rightarrow> []), ta_advice_map = adv' \<rparr>)"

definition with_tx_script :: "'d advice_map_ops \<Rightarrow> 'p transaction_script \<Rightarrow> ('p, 'd) transaction_args" where
  "with_tx_script D s = transaction_args_new D (Some s) (Some []) (am_default D)"

definition with_note_args :: "'d advice_map_ops \<Rightarrow> (note_id \<times> word4) list \<Rightarrow> ('p, 'd) transaction_args" where
  "with_note_args D nargs = transaction_args_new D None (Some nargs) (am_default D)"

definition add_expected_output_note ::
    "prims \<Rightarrow> ('p, 'b) prog_ops \<Rightarrow> 'd advice_map_ops \<Rightarrow> ('p, 'd) transaction_args \<Rightarrow> 'p miden_note \<Rightarrow> ('p, 'd) transaction_args" where
  "add_expected_output_note P Q D args n =
    (let r = nt_recipient n;
         script_encoded = note_script_to_felts P Q (rcp_script r);
         inputs_key = commitment_to_key P (ni_hash (rcp_inputs r));
         m1 = am_insert D (ta_advice_map args) (rcp_digest r) (recipient_to_elements r);
         m2 = am_insert D m1 inputs_key (ni_values (rcp_inputs r));
         m3 = am_insert D m2 (script_hash (rcp_script r)) script_encoded in
     args\<lparr>ta_advice_map := m3\<rparr>)"

definition extend_expected_output_notes ::
    "prims \<Rightarrow> ('p, 'b) prog_ops \<Rightarrow> 'd advice_map_ops \<Rightarrow> ('p, 'd) transaction_args \<Rightarrow> 'p miden_note list \<Rightarrow> ('p, 'd) transaction_args" where
  "extend_expected_output_notes P Q D args nts = foldl (add_expected_output_note P Q D) args nts"

definition get_note_args :: "('p, 'd) transaction_args \<Rightarrow> note_id \<Rightarrow> word4 option" where
  "get_note_args args i = map_of (ta_note_args args) i"

section \<open>Prepared, executed and witnessed transactions\<close>

record ('v, 's, 'm, 'g, 'p, 'd, 'c) prepared_transaction =
  prep_program :: 'c
  prep_tx_inputs :: "('v, 's, 'm, 'g, 'p) transaction_inputs"
  prep_tx_args :: "('p, 'd) transaction_args"

definition prepared_transaction_new ::
    "'c \<Rightarrow> ('v, 's, 'm, 'g, 'p) transaction_inputs \<Rightarrow> ('p, 'd) transaction_args
      \<Rightarrow> ('v, 's, 'm, 'g, 'p, 'd, 'c) prepared_transaction" where
  "prepared_transaction_new c ti args = \<lparr> prep_program = c, prep_tx_inputs = ti, prep_tx_args = args \<rparr>"

definition prepared_into_parts ::
    "('v, 's, 'm, 'g, 'p, 'd, 'c) prepared_transaction
      \<Rightarrow> 'c \<times> ('v, 's, 'm, 'g, 'p) transaction_inputs \<times> ('p, 'd) transaction_args" where
  "prepared_into_parts tx = (prep_program tx, prep_tx_inputs tx, prep_tx_args tx)"

record ('v, 's, 'm, 'g, 'p, 'd, 'c, 'a) transaction_witness =
  tw_program :: 'c
  tw_tx_inputs :: "('v, 's, 'm, 'g, 'p) transaction_inputs"
  tw_tx_args :: "('p, 'd) transaction_args"
  tw_advice_witness :: 'a

record ('v, 's, 'm, 'g, 'p, 'd, 'c, 'a) executed_transaction =
  ex_program :: 'c
  ex_tx_inputs :: "('v, 's, 'm, 'g, 'p) transaction_inputs"
  ex_tx_outputs :: "'p transaction_outputs"
  ex_account_delta :: account_delta
  ex_tx_args :: "('p, 'd) transaction_args"
  ex_advice_witness :: 'a

definition executed_transaction_new ::
    "'c \<Rightarrow> ('v, 's, 'm, 'g, 'p) transaction_inputs \<Rightarrow> 'p transaction_outputs \<Rightarrow> account_delta
      \<Rightarrow> ('p, 'd) transaction_args \<Rightarrow> 'a \<Rightarrow> (('v, 's, 'm, 'g, 'p, 'd, 'c, 'a) executed_transaction, 'e) result" where
  "executed_transaction_new c ti outs delta args adv =
    (if acct_id (ti_account ti) \<noteq> stub_id (to_account outs) then Panic ''assertion failed: account ids''
     else Ok \<lparr> ex_program = c, ex_tx_inputs = ti, ex_tx_outputs = outs, ex_account_delta = delta,
       ex_tx_args = args, ex_advice_witness = adv \<rparr>)"

definition executed_transaction_id ::
    "prims \<Rightarrow> 'v smt_ops \<Rightarrow> 's simple_smt_ops \<Rightarrow> ('v, 's, 'm, 'g, 'p, 'd, 'c, 'a) executed_transaction \<Rightarrow> transaction_id" where
  "executed_transaction_id P T S tx =
     transaction_id_new P (proof_init_hash P T S (ti_account (ex_tx_inputs tx)))
       (account_stub_hash P (to_account (ex_tx_outputs tx)))
       (ins_commitment (ti_input_notes (ex_tx_inputs tx))) (outs_commitment (to_output_notes (ex_tx_outputs tx)))"

definition executed_into_parts ::
    "('v, 's, 'm, 'g, 'p, 'd, 'c, 'a) executed_transaction
      \<Rightarrow> account_delta \<times> 'p transaction_outputs \<times> ('v, 's, 'm, 'g, 'p, 'd, 'c, 'a) transaction_witness" where
  "executed_into_parts tx = (ex_account_delta tx, ex_tx_outputs tx,
     \<lparr> tw_program = ex_program tx, tw_tx_inputs = ex_tx_inputs tx, tw_tx_args = ex_tx_args tx,
       tw_advice_witness = ex_advice_witness tx \<rparr>)"

end
