(* ===== verification/Memory_Layout.thy ===== *)
theory Memory_Layout
  imports Transaction_Outputs
begin

text \<open>
  The memory map of the transaction kernel (\<open>miden-lib/src/transaction/memory.rs\<close>): reserved
  storage slots, addresses and offsets, in the order of the source.
\<close>

section \<open>Constants\<close>

definition FAUCET_STORAGE_DATA_SLOT :: u8 where
  "FAUCET_STORAGE_DATA_SLOT = 254"

definition SLOT_TYPES_COMMITMENT_STORAGE_SLOT :: u8 where
  "SLOT_TYPES_COMMITMENT_STORAGE_SLOT = 255"

definition TX_VAULT_ROOT_PTR :: u32 where
  "TX_VAULT_ROOT_PTR = 0"

definition CURRENT_CONSUMED_NOTE_PTR :: u32 where
  "CURRENT_CONSUMED_NOTE_PTR = 1"

definition NUM_CREATED_NOTES_PTR :: u32 where
  "NUM_CREATED_NOTES_PTR = 2"

definition INPUT_VAULT_ROOT_PTR :: u32 where
  "INPUT_VAULT_ROOT_PTR = 3"

definition OUTPUT_VAULT_ROOT_PTR :: u32 where
  "OUTPUT_VAULT_ROOT_PTR = 4"

definition GLOBAL_INPUTS_SECTION_OFFSET :: u32 where
  "GLOBAL_INPUTS_SECTION_OFFSET = 100"

definition BLK_HASH_PTR :: u32 where
  "BLK_HASH_PTR = 100"

definition ACCT_ID_PTR :: u32 where
  "ACCT_ID_PTR = 101"

definition INIT_ACCT_HASH_PTR :: u32 where
  "INIT_ACCT_HASH_PTR = 102"

definition NULLIFIER_COM_PTR :: u32 where
  "NULLIFIER_COM_PTR = 103"

definition INIT_NONCE_PTR :: u32 where
  "INIT_NONCE_PTR = 104"

definition TX_SCRIPT_ROOT_PTR :: u32 where
  "TX_SCRIPT_ROOT_PTR = 105"

definition BLOCK_DATA_SECTION_OFFSET :: u32 where
  "BLOCK_DATA_SECTION_OFFSET = 200"

definition PREV_BLOCK_HASH_PTR :: u32 where
  "PREV_BLOCK_HASH_PTR = 200"

definition CHAIN_ROOT_PTR :: u32 where
  "CHAIN_ROOT_PTR = 201"

definition ACCT_DB_ROOT_PTR :: u32 where
  "ACCT_DB_ROOT_PTR = 202"

definition NULLIFIER_DB_ROOT_PTR :: u32 where
  "NULLIFIER_DB_ROOT_PTR = 203"

definition BATCH_ROOT_PTR :: u32 where
  "BATCH_ROOT_PTR = 204"

definition PROOF_HASH_PTR :: u32 where
  "PROOF_HASH_PTR = 205"

definition BLOCK_METADATA_PTR :: u32 where
  "BLOCK_METADATA_PTR = 206"

definition BLOCK_NUMBER_IDX :: nat where
  "BLOCK_NUMBER_IDX = 0"

definition PROTOCOL_VERSION_IDX :: nat where
  "PROTOCOL_VERSION_IDX = 1"

definition TIMESTAMP_IDX :: nat where
  "TIMESTAMP_IDX = 2"

definition NOTE_ROOT_PTR :: u32 where
  "NOTE_ROOT_PTR = 207"

definition CHAIN_MMR_PTR :: u32 where
  "CHAIN_MMR_PTR = 300"

definition CHAIN_MMR_NUM_LEAVES_PTR :: u32 where
  "CHAIN_MMR_NUM_LEAVES_PTR = 300"

definition CHAIN_MMR_PEAKS_PTR :: u32 where
  "CHAIN_MMR_PEAKS_PTR = 301"

definition ACCT_DATA_MEM_SIZE :: nat where
  "ACCT_DATA_MEM_SIZE = 4"

definition ACCT_DATA_SECTION_OFFSET :: u32 where
  "ACCT_DATA_SECTION_OFFSET = 400"

definition ACCT_ID_AND_NONCE_OFFSET :: u32 where
  "ACCT_ID_AND_NONCE_OFFSET = 0"

definition ACCT_ID_IDX :: nat where
  "ACCT_ID_IDX = 0"

definition ACCT_NONCE_IDX :: nat where
  "ACCT_NONCE_IDX = 3"

definition ACCT_ID_AND_NONCE_PTR :: u32 where
  "ACCT_ID_AND_NONCE_PTR = ACCT_DATA_SECTION_OFFSET + ACCT_ID_AND_NONCE_OFFSET"

definition ACCT_VAULT_ROOT_OFFSET :: u32 where
  "ACCT_VAULT_ROOT_OFFSET = 1"

definition ACCT_VAULT_ROOT_PTR :: u32 where
  "ACCT_VAULT_ROOT_PTR = ACCT_DATA_SECTION_OFFSET + ACCT_VAULT_ROOT_OFFSET"

definition ACCT_STORAGE_ROOT_OFFSET :: u32 where
  "ACCT_STORAGE_ROOT_OFFSET = 2"

definition ACCT_STORAGE_ROOT_PTR :: u32 where
  "ACCT_STORAGE_ROOT_PTR = ACCT_DATA_SECTION_OFFSET + ACCT_STORAGE_ROOT_OFFSET"

definition ACCT_CODE_ROOT_OFFSET :: u32 where
  "ACCT_CODE_ROOT_OFFSET = 3"

definition ACCT_CODE_ROOT_PTR :: u32 where
  "ACCT_CODE_ROOT_PTR = ACCT_DATA_SECTION_OFFSET + ACCT_CODE_ROOT_OFFSET"

definition ACCT_NEW_CODE_ROOT_OFFSET :: u32 where
  "ACCT_NEW_CODE_ROOT_OFFSET = 4"

definition ACCT_NEW_CODE_ROOT_PTR :: u32 where
  "ACCT_NEW_CODE_ROOT_PTR = ACCT_DATA_SECTION_OFFSET + ACCT_NEW_CODE_ROOT_OFFSET"

definition ACCT_STORAGE_SLOT_TYPE_DATA_OFFSET :: u32 where
  "ACCT_STORAGE_SLOT_TYPE_DATA_OFFSET = 405"

definition NOTE_MEM_SIZE :: u32 where
  "NOTE_MEM_SIZE = 512"

definition CONSUMED_NOTE_SECTION_OFFSET :: u32 where
  "CONSUMED_NOTE_SECTION_OFFSET = 1048576"

definition CONSUMED_NOTE_DATA_SECTION_OFFSET :: u32 where
  "CONSUMED_NOTE_DATA_SECTION_OFFSET = 1064960"

definition CONSUMED_NOTE_NUM_PTR :: u32 where
  "CONSUMED_NOTE_NUM_PTR = CONSUMED_NOTE_SECTION_OFFSET"

definition CONSUMED_NOTE_ID_OFFSET :: u32 where
  "CONSUMED_NOTE_ID_OFFSET = 0"

definition CONSUMED_NOTE_SERIAL_NUM_OFFSET :: u32 where
  "CONSUMED_NOTE_SERIAL_NUM_OFFSET = 1"

definition CONSUMED_NOTE_SCRIPT_ROOT_OFFSET :: u32 where
  "CONSUMED_NOTE_SCRIPT_ROOT_OFFSET = 2"

definition CONSUMED_NOTE_INPUTS_HASH_OFFSET :: u32 where
  "CONSUMED_NOTE_INPUTS_HASH_OFFSET = 3"

definition CONSUMED_NOTE_ASSETS_HASH_OFFSET :: u32 where
  "CONSUMED_NOTE_ASSETS_HASH_OFFSET = 4"

definition CONSUMED_NOTE_METADATA_OFFSET :: u32 where
  "CONSUMED_NOTE_METADATA_OFFSET = 5"

definition CONSUMED_NOTE_ARGS_OFFSET :: u32 where
  "CONSUMED_NOTE_ARGS_OFFSET = 6"

definition CONSUMED_NOTE_NUM_INPUTS_OFFSET :: u32 where
  "CONSUMED_NOTE_NUM_INPUTS_OFFSET = 7"

definition CONSUMED_NOTE_NUM_ASSETS_OFFSET :: u32 where
  "CONSUMED_NOTE_NUM_ASSETS_OFFSET = 8"

definition CONSUMED_NOTE_ASSETS_OFFSET :: u32 where
  "CONSUMED_NOTE_ASSETS_OFFSET = 9"

definition CREATED_NOTE_SECTION_OFFSET :: u32 where
  "CREATED_NOTE_SECTION_OFFSET = 4194304"

definition CREATED_NOTE_CORE_DATA_SIZE :: nat where
  "CREATED_NOTE_CORE_DATA_SIZE = 4"

definition CREATED_NOTE_ID_OFFSET :: u32 where
  "CREATED_NOTE_ID_OFFSET = 0"

definition CREATED_NOTE_METADATA_OFFSET :: u32 where
  "CREATED_NOTE_METADATA_OFFSET = 1"

definition CREATED_NOTE_RECIPIENT_OFFSET :: u32 where
  "CREATED_NOTE_RECIPIENT_OFFSET = 2"

definition CREATED_NOTE_ASSET_HASH_OFFSET :: u32 where
  "CREATED_NOTE_ASSET_HASH_OFFSET = 3"

definition CREATED_NOTE_NUM_ASSETS_OFFSET :: u32 where
  "CREATED_NOTE_NUM_ASSETS_OFFSET = 4"

definition CREATED_NOTE_ASSETS_OFFSET :: u32 where
  "CREATED_NOTE_ASSETS_OFFSET = 5"

end
