(* ===== verification/Kernel.thy ===== *)
theory Kernel
  imports Transaction_Args Memory_Layout "HOL-Library.AList"
begin

text \<open>
  The Rust side of the transaction kernel (\<open>miden-lib/src/transaction\<close>): events, kernel errors, the
  operand stack a transaction starts and ends with, the parsing of its outputs, and the advice inputs
  handed to the virtual machine.

  The stack and advice types of the virtual machine and the nodes of Merkle trees are third-party
  code: the records \<open>X\<close>, \<open>V\<close> and \<open>N\<close>.
\<close>

section \<open>Events\<close>

datatype transaction_event =
    AccountVaultAddAsset
  | AccountVaultRemoveAsset
  | AccountStorageSetItem
  | AccountIncrementNonce
  | AccountPushProcedureIndex
  | NoteCreated

fun event_id :: "transaction_event \<Rightarrow> u32" where
  "event_id AccountVaultAddAsset = 0x20000"
| "event_id AccountVaultRemoveAsset = 0x20001"
| "event_id AccountStorageSetItem = 0x20002"
| "event_id AccountIncrementNonce = 0x20003"
| "event_id AccountPushProcedureIndex = 0x20004"
| "event_id NoteCreated = 0x20005"

datatype event_parsing_error = NotTransactionEvent u32 | InvalidTransactionEvent u32

definition EVENT_ID_PREFIX :: u16 where
  "EVENT_ID_PREFIX = 2"

definition event_try_from :: "u32 \<Rightarrow> (transaction_event, event_parsing_error) result" where
  "event_try_from value =
    (if drop_bit 16 value \<noteq> ucast EVENT_ID_PREFIX then Err (NotTransactionEvent value)
     else if value = 0x20000 then Ok AccountVaultAddAsset
     else if value = 0x20001 then Ok AccountVaultRemoveAsset
     else if value = 0x20002 then Ok AccountStorageSetItem
     else if value = 0x20003 then Ok AccountIncrementNonce
     else if value = 0x20004 then Ok AccountPushProcedureIndex
     else if value = 0x20005 then Ok NoteCreated
     else Err (InvalidTransactionEvent value))"

datatype transaction_kernel_error =
    InvalidStorageSlotIndex u64
  | MalformedAccountId account_error
  | MalformedAsset asset_error
  | MalformedAssetOnAccountVaultUpdate asset_error
  | MalformedNoteInputs note_error
  | MalformedNoteMetadata note_error
  | MalformedNoteScript "felt list"
  | MalformedNoteType note_error
  | MalformedRecipientData "felt list"
  | MalformedTag felt
  | MissingNoteDetails note_metadata note_assets digest
  | MissingStorageSlotValue u8 string
  | UnknownAccountProcedure digest

section \<open>Stacks\<close>

record ('si, 'so) stack_ops =
  stack_inputs_new :: "felt list \<Rightarrow> ('si, string) result"
  stack_outputs_new :: "felt list \<Rightarrow> u64 list \<Rightarrow> ('so, string) result"
  get_stack_word :: "'so \<Rightarrow> nat \<Rightarrow> word4 option"
  group_slice_elements :: "felt list \<Rightarrow> (word4 list, unit) result"

locale stack_spec =
  fixes X :: "('si, 'so) stack_ops"
  assumes stack_inputs_ok: "length xs \<le> 16 \<Longrightarrow> \<exists>s. stack_inputs_new X xs = Ok s"
    and stack_outputs_ok: "length xs \<le> 16 \<Longrightarrow> \<exists>s. stack_outputs_new X xs [] = Ok s \<and>
      (\<forall>i. i + 4 \<le> length xs \<longrightarrow> map_option elements (get_stack_word X s i) = Some (rev (take 4 (drop i xs))))"
    and group_words: "group_slice_elements X (concat (map elements ws)) = Ok ws"

text \<open>
  The views of the stacks: the operand stack a program starts with and the one it ends with, from the top.
  The last value given to the input stack becomes the top; the output stack is given from the top and is
  filled up with zeros to 16 elements, and a word is read with its last element on top.
\<close>

locale stack_view = stack_spec +
  fixes in_view :: "'a \<Rightarrow> felt list" and out_view :: "'b \<Rightarrow> felt list"
  assumes inputs_view: "stack_inputs_new X xs = Ok si \<Longrightarrow> in_view si = rev xs"
    and outputs_view: "length xs \<le> 16 \<Longrightarrow> stack_outputs_new X xs [] = Ok so \<Longrightarrow> out_view so = xs @ replicate (16 - length xs) 0"
    and outputs_word: "i + 4 \<le> length (out_view so) \<Longrightarrow>
      map_option elements (get_stack_word X so i) = Some (rev (take 4 (drop i (out_view so))))"
    and outputs_equal: "out_view so = out_view so' \<Longrightarrow> length (out_view so) = 16 \<Longrightarrow> so = so'"

definition build_input_stack ::
    "('si, 'so) stack_ops \<Rightarrow> account_id \<Rightarrow> digest \<Rightarrow> digest \<Rightarrow> digest \<Rightarrow> ('si, 'e) result" where
  "build_input_stack X i init_hash notes_hash blk_hash =
     expect ''Invalid stack input'' (stack_inputs_new X
       (elements notes_hash @ elements init_hash @ [id_felt i] @ elements blk_hash))"

definition build_output_stack :: "('si, 'so) stack_ops \<Rightarrow> digest \<Rightarrow> digest \<Rightarrow> digest option \<Rightarrow> ('so, 'e) result" where
  "build_output_stack X final_hash notes_hash script_root =
     expect ''Invalid stack output'' (stack_outputs_new X
       (rev (elements final_hash @ elements notes_hash @ elements (case script_root of Some r \<Rightarrow> r | None \<Rightarrow> EMPTY_WORD))) [])"

definition parse_output_stack :: "('si, 'so) stack_ops \<Rightarrow> 'so \<Rightarrow> (digest \<times> digest \<times> digest, 'e) result" where
  "parse_output_stack X stack =
     and_then (expect_some ''first word missing'' (get_stack_word X stack 0)) (\<lambda>script_root.
     and_then (expect_some ''second word missing'' (get_stack_word X stack 4)) (\<lambda>notes_hash.
     and_then (expect_some ''third word missing'' (get_stack_word X stack 8)) (\<lambda>final_hash.
       Ok (final_hash, notes_hash, script_root))))"

section \<open>Parsing the outputs\<close>

definition parse_final_account_stub :: "word4 list \<Rightarrow> (account_stub, account_error) result" where
  "parse_final_account_stub ws =
    (if length ws \<noteq> ACCT_DATA_MEM_SIZE then Err (StubDataIncorrectLength (length ws) ACCT_DATA_MEM_SIZE)
     else
       let id_and_nonce = elements (ws ! unat ACCT_ID_AND_NONCE_OFFSET) in
       and_then (try_from_felt (id_and_nonce ! ACCT_ID_IDX)) (\<lambda>i.
         Ok (account_stub_new i (id_and_nonce ! ACCT_NONCE_IDX) (ws ! unat ACCT_VAULT_ROOT_OFFSET)
           (ws ! unat ACCT_STORAGE_ROOT_OFFSET) (ws ! unat ACCT_CODE_ROOT_OFFSET))))"

definition from_transaction_parts ::
    "prims \<Rightarrow> ('si, 'so) stack_ops \<Rightarrow> 'd advice_map_ops \<Rightarrow> 'so \<Rightarrow> 'd \<Rightarrow> 'p output_note list
      \<Rightarrow> ('p transaction_outputs, transaction_output_error) result" where
  "from_transaction_parts P X D stack adv_map nts =
     and_then (parse_output_stack X stack) (\<lambda>(final_hash, notes_hash, _).
     and_then (ok_or FinalAccountDataNotFound (am_get D adv_map final_hash)) (\<lambda>data.
     and_then (expect ''slice length must be divisible by the group size'' (group_slice_elements X data)) (\<lambda>words.
     and_then (map_err FinalAccountStubDataInvalid (parse_final_account_stub words)) (\<lambda>account.
     and_then (output_notes_new P nts) (\<lambda>outs.
       if notes_hash \<noteq> outs_commitment outs
       then Err (OutputNotesCommitmentInconsistent notes_hash (outs_commitment outs))
       else Ok \<lparr> to_account = account, to_output_notes = outs \<rparr>)))))"

section \<open>Advice inputs\<close>

record ('a, 'n) advice_ops =
  adv_default :: 'a
  adv_extend_stack :: "'a \<Rightarrow> felt list \<Rightarrow> 'a"
  adv_extend_map :: "'a \<Rightarrow> (digest \<times> felt list) list \<Rightarrow> 'a"
  adv_extend_store :: "'a \<Rightarrow> 'n list \<Rightarrow> 'a"
  adv_stack :: "'a \<Rightarrow> felt list"
  adv_lookup :: "'a \<Rightarrow> digest \<Rightarrow> felt list option"

locale advice_inputs_spec =
  fixes V :: "('a, 'n) advice_ops"
  assumes default_stack: "adv_stack V (adv_default V) = []"
    and extend_stack_stack: "adv_stack V (adv_extend_stack V a xs) = adv_stack V a @ xs"
    and extend_map_stack: "adv_stack V (adv_extend_map V a es) = adv_stack V a"
    and extend_store_stack: "adv_stack V (adv_extend_store V a ns) = adv_stack V a"
    and extend_stack_lookup: "adv_lookup V (adv_extend_stack V a xs) = adv_lookup V a"
    and extend_store_lookup: "adv_lookup V (adv_extend_store V a ns) = adv_lookup V a"
    and extend_map_lookup: "adv_lookup V (adv_extend_map V a es) = adv_lookup V a ++ map_of (rev es)"

record ('v, 's, 'g, 'n) node_ops =
  smt_inner_nodes :: "'v \<Rightarrow> 'n list"
  smt_leaf_entries :: "'v \<Rightarrow> (digest \<times> felt list) list"
  ssmt_inner_nodes :: "'s \<Rightarrow> 'n list"
  mmr_inner_nodes :: "'g \<Rightarrow> (nat \<times> digest) list \<Rightarrow> 'n list"
  mmr_num_leaves :: "'g \<Rightarrow> nat"
  mmr_flatten_and_pad_peaks :: "'g \<Rightarrow> felt list"
  path_inner_nodes :: "merkle_path \<Rightarrow> u64 \<Rightarrow> digest \<Rightarrow> ('n list, merkle_error) result"

definition header_elements :: "prims \<Rightarrow> block_header \<Rightarrow> felt list" where
  "header_elements P h = elements (bh_prev_hash h) @ elements (bh_chain_root h) @ elements (bh_account_root h)
     @ elements (bh_nullifier_root h) @ elements (bh_batch_root h) @ elements (bh_proof_hash h)
     @ [felt_new P (ucast (bh_block_num h)), bh_version h, bh_timestamp h, 0] @ [0, 0, 0, 0] @ elements (bh_note_root h)"

definition account_elements :: "'v smt_ops \<Rightarrow> 's simple_smt_ops \<Rightarrow> ('v, 's, 'm) account \<Rightarrow> felt list" where
  "account_elements T S a = [id_felt (acct_id a), 0, 0, acct_nonce a] @ elements (vault_commitment T (acct_vault a))
     @ elements (storage_root S (acct_storage a)) @ elements (code_root S (acct_code a))"

definition build_advice_stack ::
    "prims \<Rightarrow> 'v smt_ops \<Rightarrow> 's simple_smt_ops \<Rightarrow> ('a, 'n) advice_ops \<Rightarrow> ('v, 's, 'm, 'g, 'p) transaction_inputs
      \<Rightarrow> 'p transaction_script option \<Rightarrow> 'a \<Rightarrow> 'a" where
  "build_advice_stack P T S V ti script inputs =
    (let a1 = adv_extend_stack V inputs (header_elements P (ti_block_header ti));
         a2 = adv_extend_stack V a1 (account_elements T S (ti_account ti));
         a3 = adv_extend_stack V a2 [felt_new P (ucast (of_nat (length (ins_notes (ti_input_notes ti))) :: u32))] in
     case script of
       Some s \<Rightarrow> adv_extend_stack V a3 (elements (txs_hash s))
     | None \<Rightarrow> adv_extend_stack V a3 [0, 0, 0, 0])"

definition add_chain_mmr_to_advice_inputs ::
    "prims \<Rightarrow> ('a, 'n) advice_ops \<Rightarrow> ('v, 's, 'g, 'n) node_ops \<Rightarrow> 'g mmr_ops \<Rightarrow> 'g chain_mmr \<Rightarrow> 'a \<Rightarrow> 'a" where
  "add_chain_mmr_to_advice_inputs P V N G c inputs =
    (let a1 = adv_extend_store V inputs (mmr_inner_nodes N (cm_mmr c) (chain_tracked_leaves c));
         elems = [felt_new P (of_nat (mmr_num_leaves N (cm_mmr c))), 0, 0, 0] @ mmr_flatten_and_pad_peaks N (cm_mmr c) in
     adv_extend_map V a1 [(mmr_hash_peaks G (cm_mmr c), elems)])"

definition add_account_to_advice_inputs ::
    "prims \<Rightarrow> ('a, 'n) advice_ops \<Rightarrow> ('v, 's, 'g, 'n) node_ops \<Rightarrow> ('v, 's, 'm) account \<Rightarrow> word4 option \<Rightarrow> 'a \<Rightarrow> 'a" where
  "add_account_to_advice_inputs P V N a seed inputs =
    (let a1 = adv_extend_store V inputs (ssmt_inner_nodes N (slots (acct_storage a)));
         a2 = adv_extend_map V a1 [(layout_commitment P (acct_storage a), map (slot_type_to_felt P) (layout (acct_storage a)))];
         a3 = adv_extend_store V a2 (smt_inner_nodes N (asset_tree (acct_vault a)));
         a4 = adv_extend_map V a3 (smt_leaf_entries N (asset_tree (acct_vault a)));
         a5 = adv_extend_store V a4 (ssmt_inner_nodes N (procedure_tree (acct_code a))) in
     case seed of
       Some s \<Rightarrow> adv_extend_map V a5 [(W (id_felt (acct_id a)) 0 0 0, elements s)]
     | None \<Rightarrow> a5)"

definition note_data_elements :: "prims \<Rightarrow> ('p, 'd) transaction_args \<Rightarrow> 'p input_note \<Rightarrow> (felt list, 'e) result" where
  "note_data_elements P args n =
    (let nt = in_note n; as = nt_assets nt; prf = in_proof n; r = nt_recipient nt;
         note_arg = (case get_note_args args (nt_id nt) of Some w \<Rightarrow> w | None \<Rightarrow> W 0 0 0 0);
         idx = node_value (org_node_index (prf_origin prf)) in
     if \<not> felt_ok P idx then Panic ''value is greater than or equal to the field modulus''
     else Ok (elements (rcp_serial_num r) @ elements (script_hash (rcp_script r)) @ elements (ni_hash (rcp_inputs r))
       @ elements (na_hash as) @ elements (note_metadata_to_word P (nt_metadata nt)) @ elements note_arg
       @ [felt_new P (ucast (num_values (rcp_inputs r)))] @ [felt_new P (ucast (of_nat (num_assets as) :: u32))]
       @ to_padded_assets P as @ [felt_new P (ucast (org_block_num (prf_origin prf)))]
       @ elements (prf_sub_hash prf) @ elements (prf_note_root prf) @ [idx]))"

fun add_input_notes_loop ::
    "prims \<Rightarrow> ('a, 'n) advice_ops \<Rightarrow> ('v, 's, 'g, 'n) node_ops \<Rightarrow> ('p, 'd) transaction_args \<Rightarrow> 'a \<Rightarrow> felt list
      \<Rightarrow> 'p input_note list \<Rightarrow> ('a \<times> felt list, 'e) result" where
  "add_input_notes_loop P V N args inputs note_data [] = Ok (inputs, note_data)"
| "add_input_notes_loop P V N args inputs note_data (n # ns) =
    (let nt = in_note n; r = nt_recipient nt;
         a1 = adv_extend_map V inputs [(ni_hash (rcp_inputs r), to_padded_values (rcp_inputs r))];
         a2 = adv_extend_map V a1 [(na_hash (nt_assets nt), to_padded_assets P (nt_assets nt))] in
     and_then (expect ''called Result::unwrap on an Err value'' (path_inner_nodes N (prf_note_path (in_proof n))
       (node_value (org_node_index (prf_origin (in_proof n)))) (authentication_hash P nt))) (\<lambda>nodes.
     and_then (note_data_elements P args n) (\<lambda>elems.
       add_input_notes_loop P V N args (adv_extend_store V a2 nodes) (note_data @ elems) ns)))"

definition add_input_notes_to_advice_inputs ::
    "prims \<Rightarrow> ('a, 'n) advice_ops \<Rightarrow> ('v, 's, 'g, 'n) node_ops \<Rightarrow> 'p input_note input_notes \<Rightarrow> ('p, 'd) transaction_args
      \<Rightarrow> 'a \<Rightarrow> ('a, 'e) result" where
  "add_input_notes_to_advice_inputs P V N ins args inputs =
    (if ins_notes ins = [] then Ok inputs
     else and_then (add_input_notes_loop P V N args inputs [] (ins_notes ins)) (\<lambda>(a, note_data).
       Ok (adv_extend_map V a [(ins_commitment ins, note_data)])))"

definition extend_advice_inputs ::
    "prims \<Rightarrow> 'v smt_ops \<Rightarrow> 's simple_smt_ops \<Rightarrow> 'g mmr_ops \<Rightarrow> ('a, 'n) advice_ops \<Rightarrow> ('v, 's, 'g, 'n) node_ops \<Rightarrow> 'd advice_map_ops
      \<Rightarrow> ('v, 's, 'm, 'g, 'p) transaction_inputs \<Rightarrow> ('p, 'd) transaction_args \<Rightarrow> 'a \<Rightarrow> ('a, 'e) result" where
  "extend_advice_inputs P T S G V N D ti args inputs =
    (let a1 = build_advice_stack P T S V ti (ta_tx_script args) inputs;
         a2 = add_chain_mmr_to_advice_inputs P V N G (ti_block_chain ti) a1;
         a3 = add_account_to_advice_inputs P V N (ti_account ti) (ti_account_seed ti) a2 in
     and_then (add_input_notes_to_advice_inputs P V N (ti_input_notes ti) args a3) (\<lambda>a4.
       Ok (adv_extend_map V a4 (am_entries D (ta_advice_map args)))))"

definition get_kernel_inputs ::
    "prims \<Rightarrow> 'v smt_ops \<Rightarrow> 's simple_smt_ops \<Rightarrow> 'g mmr_ops \<Rightarrow> ('si, 'so) stack_ops \<Rightarrow> ('a, 'n) advice_ops \<Rightarrow> ('v, 's, 'g, 'n) node_ops
      \<Rightarrow> 'd advice_map_ops \<Rightarrow> ('v, 's, 'm, 'g, 'p) transaction_inputs \<Rightarrow> ('p, 'd) transaction_args \<Rightarrow> 'a \<Rightarrow> ('si \<times> 'a, 'e) result" where
  "get_kernel_inputs P T S G X V N D ti args advice =
     and_then (build_input_stack X (acct_id (ti_account ti)) (proof_init_hash P T S (ti_account ti))
       (ins_commitment (ti_input_notes ti)) (bh_hash (ti_block_header ti))) (\<lambda>stack.
     and_then (extend_advice_inputs P T S G V N D ti args advice) (\<lambda>a. Ok (stack, a)))"

definition prepared_kernel_inputs ::
    "prims \<Rightarrow> 'v smt_ops \<Rightarrow> 's simple_smt_ops \<Rightarrow> 'g mmr_ops \<Rightarrow> ('si, 'so) stack_ops \<Rightarrow> ('a, 'n) advice_ops \<Rightarrow> ('v, 's, 'g, 'n) node_ops
      \<Rightarrow> 'd advice_map_ops \<Rightarrow> ('v, 's, 'm, 'g, 'p, 'd, 'c) prepared_transaction \<Rightarrow> ('si \<times> 'a, 'e) result" where
  "prepared_kernel_inputs P T S G X V N D tx =
     get_kernel_inputs P T S G X V N D (prep_tx_inputs tx) (prep_tx_args tx) (adv_default V)"

definition executed_kernel_inputs ::
    "prims \<Rightarrow> 'v smt_ops \<Rightarrow> 's simple_smt_ops \<Rightarrow> 'g mmr_ops \<Rightarrow> ('si, 'so) stack_ops \<Rightarrow> ('a, 'n) advice_ops \<Rightarrow> ('v, 's, 'g, 'n) node_ops
      \<Rightarrow> 'd advice_map_ops \<Rightarrow> ('v, 's, 'm, 'g, 'p, 'd, 'c, 'a) executed_transaction \<Rightarrow> ('si \<times> 'a, 'e) result" where
  "executed_kernel_inputs P T S G X V N D tx =
     get_kernel_inputs P T S G X V N D (ex_tx_inputs tx) (ex_tx_args tx) (ex_advice_witness tx)"

definition witness_kernel_inputs ::
    "prims \<Rightarrow> 'v smt_ops \<Rightarrow> 's simple_smt_ops \<Rightarrow> 'g mmr_ops \<Rightarrow> ('si, 'so) stack_ops \<Rightarrow> ('a, 'n) advice_ops \<Rightarrow> ('v, 's, 'g, 'n) node_ops
      \<Rightarrow> 'd advice_map_ops \<Rightarrow> ('v, 's, 'm, 'g, 'p, 'd, 'c, 'a) transaction_witness \<Rightarrow> ('si \<times> 'a, 'e) result" where
  "witness_kernel_inputs P T S G X V N D tx =
     get_kernel_inputs P T S G X V N D (tw_tx_inputs tx) (tw_tx_args tx) (tw_advice_witness tx)"

section \<open>The advice stack\<close>

context advice_inputs_spec
begin

lemmas stack_laws = default_stack extend_stack_stack extend_map_stack extend_store_stack

lemma add_chain_stack: "adv_stack V (add_chain_mmr_to_advice_inputs P V N G c a) = adv_stack V a"
  by (simp add: add_chain_mmr_to_advice_inputs_def stack_laws Let_def)

lemma add_account_stack: "adv_stack V (add_account_to_advice_inputs P V N acct seed a) = adv_stack V a"
  by (simp add: add_account_to_advice_inputs_def stack_laws Let_def split: option.split)

lemma add_notes_loop_stack:
  "add_input_notes_loop P V N args a data ns = Ok (a', data') \<Longrightarrow> adv_stack V a' = adv_stack V a"
  by (induction ns arbitrary: a data) (auto simp: res_simps stack_laws Let_def)

lemma extend_advice_stack:
  assumes "extend_advice_inputs P T S G V N D ti args a = (Ok a' :: ('a, 'e) result)"
  shows "adv_stack V a' = adv_stack V a @ header_elements P (ti_block_header ti) @ account_elements T S (ti_account ti)
    @ [felt_new P (ucast (of_nat (length (ins_notes (ti_input_notes ti))) :: u32))]
    @ elements (case ta_tx_script args of Some s \<Rightarrow> txs_hash s | None \<Rightarrow> EMPTY_WORD)"
proof -
  let ?a1 = "build_advice_stack P T S V ti (ta_tx_script args) a"
  let ?a3 = "add_account_to_advice_inputs P V N (ti_account ti) (ti_account_seed ti)
    (add_chain_mmr_to_advice_inputs P V N G (ti_block_chain ti) ?a1)"
  from assms obtain a4 where a4: "add_input_notes_to_advice_inputs P V N (ti_input_notes ti) args ?a3 = (Ok a4 :: ('a, 'e) result)"
    and a': "a' = adv_extend_map V a4 (am_entries D (ta_advice_map args))"
    by (auto simp: extend_advice_inputs_def res_simps Let_def)
  have "adv_stack V a4 = adv_stack V ?a3"
    using a4 add_notes_loop_stack by (fastforce simp: add_input_notes_to_advice_inputs_def res_simps stack_laws split: if_splits)
  then have "adv_stack V a' = adv_stack V ?a1" by (simp add: a' stack_laws add_account_stack add_chain_stack)
  then show ?thesis by (simp add: build_advice_stack_def stack_laws Let_def split: option.split)
qed

lemma extend_advice_note_data:
  assumes "extend_advice_inputs P T S G V N D ti args a = (Ok a' :: ('a, 'e) result)"
  shows "\<exists>ds. try_map (note_data_elements P args) (ins_notes (ti_input_notes ti)) = (Ok ds :: (felt list list, 'e) result) \<and>
    (ds \<noteq> [] \<and> map_of (rev (am_entries D (ta_advice_map args))) (ins_commitment (ti_input_notes ti)) = None \<longrightarrow>
      adv_lookup V a' (ins_commitment (ti_input_notes ti)) = Some (concat ds))"
proof (cases "ins_notes (ti_input_notes ti) = []")
  case False
  have loop: "\<exists>ds. try_map (note_data_elements P args) ns = (Ok ds :: (felt list list, 'e) result) \<and> data' = data @ concat ds"
    if "add_input_notes_loop P V N args b data ns = (Ok (b', data') :: ('a \<times> felt list, 'e) result)" for b data ns b' data'
    using that
  proof (induction ns arbitrary: b data)
    case (Cons n ns)
    then obtain elems nodes c where n: "note_data_elements P args n = (Ok elems :: (felt list, 'e) result)"
      "add_input_notes_loop P V N args (adv_extend_store V c nodes) (data @ elems) ns = (Ok (b', data') :: ('a \<times> felt list, 'e) result)"
      by (auto simp: res_simps Let_def)
    from Cons.IH [OF n(2)] n(1) show ?case by auto
  qed simp
  from assms(1) False obtain b b' data where
    "add_input_notes_loop P V N args b [] (ins_notes (ti_input_notes ti)) = (Ok (b', data) :: ('a \<times> felt list, 'e) result)"
    "a' = adv_extend_map V (adv_extend_map V b' [(ins_commitment (ti_input_notes ti), data)]) (am_entries D (ta_advice_map args))"
    by (auto simp: extend_advice_inputs_def add_input_notes_to_advice_inputs_def res_simps Let_def)
  with loop [of b "[]" "ins_notes (ti_input_notes ti)" b' data] show ?thesis
    by (auto simp: extend_map_lookup map_add_def)
qed simp

end

section \<open>Outputs\<close>

definition stub_words :: "account_stub \<Rightarrow> word4 list" where
  "stub_words s = [W (id_felt (stub_id s)) 0 0 (stub_nonce s), stub_vault_root s, stub_storage_root s, stub_code_root s]"

lemma parse_stub_words:
  "account_id_valid (stub_id s) \<Longrightarrow> parse_final_account_stub (stub_words s) = Ok s"
  by (simp add: parse_final_account_stub_def stub_words_def ACCT_DATA_MEM_SIZE_def ACCT_ID_AND_NONCE_OFFSET_def ACCT_ID_IDX_def
      ACCT_NONCE_IDX_def ACCT_VAULT_ROOT_OFFSET_def ACCT_STORAGE_ROOT_OFFSET_def ACCT_CODE_ROOT_OFFSET_def try_from_felt_valid
      account_stub_new_def)

lemma account_stub_hash_words: "account_stub_hash P s = hash_elements P (concat (map elements (stub_words s)))"
  by (simp add: account_stub_hash_def hash_account_def stub_words_def)

context stack_spec
begin

lemma parse_build_output_stack:
  "\<exists>s. build_output_stack X f n r = Ok s \<and> parse_output_stack X s = Ok (f, n, case r of Some x \<Rightarrow> x | None \<Rightarrow> EMPTY_WORD)"
proof -
  let ?r = "case r of Some x \<Rightarrow> x | None \<Rightarrow> EMPTY_WORD"
  let ?xs = "rev (elements f @ elements n @ elements ?r)"
  obtain s where s: "stack_outputs_new X ?xs [] = Ok s"
    and get: "\<And>i. i + 4 \<le> 12 \<Longrightarrow> map_option elements (get_stack_word X s i) = Some (rev (take 4 (drop i ?xs)))"
    using stack_outputs_ok [of ?xs] by auto
  have "rev (take 4 (drop 0 ?xs)) = elements ?r" "rev (take 4 (drop 4 ?xs)) = elements n" "rev (take 4 (drop 8 ?xs)) = elements f"
    by (simp_all add: rev_append)
  with get [of 0] get [of 4] get [of 8]
  have "get_stack_word X s 0 = Some ?r" "get_stack_word X s 4 = Some n" "get_stack_word X s 8 = Some f" by auto
  with s show ?thesis by (simp add: build_output_stack_def parse_output_stack_def)
qed

end

section \<open>Samples\<close>

definition sample_stack :: "(felt list, felt list) stack_ops" where
  "sample_stack = \<lparr> stack_inputs_new = (\<lambda>xs. if length xs \<le> 16 then Ok xs else Err ''too long''),
     stack_outputs_new = (\<lambda>xs ov. if length xs \<le> 16 then Ok (xs @ replicate (16 - length xs) 0) else Err ''too long''),
     get_stack_word = (\<lambda>xs i. case rev (take 4 (drop i xs)) of [a, b, c, d] \<Rightarrow> Some (W a b c d) | _ \<Rightarrow> None),
     group_slice_elements = (\<lambda>xs. Ok (map (\<lambda>l. case l of [a, b, c, d] \<Rightarrow> W a b c d | _ \<Rightarrow> EMPTY_WORD) (chunks4 xs))) \<rparr>"

lemma length_4_cases: "length xs = 4 \<Longrightarrow> \<exists>a b c d. xs = [a, b, c, d]"
  by (auto simp: length_Suc_conv eval_nat_numeral)

lemma sample_stack_word:
  "i + 4 \<le> length xs \<Longrightarrow> map_option elements (get_stack_word sample_stack xs i) = Some (rev (take 4 (drop i xs)))"
  using length_4_cases [of "rev (take 4 (drop i xs))"] by (auto simp: sample_stack_def)

interpretation sample_stack_laws: stack_view sample_stack "\<lambda>s. rev s" "\<lambda>s. s"
proof unfold_locales
  show "group_slice_elements sample_stack (concat (map elements ws)) = Ok ws" for ws
  proof (induction ws)
    case (Cons w ws)
    then show ?case by (cases w) (simp add: sample_stack_def)
  qed (simp add: sample_stack_def)
  show "\<exists>s. stack_outputs_new sample_stack xs [] = Ok s \<and>
      (\<forall>i. i + 4 \<le> length xs \<longrightarrow> map_option elements (get_stack_word sample_stack s i) = Some (rev (take 4 (drop i xs))))"
    if "length xs \<le> 16" for xs
  proof -
    have "map_option elements (get_stack_word sample_stack (xs @ replicate (16 - length xs) 0) i) = Some (rev (take 4 (drop i xs)))"
      if "i + 4 \<le> length xs" for i
      using sample_stack_word [of i "xs @ replicate (16 - length xs) 0"] that by simp
    with that show ?thesis by (simp add: sample_stack_def)
  qed
  show "map_option elements (get_stack_word sample_stack so i) = Some (rev (take 4 (drop i so)))" if "i + 4 \<le> length so" for so i
    by (rule sample_stack_word [OF that])
qed (auto simp: sample_stack_def split: if_splits)

definition sample_advice :: "(felt list \<times> (digest \<Rightarrow> felt list option), unit) advice_ops" where
  "sample_advice = \<lparr> adv_default = ([], Map.empty), adv_extend_stack = (\<lambda>(st, m) xs. (st @ xs, m)),
     adv_extend_map = (\<lambda>(st, m) es. (st, m ++ map_of (rev es))), adv_extend_store = (\<lambda>a ns. a),
     adv_stack = fst, adv_lookup = snd \<rparr>"

interpretation sample_advice_laws: advice_inputs_spec sample_advice
  by unfold_locales (auto simp: sample_advice_def split: prod.splits)

definition sample_map :: "(digest \<times> felt list) list advice_map_ops" where
  "sample_map = \<lparr> am_default = [], am_insert = (\<lambda>m k v. (k, v) # filter (\<lambda>e. fst e \<noteq> k) m), am_get = map_of,
     am_entries = (\<lambda>m. AList.clearjunk m) \<rparr>"

interpretation sample_map_laws: advice_map_spec sample_map
proof unfold_locales
  have "map_of (filter (\<lambda>e. fst e \<noteq> k) m) x = (if x = k then None else map_of m x)" for k x and m :: "(digest \<times> felt list) list"
    by (induction m) auto
  then show "am_get sample_map (am_insert sample_map m k v) = (am_get sample_map m)(k \<mapsto> v)" for m k v
    by (auto simp: sample_map_def)
qed (simp_all add: sample_map_def distinct_clearjunk map_of_clearjunk)

definition sample_nodes :: "('v, 's, 'g, unit) node_ops" where
  "sample_nodes = \<lparr> smt_inner_nodes = (\<lambda>_. []), smt_leaf_entries = (\<lambda>_. []), ssmt_inner_nodes = (\<lambda>_. []),
     mmr_inner_nodes = (\<lambda>_ _. []), mmr_num_leaves = (\<lambda>_. 0), mmr_flatten_and_pad_peaks = (\<lambda>_. []),
     path_inner_nodes = (\<lambda>_ _ _. Ok []) \<rparr>"

section \<open>Properties\<close>

text \<open>
  C31. Event identifiers.  A 32-bit value is accepted as an event exactly if it is the identifier of
  that event, and all identifiers have the kernel's prefix.
\<close>

theorem event_try_from_iff:
  "(event_try_from v = Ok e \<longleftrightarrow> v = event_id e) \<and> drop_bit 16 (event_id e) = (2 :: u32) \<and> event_try_from v \<noteq> Panic m"
  by (cases e) (auto simp: event_try_from_def EVENT_ID_PREFIX_def)

text \<open>
  The output stack.  Building the output stack from the final account hash, the output notes
  commitment and the optional script root never panics, and parsing it gives them back, with the
  empty word for a missing script.
\<close>

theorem output_stack_round_trip:
  assumes "stack_spec X"
  shows "\<exists>s. build_output_stack X final_hash notes_hash script_root = Ok s \<and>
    parse_output_stack X s = Ok (final_hash, notes_hash, case script_root of Some r \<Rightarrow> r | None \<Rightarrow> EMPTY_WORD)"
  using stack_spec.parse_build_output_stack [OF assms] .

theorem output_stack_round_trip_witness:
  "\<exists>s. build_output_stack sample_stack (W 1 2 3 4) (W 5 6 7 8) None = (Ok s :: (felt list, unit) result) \<and>
     parse_output_stack sample_stack s = (Ok (W 1 2 3 4, W 5 6 7 8, EMPTY_WORD) :: (digest \<times> digest \<times> digest, unit) result)"
  using output_stack_round_trip [OF sample_stack_laws.stack_spec_axioms, of "W 1 2 3 4" "W 5 6 7 8" None] by simp

text \<open>
  C28. Transaction outputs.  With the account data of a stub in the advice map under its hash, the
  outputs parsed from the stack the kernel leaves are that stub and the notes, exactly if the notes
  are at most 4096 with distinct identifiers; and whatever the stack and the map hold, accepted
  outputs carry the given notes with the commitment that is on the stack.
\<close>

theorem from_transaction_parts_correct:
  assumes "stack_spec X" "account_id_valid (stub_id stub)"
    "am_get D m (account_stub_hash P stub) = Some (concat (map elements (stub_words stub)))"
    "build_output_stack X (account_stub_hash P stub) (build_output_notes_commitment P nts) r = (Ok s :: ('so, 'e) result)"
  shows "(from_transaction_parts P X D s m nts = Ok outs \<longleftrightarrow>
      length nts \<le> 4096 \<and> distinct (map output_note_id nts) \<and>
      outs = \<lparr> to_account = stub, to_output_notes = \<lparr> outs_notes = nts, outs_commitment = build_output_notes_commitment P nts \<rparr> \<rparr>) \<and>
    (from_transaction_parts P X D s' m' nts' = Ok outs' \<longrightarrow> outs_notes (to_output_notes outs') = nts' \<and>
      (\<exists>f t. parse_output_stack X s' = (Ok (f, outs_commitment (to_output_notes outs'), t) :: (_, unit) result)))"
proof
  obtain s0 where "build_output_stack X (account_stub_hash P stub) (build_output_notes_commitment P nts) r = (Ok s0 :: ('so, 'e) result)"
    "parse_output_stack X s0 = (Ok (account_stub_hash P stub, build_output_notes_commitment P nts,
      case r of Some x \<Rightarrow> x | None \<Rightarrow> EMPTY_WORD) :: (_, transaction_output_error) result)"
    using stack_spec.parse_build_output_stack [OF assms(1)] by blast
  with assms(4) have parse: "parse_output_stack X s = (Ok (account_stub_hash P stub, build_output_notes_commitment P nts,
      case r of Some x \<Rightarrow> x | None \<Rightarrow> EMPTY_WORD) :: (_, transaction_output_error) result)" by simp
  show "from_transaction_parts P X D s m nts = Ok outs \<longleftrightarrow>
      length nts \<le> 4096 \<and> distinct (map output_note_id nts) \<and>
      outs = \<lparr> to_account = stub, to_output_notes = \<lparr> outs_notes = nts, outs_commitment = build_output_notes_commitment P nts \<rparr> \<rparr>"
    using parse_stub_words [OF assms(2)]
    by (auto simp: from_transaction_parts_def parse assms(3) stack_spec.group_words [OF assms(1)] res_simps
        output_list.new_Ok_iff MAX_OUTPUT_NOTES_PER_TX_def)
  have parse': "parse_output_stack X s' = (Ok p :: (_, transaction_output_error) result) \<longleftrightarrow>
      parse_output_stack X s' = (Ok p :: (_, unit) result)" for p
    by (auto simp: parse_output_stack_def res_simps)
  show "from_transaction_parts P X D s' m' nts' = Ok outs' \<longrightarrow> outs_notes (to_output_notes outs') = nts' \<and>
      (\<exists>f t. parse_output_stack X s' = (Ok (f, outs_commitment (to_output_notes outs'), t) :: (_, unit) result))"
    by (auto simp: from_transaction_parts_def res_simps output_list.new_Ok_iff parse' split: if_splits)
qed

theorem from_transaction_parts_correct_witness:
  "\<exists>s stub. build_output_stack sample_stack (account_stub_hash sample_prims stub) EMPTY_WORD None = (Ok s :: (felt list, unit) result) \<and>
    from_transaction_parts sample_prims sample_stack sample_map s
      [(account_stub_hash sample_prims stub, concat (map elements (stub_words stub)))] ([] :: u8 list output_note list)
    = Ok \<lparr> to_account = stub, to_output_notes = \<lparr> outs_notes = [], outs_commitment = EMPTY_WORD \<rparr> \<rparr>"
proof -
  let ?stub = "account_stub_new sample_faucet 7 (W 1 1 1 1) (W 2 2 2 2) (W 3 3 3 3)"
  have "account_id_ok sample_prims sample_faucet"
    using sample_assets_ok(1) by (simp add: sample_coin_def fungible_ok_def)
  then have valid: "account_id_valid (stub_id ?stub)" by (simp add: account_stub_new_def account_id_ok_def)
  have commit: "build_output_notes_commitment sample_prims ([] :: u8 list output_note list) = EMPTY_WORD"
    by (simp add: build_output_notes_commitment_def)
  obtain s where s: "build_output_stack sample_stack (account_stub_hash sample_prims ?stub)
      (build_output_notes_commitment sample_prims ([] :: u8 list output_note list)) None = (Ok s :: (felt list, unit) result)"
    by (simp add: build_output_stack_def sample_stack_def)
  have get: "am_get sample_map [(account_stub_hash sample_prims ?stub, concat (map elements (stub_words ?stub)))]
      (account_stub_hash sample_prims ?stub) = Some (concat (map elements (stub_words ?stub)))"
    by (simp add: sample_map_def)
  from from_transaction_parts_correct [OF sample_stack_laws.stack_spec_axioms valid get s, THEN conjunct1, THEN iffD2] s show ?thesis
    by (intro exI [of _ s] exI [of _ ?stub]) (simp add: commit)
qed

text \<open>The operand stack, from the top.\<close>

lemma build_input_stack_view:
  assumes "stack_view X in_view out_view" "build_input_stack X i init_hash notes_hash blk_hash = (Ok st :: ('si, 'e) result)"
  shows "in_view st = rev (elements blk_hash) @ [id_felt i] @ rev (elements init_hash) @ rev (elements notes_hash)"
proof -
  from assms(2) have "stack_inputs_new X (elements notes_hash @ elements init_hash @ [id_felt i] @ elements blk_hash) = Ok st"
    by (auto simp: build_input_stack_def res_simps)
  from stack_view.inputs_view [OF assms(1) this] show ?thesis by simp
qed

text \<open>The first 16 elements of the data of a note are the preimage of its nullifier.\<close>

lemma note_data_nullifier:
  assumes "try_map (note_data_elements P args) ns = (Ok ds :: (felt list list, 'e) result)"
    "list_all (\<lambda>n. nt_nullifier (in_note n) = note_to_nullifier P (in_note n)) ns"
  shows "map (\<lambda>d. hash_elements P (take 16 d)) ds = map (\<lambda>n. nullifier_digest (input_note_nullifier n)) ns"
  using assms
proof (induction ns arbitrary: ds)
  case (Cons n ns)
  then obtain d es where d: "note_data_elements P args n = (Ok d :: (felt list, 'e) result)"
    "try_map (note_data_elements P args) ns = (Ok es :: (felt list list, 'e) result)" "ds = d # es"
    by (auto simp: res_simps)
  let ?r = "nt_recipient (in_note n)"
  have "take 16 d = elements (rcp_serial_num ?r) @ elements (script_hash (rcp_script ?r)) @ elements (ni_hash (rcp_inputs ?r))
      @ elements (na_hash (nt_assets (in_note n)))"
    using d(1) by (auto simp: note_data_elements_def Let_def split: if_splits)
  then show ?case using Cons d by (simp add: input_note_nullifier_def note_to_nullifier_def nullifier_new_def)
qed simp

text \<open>The advice stack begins with the preimage of the block hash and continues with the one of the account hash.\<close>

lemma advice_stack_parts:
  assumes "advice_inputs_spec V"
    "ti_block_header ti = block_header_new P prev num chain acct nullif nts batch prf version timestamp"
    "extend_advice_inputs P T S G V N D ti args (adv_default V) = (Ok a :: ('a, 'e) result)"
  defines "adv \<equiv> adv_stack V a"
  shows "length adv = 57" "hash_elements P (take 32 adv) = bh_sub_hash (ti_block_header ti)"
    "take 4 (drop 32 adv) = elements nts" "bh_hash (ti_block_header ti) = hash_merge P (bh_sub_hash (ti_block_header ti)) nts"
    "take 16 (drop 36 adv) = account_elements T S (ti_account ti)"
    "adv ! 36 = id_felt (acct_id (ti_account ti))" "adv ! 39 = acct_nonce (ti_account ti)"
proof -
  let ?h = "ti_block_header ti"
  let ?tail = "[felt_new P (ucast (of_nat (length (ins_notes (ti_input_notes ti))) :: u32))]
    @ elements (case ta_tx_script args of Some s \<Rightarrow> txs_hash s | None \<Rightarrow> EMPTY_WORD)"
  have stack: "adv = header_elements P ?h @ account_elements T S (ti_account ti) @ ?tail"
    using advice_inputs_spec.extend_advice_stack [OF assms(1,3)] advice_inputs_spec.default_stack [OF assms(1)] by (simp add: adv_def)
  let ?front = "elements prev @ elements chain @ elements acct @ elements nullif @ elements batch @ elements prf
    @ [felt_new P (ucast num), version, timestamp, 0] @ [0, 0, 0, 0]"
  have header: "header_elements P ?h = ?front @ elements nts" "length ?front = 32"
    by (simp_all add: header_elements_def assms(2) block_header_new_def Let_def)
  have acct: "length (account_elements T S (ti_account ti)) = 16" by (simp add: account_elements_def)
  have sub: "bh_sub_hash ?h = hash_elements P ?front"
    by (simp add: assms(2) block_header_new_def Let_def compute_sub_hash_def resize_def eval_nat_numeral)
  show "bh_hash ?h = hash_merge P (bh_sub_hash ?h) nts" by (simp add: assms(2) block_header_new_def Let_def)
  have "take 32 ((fr @ ws) @ rest) = fr \<and> take 4 (drop 32 ((fr @ ws) @ rest)) = ws"
    if "length fr = 32" "length ws = 4" for fr ws rest :: "felt list" using that by simp
  from this [OF header(2), of "elements nts" "account_elements T S (ti_account ti) @ ?tail"]
  show "hash_elements P (take 32 adv) = bh_sub_hash ?h" "take 4 (drop 32 adv) = elements nts"
    unfolding stack header(1) sub by simp_all
  show parts: "take 16 (drop 36 adv) = account_elements T S (ti_account ti)" "length adv = 57"
    using header acct by (simp_all add: stack)
  have "adv ! (36 + i) = account_elements T S (ti_account ti) ! i" if "i < 16" for i
    using that by (simp add: parts(1) [symmetric] parts(2))
  from this [of 0] this [of 3] show "adv ! 36 = id_felt (acct_id (ti_account ti))" "adv ! 39 = acct_nonce (ti_account ti)"
    by (simp_all add: account_elements_def)
qed

text \<open>
  C6. The operand stack authenticates the advice.  Take inputs whose reference block has a computed hash and
  whose notes carry the nullifiers computed from their contents.  Then the operand stack holds, from the top,
  the block hash, the account identifier, the initial account hash and the input notes commitment, and each
  of them can be recomputed from the advice alone: the block hash from the first 36 elements of the advice
  stack, the identifier as element 36, the initial hash as the hash of elements 36 to 51 (the empty word if
  the nonce at element 39 is zero), and the commitment as the hash of the nullifiers, each the hash of the
  first 16 elements of the note's data, that are stored in the advice map under this very commitment unless
  the transaction arguments replace the entry (the empty word if there are no notes).
\<close>

theorem kernel_inputs_authentic:
  assumes "advice_inputs_spec V" "stack_view X in_view out_view"
    "ti_block_header ti = block_header_new P prev num chain acct nullif nts batch prf version timestamp"
    "input_notes_new P input_note_nullifier ns = Ok (ti_input_notes ti)"
    "list_all (\<lambda>n. nt_nullifier (in_note n) = note_to_nullifier P (in_note n)) ns"
    "get_kernel_inputs P T S G X V N D ti args (adv_default V) = (Ok (st, a) :: ('si \<times> 'a, 'e) result)"
    "adv = adv_stack V a"
  shows "length adv = 57 \<and> (\<exists>blk_hash init_hash notes_hash nr ds.
    in_view st = rev (elements blk_hash) @ [adv ! 36] @ rev (elements init_hash) @ rev (elements notes_hash) \<and>
    elements nr = take 4 (drop 32 adv) \<and> blk_hash = hash_merge P (hash_elements P (take 32 adv)) nr \<and>
    blk_hash = bh_hash (ti_block_header ti) \<and> adv ! 36 = id_felt (acct_id (ti_account ti)) \<and>
    hash_elements P (take 16 (drop 36 adv)) = account_hash P T S (ti_account ti) \<and>
    init_hash = (if adv ! 39 = 0 then EMPTY_WORD else hash_elements P (take 16 (drop 36 adv))) \<and>
    notes_hash = (if ds = [] then EMPTY_WORD
      else hash_elements P (concat (map (\<lambda>d. elements (hash_elements P (take 16 d)) @ [0, 0, 0, 0]) ds))) \<and>
    try_map (note_data_elements P args) ns = (Ok ds :: (felt list list, 'e) result) \<and>
    (ds \<noteq> [] \<and> map_of (rev (am_entries D (ta_advice_map args))) notes_hash = None \<longrightarrow>
      adv_lookup V a notes_hash = Some (concat ds)))"
proof -
  let ?i = "acct_id (ti_account ti)" and ?c = "ins_commitment (ti_input_notes ti)" and ?init = "proof_init_hash P T S (ti_account ti)"
  from assms(6) have ext: "extend_advice_inputs P T S G V N D ti args (adv_default V) = (Ok a :: ('a, 'e) result)"
    and st: "build_input_stack X ?i ?init ?c (bh_hash (ti_block_header ti)) = (Ok st :: ('si, 'e) result)"
    by (auto simp: get_kernel_inputs_def res_simps)
  note parts = advice_stack_parts [OF assms(1,3) ext, folded assms(7)]
  have acct: "hash_elements P (take 16 (drop 36 adv)) = account_hash P T S (ti_account ti)"
    by (simp add: parts(5) account_elements_def account_hash_def hash_account_def)
  have init: "?init = (if adv ! 39 = 0 then EMPTY_WORD else hash_elements P (take 16 (drop 36 adv)))"
    by (simp add: acct parts(7) proof_init_hash_def account_is_new_def)
  have ins: "ins_notes (ti_input_notes ti) = ns" "?c = build_input_notes_commitment P input_note_nullifier ns"
    using assms(4) by (auto simp: input_list.new_Ok_iff)
  obtain ds where ds: "try_map (note_data_elements P args) ns = (Ok ds :: (felt list list, 'e) result)"
    "ds \<noteq> [] \<and> map_of (rev (am_entries D (ta_advice_map args))) ?c = None \<longrightarrow> adv_lookup V a ?c = Some (concat ds)"
    using advice_inputs_spec.extend_advice_note_data [OF assms(1) ext] ins(1) by auto
  note digests = note_data_nullifier [OF ds(1) assms(5)]
  have "ds = [] \<longleftrightarrow> ns = []" using arg_cong [OF digests, of length] by auto
  moreover have "map (\<lambda>d. elements (hash_elements P (take 16 d)) @ [0, 0, 0, 0]) ds
      = map (\<lambda>n. elements (nullifier_digest (input_note_nullifier n)) @ [0, 0, 0, 0]) ns"
    using arg_cong [OF digests, of "map (\<lambda>x. elements x @ [0, 0, 0, 0])"] by (simp add: comp_def)
  ultimately have "?c = (if ds = [] then EMPTY_WORD
      else hash_elements P (concat (map (\<lambda>d. elements (hash_elements P (take 16 d)) @ [0, 0, 0, 0]) ds)))"
    by (simp add: ins(2) build_input_notes_commitment_def)
  with build_input_stack_view [OF assms(2) st] parts(1-4,6) init acct ds show ?thesis
    by (intro conjI exI [of _ "bh_hash (ti_block_header ti)"] exI [of _ ?init] exI [of _ ?c] exI [of _ nts] exI [of _ ds]) simp_all
qed

theorem kernel_inputs_authentic_witness:
  "\<exists>ti args st a adv blk_hash init_hash notes_hash d.
    ins_notes (ti_input_notes ti) = [sample_input_note (W 1 2 3 4) 0] \<and> ti_block_header ti = sample_block 2 \<and>
    get_kernel_inputs sample_prims sample_smt (sample_ssmt 8) sample_mmr sample_stack sample_advice sample_nodes sample_map
      (ti :: (_, _, digest list, nat, u8 list) transaction_inputs) args (adv_default sample_advice)
      = (Ok (st, a) :: (felt list \<times> (felt list \<times> (digest \<Rightarrow> felt list option)), unit) result) \<and>
    adv = adv_stack sample_advice a \<and>
    rev st = rev (elements blk_hash) @ [adv ! 36] @ rev (elements init_hash) @ rev (elements notes_hash) \<and>
    blk_hash = bh_hash (sample_block 2) \<and> init_hash = hash_elements sample_prims (take 16 (drop 36 adv)) \<and>
    notes_hash = hash_elements sample_prims (elements (hash_elements sample_prims (take 16 d)) @ [0, 0, 0, 0]) \<and>
    adv_lookup sample_advice a notes_hash = Some d"
proof -
  obtain ins where ins: "input_notes_new sample_prims input_note_nullifier [sample_input_note (W 1 2 3 4) 0] = Ok ins"
    by (simp add: input_notes_new_def MAX_INPUT_NOTES_PER_TX_def)
  then have nts: "ins_notes ins = [sample_input_note (W 1 2 3 4) 0]" by (auto simp: input_list.new_Ok_iff)
  let ?ti = "\<lparr> ti_account = sample_account EMPTY_WORD, ti_account_seed = None, ti_block_header = sample_block 2,
    ti_block_chain = \<lparr> cm_mmr = 2, cm_blocks = [] \<rparr>, ti_input_notes = ins \<rparr> :: (_, _, digest list, nat, u8 list) transaction_inputs"
  let ?args = "with_note_args sample_map [] :: (u8 list, _) transaction_args"
  have h: "ti_block_header ?ti = block_header_new sample_prims EMPTY_WORD 2 (W (ucast (2 :: u32)) 0 0 0) EMPTY_WORD EMPTY_WORD
      (W 7 7 7 7) EMPTY_WORD EMPTY_WORD 0 0"
    by (simp only: sample_block_def transaction_inputs.select_convs)
  have "node_value (org_node_index (prf_origin (in_proof (sample_input_note (W 1 2 3 4) 0)))) = 5"
    by (simp add: sample_input_note_def)
  then obtain st a where k: "get_kernel_inputs sample_prims sample_smt (sample_ssmt 8) sample_mmr sample_stack sample_advice sample_nodes
      sample_map ?ti ?args (adv_default sample_advice)
      = (Ok (st, a) :: (felt list \<times> (felt list \<times> (digest \<Rightarrow> felt list option)), unit) result)"
    by (simp add: get_kernel_inputs_def build_input_stack_def sample_stack_def extend_advice_inputs_def Let_def
        add_input_notes_to_advice_inputs_def nts sample_nodes_def note_data_elements_def sample_felt_ok)
  have null: "list_all (\<lambda>n. nt_nullifier (in_note n) = note_to_nullifier sample_prims (in_note n)) [sample_input_note (W 1 2 3 4) 0]"
    by (simp add: sample_input_note_def sample_note_def note_new_def note_to_nullifier_def)
  from k have "extend_advice_inputs sample_prims sample_smt (sample_ssmt 8) sample_mmr sample_advice sample_nodes sample_map ?ti ?args
      (adv_default sample_advice) = (Ok a :: (_, unit) result)" by (auto simp: get_kernel_inputs_def res_simps)
  from advice_stack_parts(7) [OF sample_advice_laws.advice_inputs_spec_axioms h this]
  have old: "adv_stack sample_advice a ! 39 = 3" by (simp add: sample_account_def account_new_def)
  have entries: "am_entries sample_map (ta_advice_map ?args) = []" by (simp add: with_note_args_def transaction_args_new_def sample_map_def)
  from ins have ins': "input_notes_new sample_prims input_note_nullifier [sample_input_note (W 1 2 3 4) 0] = Ok (ti_input_notes ?ti)" by simp
  obtain blk init notes_hash ds where w:
    "rev st = rev (elements blk) @ [adv_stack sample_advice a ! 36] @ rev (elements init) @ rev (elements notes_hash)"
    "blk = bh_hash (ti_block_header ?ti)"
    "init = (if adv_stack sample_advice a ! 39 = 0 then EMPTY_WORD
      else hash_elements sample_prims (take 16 (drop 36 (adv_stack sample_advice a))))"
    "notes_hash = (if ds = [] then EMPTY_WORD else hash_elements sample_prims
      (concat (map (\<lambda>d. elements (hash_elements sample_prims (take 16 d)) @ [0, 0, 0, 0]) ds)))"
    "try_map (note_data_elements sample_prims ?args) [sample_input_note (W 1 2 3 4) 0] = (Ok ds :: (felt list list, unit) result)"
    "ds \<noteq> [] \<and> map_of (rev (am_entries sample_map (ta_advice_map ?args))) notes_hash = None \<longrightarrow>
      adv_lookup sample_advice a notes_hash = Some (concat ds)"
    using kernel_inputs_authentic [OF sample_advice_laws.advice_inputs_spec_axioms sample_stack_laws.stack_view_axioms h ins' null k refl,
      THEN conjunct2] by (elim exE conjE) (rule that)
  from w(5) obtain d where "ds = [d]" by (auto simp: res_simps)
  with w k nts show ?thesis
    unfolding old entries
    by (intro exI [of _ ?ti] exI [of _ ?args] exI [of _ st] exI [of _ a] exI [of _ "adv_stack sample_advice a"] exI [of _ blk]
        exI [of _ init] exI [of _ notes_hash] exI [of _ d]) simp
qed

end
