(* ===== verification/Delta_Tracker.thy ===== *)
theory Delta_Tracker
  imports Account Collections
begin

text \<open>
  The account delta tracker of the transaction host
  (\<open>miden-tx/src/host/account_delta_tracker.rs\<close>): it accumulates the asset, storage and nonce events
  of a transaction and turns them into an account delta.  A signed machine integer of width \<open>w\<close> is an
  \<open>int\<close>; \<open>wrap_signed w\<close> is its wrap-around.
\<close>

section \<open>Asset amounts\<close>

definition wrap_signed :: "nat \<Rightarrow> int \<Rightarrow> int" where
  "wrap_signed w x = (x + 2 ^ (w - 1)) mod 2 ^ w - 2 ^ (w - 1)"

definition update_asset_delta ::
    "nat \<Rightarrow> ('k \<Rightarrow> 'k \<Rightarrow> bool) \<Rightarrow> ('k \<times> int) list \<Rightarrow> 'k \<Rightarrow> int \<Rightarrow> ('k \<times> int) list" where
  "update_asset_delta w le m key amount =
    (case map_of m key of
       Some x \<Rightarrow>
         if x = wrap_signed w (- amount) then btree_remove key m
         else btree_insert le key (wrap_signed w (x + amount)) m
     | None \<Rightarrow> btree_insert le key amount m)"

section \<open>The vault tracker\<close>

record vault_tracker =
  vt_fungible :: "(account_id \<times> int) list"
  vt_non_fungible :: "(digest \<times> int) list"

definition vault_tracker_default :: vault_tracker where
  "vault_tracker_default = \<lparr> vt_fungible = [], vt_non_fungible = [] \<rparr>"

fun tracker_add_asset :: "prims \<Rightarrow> vault_tracker \<Rightarrow> asset \<Rightarrow> vault_tracker" where
  "tracker_add_asset P t (Fungible a) = t\<lparr>vt_fungible :=
     update_asset_delta 128 (\<le>) (vt_fungible t) (fa_faucet_id a) (uint (fa_amount a))\<rparr>"
| "tracker_add_asset P t (NonFungible a) = t\<lparr>vt_non_fungible :=
     update_asset_delta 8 (digest_le P) (vt_non_fungible t) (non_fungible_vault_key a) 1\<rparr>"

fun tracker_remove_asset :: "prims \<Rightarrow> vault_tracker \<Rightarrow> asset \<Rightarrow> vault_tracker" where
  "tracker_remove_asset P t (Fungible a) = t\<lparr>vt_fungible :=
     update_asset_delta 128 (\<le>) (vt_fungible t) (fa_faucet_id a) (wrap_signed 128 (- uint (fa_amount a)))\<rparr>"
| "tracker_remove_asset P t (NonFungible a) = t\<lparr>vt_non_fungible :=
     update_asset_delta 8 (digest_le P) (vt_non_fungible t) (non_fungible_vault_key a) (- 1)\<rparr>"

fun push_fungible ::
    "asset list \<Rightarrow> asset list \<Rightarrow> (account_id \<times> int) list \<Rightarrow> (asset list \<times> asset list, 'e) result" where
  "push_fungible added removed [] = Ok (added, removed)"
| "push_fungible added removed ((f, amount) # es) =
     and_then (expect ''fungible asset is well formed'' (fungible_new f (of_int \<bar>amount\<bar>))) (\<lambda>a.
       if amount > 0 then push_fungible (added @ [Fungible a]) removed es
       else push_fungible added (removed @ [Fungible a]) es)"

fun push_non_fungible ::
    "asset list \<Rightarrow> asset list \<Rightarrow> (digest \<times> int) list \<Rightarrow> (asset list \<times> asset list, 'e) result" where
  "push_non_fungible added removed [] = Ok (added, removed)"
| "push_non_fungible added removed ((n, amount) # es) =
    (if amount = 1 then push_non_fungible (added @ [NonFungible (NonFungibleAsset n)]) removed es
     else if amount = - 1 then push_non_fungible added (removed @ [NonFungible (NonFungibleAsset n)]) es
     else Panic ''non-fungible asset amount must be 1 or -1'')"

definition vault_into_delta :: "vault_tracker \<Rightarrow> (vault_delta, 'e) result" where
  "vault_into_delta t =
     and_then (push_fungible [] [] (vt_fungible t)) (\<lambda>(added, removed).
     and_then (push_non_fungible added removed (vt_non_fungible t)) (\<lambda>(added, removed).
       Ok \<lparr> added_assets = added, removed_assets = removed \<rparr>))"

section \<open>The storage tracker\<close>

record storage_tracker =
  slot_updates :: "(u8 \<times> word4) list"

definition slot_update :: "storage_tracker \<Rightarrow> u8 \<Rightarrow> word4 \<Rightarrow> storage_tracker" where
  "slot_update t slot_index new_value = t\<lparr>slot_updates := btree_insert (\<le>) slot_index new_value (slot_updates t)\<rparr>"

fun push_slots :: "u8 list \<Rightarrow> (u8 \<times> word4) list \<Rightarrow> (u8 \<times> word4) list \<Rightarrow> storage_delta" where
  "push_slots cleared updated [] = \<lparr> cleared_items = cleared, updated_items = updated \<rparr>"
| "push_slots cleared updated ((idx, v) # us) =
    (if v = EMPTY_WORD then push_slots (cleared @ [idx]) updated us
     else push_slots cleared (updated @ [(idx, v)]) us)"

definition storage_into_delta :: "storage_tracker \<Rightarrow> storage_delta" where
  "storage_into_delta t = push_slots [] [] (slot_updates t)"

section \<open>The account delta tracker\<close>

record delta_tracker =
  dt_storage :: storage_tracker
  dt_vault :: vault_tracker
  dt_init_nonce :: felt
  dt_nonce_delta :: felt

definition delta_tracker_new :: "account_stub \<Rightarrow> delta_tracker" where
  "delta_tracker_new stub = \<lparr> dt_storage = \<lparr> slot_updates = [] \<rparr>, dt_vault = vault_tracker_default,
     dt_init_nonce = stub_nonce stub, dt_nonce_delta = 0 \<rparr>"

definition increment_nonce :: "prims \<Rightarrow> delta_tracker \<Rightarrow> felt \<Rightarrow> delta_tracker" where
  "increment_nonce P t v = t\<lparr>dt_nonce_delta := felt_add P (dt_nonce_delta t) v\<rparr>"

definition tracker_into_delta :: "prims \<Rightarrow> delta_tracker \<Rightarrow> (account_delta, 'e) result" where
  "tracker_into_delta P t =
    (let sd = storage_into_delta (dt_storage t) in
     and_then (vault_into_delta (dt_vault t)) (\<lambda>vd.
       let nonce = (if dt_nonce_delta t = 0 then None else Some (felt_add P (dt_init_nonce t) (dt_nonce_delta t))) in
       expect ''invalid account delta'' (account_delta_new sd vd nonce)))"

section \<open>Wrap-around\<close>

lemma wrap_signed_id:
  assumes "- (2 ^ (w - 1)) \<le> x" "x < 2 ^ (w - 1)" "0 < w"
  shows "wrap_signed w x = x"
proof -
  have "(2::int) ^ w = 2 * 2 ^ (w - 1)" using assms(3) by (cases w) simp_all
  then have "(x + 2 ^ (w - 1)) mod 2 ^ w = x + 2 ^ (w - 1)" using assms by (intro mod_pos_pos_trivial) auto
  then show ?thesis by (simp add: wrap_signed_def)
qed

lemma wrap_signed_128: "\<bar>x\<bar> < 2 ^ 66 \<Longrightarrow> wrap_signed 128 x = x"
  by (rule wrap_signed_id) simp_all

lemma wrap_signed_8: "\<bar>x\<bar> < 128 \<Longrightarrow> wrap_signed 8 x = x"
  by (rule wrap_signed_id) simp_all

text \<open>The map entry is the sum of the amounts, and is absent exactly if the sum is zero.\<close>

lemma map_of_update_asset_delta:
  assumes "wrap_signed w (- amount) = - amount" "\<And>x. map_of m key = Some x \<Longrightarrow> wrap_signed w (x + amount) = x + amount"
    "amount \<noteq> 0"
  shows "map_of (update_asset_delta w le m key amount) = (map_of m)(key :=
    (let k = (case map_of m key of None \<Rightarrow> 0 | Some x \<Rightarrow> x) + amount in if k = 0 then None else Some k))"
proof (cases "map_of m key")
  case (Some x)
  then show ?thesis using assms(1) assms(2) [OF Some] by (auto simp: update_asset_delta_def Let_def)
qed (use assms(3) in \<open>simp add: update_asset_delta_def\<close>)

section \<open>Tracked vaults\<close>

definition balance_int :: "abs_vault \<Rightarrow> account_id \<Rightarrow> int" where
  "balance_int v f = (case av_balance v f of None \<Rightarrow> 0 | Some b \<Rightarrow> uint b)"

definition nft_change :: "abs_vault \<Rightarrow> abs_vault \<Rightarrow> non_fungible_asset \<Rightarrow> int" where
  "nft_change v0 v n = of_bool (n \<in> av_nfts v) - of_bool (n \<in> av_nfts v0)"

text \<open>Balances are positive, within the maximum, and of fungible faucets.\<close>

definition vault_positive :: "abs_vault \<Rightarrow> bool" where
  "vault_positive v \<longleftrightarrow> (\<forall>f b. av_balance v f = Some b \<longrightarrow>
     b \<noteq> 0 \<and> uint b < 2 ^ 63 \<and> account_type f = FungibleFaucet)"

definition nonzero :: "int \<Rightarrow> int option" where
  "nonzero k = (if k = 0 then None else Some k)"

text \<open>The tracker holds the difference between the initial and the current vault.\<close>

definition tracks :: "prims \<Rightarrow> vault_tracker \<Rightarrow> abs_vault \<Rightarrow> abs_vault \<Rightarrow> bool" where
  "tracks P t v0 v \<longleftrightarrow>
     (\<forall>f. map_of (vt_fungible t) f = nonzero (balance_int v f - balance_int v0 f)) \<and>
     (\<forall>n. map_of (vt_non_fungible t) (nfa_word n) = nonzero (nft_change v0 v n)) \<and>
     sorted_wrt (\<lambda>a b. a \<le> b \<and> a \<noteq> b) (map fst (vt_fungible t)) \<and>
     sorted_wrt (\<lambda>a b. digest_le P a b \<and> a \<noteq> b) (map fst (vt_non_fungible t))"

definition positive_asset :: "asset \<Rightarrow> bool" where
  "positive_asset a \<longleftrightarrow> (case a of Fungible x \<Rightarrow> fa_amount x \<noteq> 0 | NonFungible _ \<Rightarrow> True)"

text \<open>
  The runs of a transaction: each event adds or removes an asset that the vault accepts, and the
  tracker is told of it.
\<close>

inductive vault_run :: "prims \<Rightarrow> abs_vault \<Rightarrow> vault_tracker \<Rightarrow> abs_vault \<Rightarrow> bool" for P v0 where
  start: "vault_run P v0 vault_tracker_default v0"
| add: "vault_run P v0 (tracker_add_asset P t a) v'"
    if "vault_run P v0 t v" "asset_ok P a" "positive_asset a" "abs_add v a = (v', Ok b)"
| remove: "vault_run P v0 (tracker_remove_asset P t a) v'"
    if "vault_run P v0 t v" "asset_ok P a" "positive_asset a" "abs_remove v a = (v', Ok b)"

lemma balance_int_bounds: "vault_positive v \<Longrightarrow> 0 \<le> balance_int v f \<and> balance_int v f < 2 ^ 63"
  by (auto simp: balance_int_def vault_positive_def split: option.split)

lemma fungible_amount_bound: "fungible_ok P a \<Longrightarrow> uint (fa_amount a) < 2 ^ 63"
  by (simp add: fungible_ok_def le_MAX_AMOUNT_iff) (metis of_nat_less_iff of_nat_numeral uint_nat)

lemma update_fungible:
  assumes "\<And>f. map_of m f = nonzero (balance_int v f - balance_int v0 f)" "vault_positive v" "vault_positive v0"
    "amount \<noteq> 0" "\<bar>amount\<bar> < 2 ^ 63" "\<And>g. balance_int v' g = balance_int v g + (if g = f then amount else 0)"
  shows "map_of (update_asset_delta 128 le m f amount) g = nonzero (balance_int v' g - balance_int v0 g)"
proof -
  have small: "\<bar>balance_int v f - balance_int v0 f\<bar> < 2 ^ 63"
    using balance_int_bounds [OF assms(2), of f] balance_int_bounds [OF assms(3), of f] by auto
  have "map_of (update_asset_delta 128 le m f amount) = (map_of m)(f :=
    (let k = (case map_of m f of None \<Rightarrow> 0 | Some x \<Rightarrow> x) + amount in if k = 0 then None else Some k))"
  proof (rule map_of_update_asset_delta [OF _ _ assms(4)])
    show "wrap_signed 128 (- amount) = - amount" using assms(5) by (intro wrap_signed_128) simp
    show "wrap_signed 128 (x + amount) = x + amount" if "map_of m f = Some x" for x
      using that small assms(1,5) by (intro wrap_signed_128) (auto simp: nonzero_def split: if_splits)
  qed
  then show ?thesis using assms(1,6) by (auto simp: nonzero_def Let_def)
qed

lemma update_nft:
  assumes "\<And>n. map_of m (nfa_word n) = nonzero (nft_change v0 v n)" "amount = 1 \<or> amount = - 1"
    "\<And>k. nft_change v0 v' k = nft_change v0 v k + (if k = n then amount else 0)"
  shows "map_of (update_asset_delta 8 le m (nfa_word n) amount) (nfa_word k) = nonzero (nft_change v0 v' k)"
proof -
  have "map_of (update_asset_delta 8 le m (nfa_word n) amount) = (map_of m)(nfa_word n :=
    (let k = (case map_of m (nfa_word n) of None \<Rightarrow> 0 | Some x \<Rightarrow> x) + amount in if k = 0 then None else Some k))"
  proof (rule map_of_update_asset_delta)
    show "wrap_signed 8 (- amount) = - amount" using assms(2) by (intro wrap_signed_8) auto
    show "wrap_signed 8 (x + amount) = x + amount" if "map_of m (nfa_word n) = Some x" for x
      using that assms(1,2) by (intro wrap_signed_8) (auto simp: nonzero_def nft_change_def split: if_splits)
  qed (use assms(2) in auto)
  moreover have "nfa_word k = nfa_word n \<longleftrightarrow> k = n" by (metis non_fungible_asset.expand)
  ultimately show ?thesis using assms(1,3) by (auto simp: nonzero_def Let_def)
qed

context key_order
begin

lemma update_order: "btree_ok m \<Longrightarrow> btree_ok (update_asset_delta w le m k x)"
  by (auto simp: update_asset_delta_def btree_ok_insert btree_ok_remove split: option.split)

end

section \<open>The tracker follows the vault\<close>

lemma uint_add_small: "unat x + unat y < 2 ^ 63 \<Longrightarrow> uint (x + y) = uint x + uint y \<and> uint (x + y) < 2 ^ 63" for x y :: u64
proof -
  assume less: "unat x + unat y < 2 ^ 63"
  then have "unat (x + y) = unat x + unat y" by (simp add: unat_word_ariths)
  then have "int (unat (x + y)) = int (unat x) + int (unat y)" "int (unat (x + y)) < int (2 ^ 63)"
    using less by (simp_all only: of_nat_add of_nat_less_iff)
  then show ?thesis by simp
qed

lemma uint_sub_le: "y \<le> x \<Longrightarrow> uint (x - y) = uint x - uint y" for x y :: u64
  by (simp add: uint_minus_simple_alt)

lemma abs_add_fungible:
  assumes "abs_add v (Fungible a) = (v', Ok b)" "vault_positive v" "fungible_ok P a" "fa_amount a \<noteq> 0"
  shows "balance_int v' g = balance_int v g + (if g = fa_faucet_id a then uint (fa_amount a) else 0)"
    "av_nfts v' = av_nfts v" "vault_positive v'"
proof -
  let ?f = "fa_faucet_id a"
  have amount: "uint (fa_amount a) < 2 ^ 63" "account_type ?f = FungibleFaucet"
    using fungible_amount_bound [OF assms(3)] assms(3) by (auto simp: fungible_ok_def)
  obtain c where v': "v' = v\<lparr>av_balance := (av_balance v)(?f \<mapsto> c)\<rparr>"
    and c: "uint c = balance_int v ?f + uint (fa_amount a)" "uint c < 2 ^ 63"
  proof (cases "av_balance v ?f")
    case None
    with assms(1) amount that show ?thesis by (auto simp: balance_int_def)
  next
    case (Some x)
    with assms(1) have "unat x + unat (fa_amount a) < 2 ^ 63" "v' = v\<lparr>av_balance := (av_balance v)(?f \<mapsto> x + fa_amount a)\<rparr>"
      by (auto split: if_splits)
    with uint_add_small [of x "fa_amount a"] Some that show ?thesis by (auto simp: balance_int_def)
  qed
  show "balance_int v' g = balance_int v g + (if g = ?f then uint (fa_amount a) else 0)"
    using c by (auto simp: v' balance_int_def)
  show "av_nfts v' = av_nfts v" by (simp add: v')
  have "0 \<le> balance_int v ?f" using balance_int_bounds [OF assms(2)] by simp
  then have "c \<noteq> 0" using c(1) assms(4) by (auto simp: word_uint_eq_iff) (metis add_nonneg_eq_0_iff uint_0_iff uint_ge_0)
  then show "vault_positive v'" using assms(2) amount c by (auto simp: v' vault_positive_def)
qed

lemma abs_remove_fungible:
  assumes "abs_remove v (Fungible a) = (v', Ok b)" "vault_positive v"
  shows "balance_int v' g = balance_int v g + (if g = fa_faucet_id a then - uint (fa_amount a) else 0)"
    "av_nfts v' = av_nfts v" "vault_positive v'"
proof -
  let ?f = "fa_faucet_id a"
  obtain x where x: "av_balance v ?f = Some x" "fa_amount a \<le> x"
    and v': "v' = v\<lparr>av_balance := (av_balance v)(?f := if x = fa_amount a then None else Some (x - fa_amount a))\<rparr>"
    using assms(1) by (auto split: option.splits if_splits)
  note diff = uint_sub_le [OF x(2)]
  show "balance_int v' g = balance_int v g + (if g = ?f then - uint (fa_amount a) else 0)"
    using diff x(1) by (auto simp: v' balance_int_def)
  show "av_nfts v' = av_nfts v" by (simp add: v')
  have "uint x < 2 ^ 63" "account_type ?f = FungibleFaucet" using assms(2) x(1) unfolding vault_positive_def by blast+
  moreover have "uint (x - fa_amount a) \<le> uint x" using diff uint_ge_0 [of "fa_amount a"] by linarith
  ultimately have "uint (x - fa_amount a) < 2 ^ 63" "account_type ?f = FungibleFaucet" by linarith+
  then show "vault_positive v'" using assms(2) by (auto simp: v' vault_positive_def)
qed

lemma tracks_default: "tracks P vault_tracker_default v v"
  by (simp add: tracks_def vault_tracker_default_def nonzero_def nft_change_def)

lemma tracks_fungible:
  assumes "hash_spec P" "tracks P t v0 v" "vault_positive v" "vault_positive v0" "amount \<noteq> 0" "\<bar>amount\<bar> < 2 ^ 63"
    "\<And>g. balance_int v' g = balance_int v g + (if g = f then amount else 0)" "av_nfts v' = av_nfts v"
  shows "tracks P (t\<lparr>vt_fungible := update_asset_delta 128 (\<le>) (vt_fungible t) f amount\<rparr>) v0 v'"
  using assms update_fungible [of "vt_fungible t" v v0 amount v' f "(\<le>)"]
    linear.update_order [of "vt_fungible t" 128 f amount]
  by (simp add: tracks_def nft_change_def)

lemma tracks_nft:
  assumes "hash_spec P" "tracks P t v0 v" "amount = 1 \<or> amount = - 1"
    "\<And>k. nft_change v0 v' k = nft_change v0 v k + (if k = n then amount else 0)" "av_balance v' = av_balance v"
  shows "tracks P (t\<lparr>vt_non_fungible := update_asset_delta 8 (digest_le P) (vt_non_fungible t) (non_fungible_vault_key n) amount\<rparr>) v0 v'"
proof -
  have "key_order (digest_le P)" using assms(1) by unfold_locales
     (use hash_spec.digest_le_antisym hash_spec.digest_le_trans hash_spec.digest_le_total in blast)+
  from key_order.update_order [OF this, of "vt_non_fungible t" 8 "nfa_word n" amount] assms
    update_nft [of "vt_non_fungible t" v0 v amount v' n "digest_le P"]
  show ?thesis by (simp add: tracks_def balance_int_def non_fungible_vault_key_def)
qed

lemma vault_run_tracks:
  assumes "hash_spec P" "vault_positive v0" "vault_run P v0 t v"
  shows "tracks P t v0 v \<and> vault_positive v"
  using assms(3)
proof (induction rule: vault_run.induct)
  case start
  then show ?case by (simp add: tracks_default assms(2))
next
  case (add t v a v' b)
  show ?case
  proof (cases a)
    case (Fungible x)
    with add have x: "fungible_ok P x" "fa_amount x \<noteq> 0" by (simp_all add: positive_asset_def)
    note step = abs_add_fungible [OF add.hyps(4) [unfolded Fungible] _ x]
    have "uint (fa_amount x) \<noteq> 0" "\<bar>uint (fa_amount x)\<bar> < 2 ^ 63"
      using x(2) fungible_amount_bound [OF x(1)] by (simp_all add: uint_0_iff)
    with add.IH step show ?thesis
      using tracks_fungible [OF assms(1) _ _ assms(2), of t v "uint (fa_amount x)" v' "fa_faucet_id x"] by (simp add: Fungible)
  next
    case (NonFungible n)
    with add.hyps(4) have v': "n \<notin> av_nfts v" "v' = v\<lparr>av_nfts := insert n (av_nfts v)\<rparr>" by (auto split: if_splits)
    have "nft_change v0 v' k = nft_change v0 v k + (if k = n then 1 else 0)" for k using v' by (auto simp: nft_change_def)
    from tracks_nft [OF assms(1) _ _ this] add.IH v'(2) show ?thesis by (simp add: NonFungible vault_positive_def)
  qed
next
  case (remove t v a v' b)
  show ?case
  proof (cases a)
    case (Fungible x)
    with remove have x: "fungible_ok P x" "fa_amount x \<noteq> 0" by (simp_all add: positive_asset_def)
    note step = abs_remove_fungible [OF remove.hyps(4) [unfolded Fungible]]
    have amount: "- uint (fa_amount x) \<noteq> 0" "\<bar>- uint (fa_amount x)\<bar> < 2 ^ 63"
      using x(2) fungible_amount_bound [OF x(1)] by (simp_all add: uint_0_iff)
    moreover have "wrap_signed 128 (- uint (fa_amount x)) = - uint (fa_amount x)"
      using amount(2) by (intro wrap_signed_128) simp
    ultimately show ?thesis
      using remove.IH step tracks_fungible [OF assms(1) _ _ assms(2), of t v "- uint (fa_amount x)" v' "fa_faucet_id x"]
      by (simp add: Fungible)
  next
    case (NonFungible n)
    with remove.hyps(4) have v': "n \<in> av_nfts v" "v' = v\<lparr>av_nfts := av_nfts v - {n}\<rparr>" by (auto split: if_splits)
    have "nft_change v0 v' k = nft_change v0 v k + (if k = n then - 1 else 0)" for k using v' by (auto simp: nft_change_def)
    from tracks_nft [OF assms(1) _ _ this] remove.IH v'(2) show ?thesis by (simp add: NonFungible vault_positive_def)
  qed
qed

section \<open>The vault delta of a tracker\<close>

definition fungible_of :: "account_id \<times> int \<Rightarrow> asset" where
  "fungible_of e = Fungible \<lparr> fa_faucet_id = fst e, fa_amount = of_int \<bar>snd e\<bar> \<rparr>"

definition nft_of :: "digest \<times> int \<Rightarrow> asset" where
  "nft_of e = NonFungible (NonFungibleAsset (fst e))"

definition changes :: "(int \<Rightarrow> bool) \<Rightarrow> vault_tracker \<Rightarrow> asset list" where
  "changes Q t = map fungible_of (filter (\<lambda>e. Q (snd e)) (vt_fungible t))
     @ map nft_of (filter (\<lambda>e. Q (snd e)) (vt_non_fungible t))"

lemma fungible_new_amount:
  "fungible_new f (of_int \<bar>k\<bar>) = (if account_type f = FungibleFaucet \<and> \<bar>k\<bar> mod 2 ^ 64 < 2 ^ 63
     then Ok \<lparr> fa_faucet_id = f, fa_amount = of_int \<bar>k\<bar> \<rparr> else fungible_new f (of_int \<bar>k\<bar>)) \<and>
   (\<not> (account_type f = FungibleFaucet \<and> \<bar>k\<bar> mod 2 ^ 64 < 2 ^ 63) \<longrightarrow> (\<exists>e. fungible_new f (of_int \<bar>k\<bar>) = Err e))"
proof -
  have "int (unat (of_int \<bar>k\<bar> :: u64)) = \<bar>k\<bar> mod 2 ^ 64" by (simp add: uint_word_of_int_eq take_bit_eq_mod)
  then have "(of_int \<bar>k\<bar> :: u64) \<le> MAX_AMOUNT \<longleftrightarrow> \<bar>k\<bar> mod 2 ^ 64 < 2 ^ 63"
    unfolding le_MAX_AMOUNT_iff by (metis of_nat_less_iff of_nat_numeral of_nat_power)
  then show ?thesis by (auto simp: fungible_new_def fungible_validate_def Let_def not_less)
qed

lemma push_fungible_Ok:
  "push_fungible A R es = Ok x \<longleftrightarrow> (\<forall>(f, k) \<in> set es. account_type f = FungibleFaucet \<and> \<bar>k\<bar> mod 2 ^ 64 < 2 ^ 63) \<and>
     x = (A @ map fungible_of (filter (\<lambda>e. snd e > 0) es), R @ map fungible_of (filter (\<lambda>e. \<not> snd e > 0) es))"
proof (induction es arbitrary: A R)
  case (Cons e es)
  obtain f k where e: "e = (f, k)" by fastforce
  show ?case
  proof (cases "account_type f = FungibleFaucet \<and> \<bar>k\<bar> mod 2 ^ 64 < 2 ^ 63")
    case True
    then have "fungible_new f (of_int \<bar>k\<bar>) = Ok \<lparr> fa_faucet_id = f, fa_amount = of_int \<bar>k\<bar> \<rparr>" using fungible_new_amount [of f k] by simp
    then show ?thesis using True Cons.IH by (simp add: e fungible_of_def)
  next
    case False
    then obtain x where "fungible_new f (of_int \<bar>k\<bar>) = Err x" using fungible_new_amount [of f k] by auto
    then show ?thesis using False by (auto simp: e)
  qed
qed auto

lemma push_non_fungible_Ok:
  "push_non_fungible A R es = Ok x \<longleftrightarrow> (\<forall>(n, k) \<in> set es. k = 1 \<or> k = - 1) \<and>
     x = (A @ map nft_of (filter (\<lambda>e. snd e > 0) es), R @ map nft_of (filter (\<lambda>e. \<not> snd e > 0) es))"
proof (induction es arbitrary: A R)
  case (Cons e es)
  obtain n k where e: "e = (n, k)" by fastforce
  consider "k = 1" | "k = - 1" | "k \<noteq> 1" "k \<noteq> - 1" by blast
  then show ?case by cases (simp_all add: e Cons.IH nft_of_def)
qed auto

lemma push_no_Err: "push_fungible A R es \<noteq> Err e" "push_non_fungible A R ns \<noteq> Err e"
proof -
  show "push_fungible A R es \<noteq> Err e"
  proof (induction es arbitrary: A R)
    case (Cons x es)
    obtain f k where x: "x = (f, k)" by fastforce
    show ?case using Cons.IH by (cases "fungible_new f (of_int \<bar>k\<bar>) :: (fungible_asset, asset_error) result") (auto simp: x)
  qed simp
  show "push_non_fungible A R ns \<noteq> Err e" by (induction A R ns rule: push_non_fungible.induct) auto
qed

text \<open>Exactly when the changes of the vault can be turned into a delta, and into which.\<close>

definition vault_changes_ok :: "vault_tracker \<Rightarrow> bool" where
  "vault_changes_ok t \<longleftrightarrow> (\<forall>(f, k) \<in> set (vt_fungible t). account_type f = FungibleFaucet \<and> \<bar>k\<bar> mod 2 ^ 64 < 2 ^ 63) \<and>
     (\<forall>(n, k) \<in> set (vt_non_fungible t). k = 1 \<or> k = - 1)"

lemma vault_into_delta_Ok:
  "vault_into_delta t = Ok vd \<longleftrightarrow> vault_changes_ok t \<and>
     vd = \<lparr> added_assets = changes (\<lambda>k. k > 0) t, removed_assets = changes (\<lambda>k. \<not> k > 0) t \<rparr>"
  by (auto simp: vault_into_delta_def res_simps push_fungible_Ok push_non_fungible_Ok changes_def vault_changes_ok_def)

lemma vault_into_delta_no_Err: "vault_into_delta t \<noteq> (Err e :: (vault_delta, 'a) result)"
proof
  assume err: "vault_into_delta t = Err e"
  show False
  proof (cases "push_fungible [] [] (vt_fungible t) :: (asset list \<times> asset list, 'a) result")
    case (Ok x)
    then show False using err push_no_Err(2) [of "fst x" "snd x" "vt_non_fungible t" e]
      by (cases "push_non_fungible (fst x) (snd x) (vt_non_fungible t) :: (asset list \<times> asset list, 'a) result")
        (auto simp: vault_into_delta_def split_def)
  next
    case (Err x)
    then show False using push_no_Err(1) [of "[]" "[]" "vt_fungible t" x] by simp
  next
    case (Panic x)
    then show False using err by (simp add: vault_into_delta_def)
  qed
qed

lemma map_of_filter_snd:
  "distinct (map fst es) \<Longrightarrow> map_of (filter (\<lambda>e. Q (snd e)) es) k = (case map_of es k of None \<Rightarrow> None | Some x \<Rightarrow> if Q x then Some x else None)"
proof (induction es)
  case (Cons e es)
  have "map_of es (fst e) = None" using Cons.prems by (simp add: map_of_eq_None_iff)
  then show ?case using Cons by auto
qed simp

lemma amount_of_changes:
  assumes "distinct (map fst (vt_fungible t))"
  shows "amount_of (changes Q t) f = (case map_of (vt_fungible t) f of None \<Rightarrow> None
    | Some k \<Rightarrow> if Q k then Some (of_int \<bar>k\<bar>) else None)"
proof -
  have nfts: "amount_of (map nft_of ns) f = None" for ns by (induction ns) (simp_all add: nft_of_def)
  have "amount_of (map fungible_of es @ map nft_of ns) f = map_option (\<lambda>k. of_int \<bar>k\<bar>) (map_of es f)" for es ns
    by (induction es) (auto simp: fungible_of_def nfts)
  then show ?thesis by (simp add: changes_def map_of_filter_snd [OF assms] split: option.split)
qed

lemma set_changes:
  assumes "distinct (map fst (vt_fungible t))" "distinct (map fst (vt_non_fungible t))"
  shows "a \<in> set (changes Q t) \<longleftrightarrow>
    (\<exists>f k. a = fungible_of (f, k) \<and> map_of (vt_fungible t) f = Some k \<and> Q k) \<or>
    (\<exists>n k. a = NonFungible n \<and> map_of (vt_non_fungible t) (nfa_word n) = Some k \<and> Q k)"
  using assms by (force simp: changes_def nft_of_def)

lemma tracks_distinct:
  assumes "hash_spec P" "tracks P t v0 v"
  shows "distinct (map fst (vt_fungible t))" "distinct (map fst (vt_non_fungible t))"
proof -
  have "key_order (digest_le P)" using assms(1) by unfold_locales
     (use hash_spec.digest_le_antisym hash_spec.digest_le_trans hash_spec.digest_le_total in blast)+
  then show "distinct (map fst (vt_fungible t))" "distinct (map fst (vt_non_fungible t))"
    using assms(2) linear.btree_ok_distinct [of "vt_fungible t"] key_order.btree_ok_distinct [of "digest_le P" "vt_non_fungible t"]
    by (simp_all add: tracks_def)
qed

lemma nft_change_cases: "nft_change v0 v n = 0 \<or> nft_change v0 v n = 1 \<or> nft_change v0 v n = - 1"
  by (auto simp: nft_change_def)

lemma tracks_fungible_entry:
  assumes "tracks P t v0 v" "vault_positive v0" "vault_positive v" "map_of (vt_fungible t) f = Some k"
  shows "k = balance_int v f - balance_int v0 f" "k \<noteq> 0" "\<bar>k\<bar> < 2 ^ 63" "account_type f = FungibleFaucet"
proof -
  have k: "k = balance_int v f - balance_int v0 f" "k \<noteq> 0"
    using assms(1,4) by (auto simp: tracks_def nonzero_def split: if_splits)
  then show "k = balance_int v f - balance_int v0 f" "k \<noteq> 0" by simp_all
  show "\<bar>k\<bar> < 2 ^ 63" using k balance_int_bounds [OF assms(2), of f] balance_int_bounds [OF assms(3), of f] by auto
  from k have "av_balance v f \<noteq> None \<or> av_balance v0 f \<noteq> None" by (auto simp: balance_int_def split: option.splits)
  with assms(2,3) show "account_type f = FungibleFaucet" by (auto simp: vault_positive_def)
qed

lemma tracks_nft_entry:
  "tracks P t v0 v \<Longrightarrow> map_of (vt_non_fungible t) (nfa_word n) = Some k \<Longrightarrow> nft_change v0 v n = k \<and> k \<noteq> 0"
  by (auto simp: tracks_def nonzero_def split: if_splits)

lemma uint_of_small_int: "\<bar>k\<bar> < 2 ^ 63 \<Longrightarrow> uint (of_int \<bar>k\<bar> :: u64) = \<bar>k\<bar>"
  by (simp add: uint_word_of_int_eq take_bit_int_eq_self)

lemma unat_add_less:
  fixes x y :: u64
  assumes "uint x + uint y < 2 ^ 63"
  shows "unat x + unat y < 2 ^ 63"
proof -
  have "int (unat x + unat y) < int (2 ^ 63)" using assms by simp
  then show ?thesis by (simp only: of_nat_less_iff)
qed

lemma into_delta_changes:
  assumes "hash_spec P" "tracks P t v0 v" "vault_positive v0" "vault_positive v"
  shows "vault_into_delta t = Ok \<lparr> added_assets = changes (\<lambda>k. k > 0) t, removed_assets = changes (\<lambda>k. \<not> k > 0) t \<rparr>"
proof -
  note distinct = tracks_distinct [OF assms(1,2)]
  have "account_type f = FungibleFaucet \<and> \<bar>k\<bar> mod 2 ^ 64 < 2 ^ 63" if "(f, k) \<in> set (vt_fungible t)" for f k
    using tracks_fungible_entry [OF assms(2-4), of f k] distinct(1) that by simp
  moreover have "k = 1 \<or> k = - 1" if "(n, k) \<in> set (vt_non_fungible t)" for n k
  proof -
    have "map_of (vt_non_fungible t) (nfa_word (NonFungibleAsset n)) = Some k" using distinct(2) that by simp
    from tracks_nft_entry [OF assms(2) this] nft_change_cases [of v0 v "NonFungibleAsset n"] show ?thesis by auto
  qed
  ultimately show ?thesis unfolding vault_into_delta_Ok vault_changes_ok_def by blast
qed

lemma tracks_applicable:
  assumes "hash_spec P" "tracks P t v0 v" "vault_positive v0" "vault_positive v"
  shows "list_all (can_add v0) (changes (\<lambda>k. k > 0) t)" "list_all (can_remove v0) (changes (\<lambda>k. \<not> k > 0) t)"
proof -
  note distinct = tracks_distinct [OF assms(1,2)]
  note entry = tracks_fungible_entry [OF assms(2-4)]
  have nft_add: "n \<notin> av_nfts v0" if "map_of (vt_non_fungible t) (nfa_word n) = Some k" "k > 0" for n k
    using tracks_nft_entry [OF assms(2) that(1)] that(2) by (auto simp: nft_change_def of_bool_def split: if_splits)
  have nft_rem: "n \<in> av_nfts v0" if "map_of (vt_non_fungible t) (nfa_word n) = Some k" "\<not> k > 0" for n k
    using tracks_nft_entry [OF assms(2) that(1)] that(2) by (auto simp: nft_change_def of_bool_def split: if_splits)
  have add: "can_add v0 (fungible_of (f, k))" if "map_of (vt_fungible t) f = Some k" "k > 0" for f k
  proof (cases "av_balance v0 f")
    case (Some b)
    note f = entry [OF that(1)]
    have "uint b + uint (of_int \<bar>k\<bar> :: u64) < 2 ^ 63"
      using f(1) Some that(2) uint_of_small_int [OF f(3)] balance_int_bounds [OF assms(4), of f] by (simp add: balance_int_def)
    from unat_add_less [OF this] show ?thesis using Some by (simp add: fungible_of_def)
  qed (simp add: fungible_of_def)
  have rem: "can_remove v0 (fungible_of (f, k))" if "map_of (vt_fungible t) f = Some k" "\<not> k > 0" for f k
  proof -
    note f = entry [OF that(1)]
    have pos: "balance_int v0 f \<ge> \<bar>k\<bar>" "\<bar>k\<bar> > 0" using f that(2) balance_int_bounds [OF assms(4), of f] by auto
    then obtain b where "av_balance v0 f = Some b" "uint b \<ge> \<bar>k\<bar>" by (auto simp: balance_int_def split: option.splits)
    then show ?thesis using uint_of_small_int [OF f(3)] by (simp add: fungible_of_def word_le_def)
  qed
  show "list_all (can_add v0) (changes (\<lambda>k. k > 0) t)" unfolding list_all_iff
    using add nft_add by (auto simp: set_changes [OF distinct])
  show "list_all (can_remove v0) (changes (\<lambda>k. \<not> k > 0) t)" unfolding list_all_iff
    using rem nft_rem by (auto simp: set_changes [OF distinct])
qed

lemma nfts_of_changes:
  assumes "distinct (map fst (vt_non_fungible t))"
  shows "n \<in> nfts_of (changes Q t) \<longleftrightarrow> (\<exists>k. map_of (vt_non_fungible t) (nfa_word n) = Some k \<and> Q k)"
  using assms by (force simp: nfts_of_def changes_def fungible_of_def nft_of_def)

lemma balance_int_zero: "vault_positive v \<Longrightarrow> balance_int v f = 0 \<longleftrightarrow> av_balance v f = None"
  by (auto simp: balance_int_def vault_positive_def uint_0_iff split: option.splits)

lemma balance_int_inject:
  assumes "vault_positive v" "vault_positive v0" "balance_int v f = balance_int v0 f"
  shows "av_balance v f = av_balance v0 f"
proof (cases "av_balance v f")
  case None
  then show ?thesis using balance_int_zero [OF assms(1)] balance_int_zero [OF assms(2)] assms(3) by metis
next
  case (Some b)
  then obtain c where c: "av_balance v0 f = Some c"
    using balance_int_zero [OF assms(1)] balance_int_zero [OF assms(2)] assms(3) by (metis not_Some_eq)
  then have "uint b = uint c" using Some assms(3) by (simp add: balance_int_def)
  then show ?thesis using Some c by (simp add: word_uint_eq_iff)
qed

lemma tracks_balance:
  assumes "hash_spec P" "tracks P t v0 v" "vault_positive v0" "vault_positive v"
  shows "removed_balance (added_balance (av_balance v0 f) (amount_of (changes (\<lambda>k. k > 0) t) f))
    (amount_of (changes (\<lambda>k. \<not> k > 0) t) f) = av_balance v f"
proof (cases "map_of (vt_fungible t) f")
  case None
  then have "balance_int v f = balance_int v0 f" using assms(2) by (auto simp: tracks_def nonzero_def split: if_splits)
  then have "av_balance v f = av_balance v0 f" by (rule balance_int_inject [OF assms(4,3)])
  then show ?thesis by (simp add: amount_of_changes [OF tracks_distinct(1) [OF assms(1,2)]] None)
next
  case (Some k)
  note k = tracks_fungible_entry [OF assms(2-4) Some]
  note uk = uint_of_small_int [OF k(3)]
  note amounts = amount_of_changes [OF tracks_distinct(1) [OF assms(1,2)]]
  have bv: "balance_int v f < 2 ^ 63" "0 \<le> balance_int v f" using balance_int_bounds [OF assms(4)] by auto
  show ?thesis
  proof (cases "k > 0")
    case True
    then obtain c where c: "av_balance v f = Some c" "uint c = balance_int v0 f + k"
      using k(1) balance_int_bounds [OF assms(3), of f] by (auto simp: balance_int_def split: option.splits)
    show ?thesis
    proof (cases "av_balance v0 f")
      case None
      with c uk True have "c = of_int k" by (auto simp: balance_int_def word_uint_eq_iff)
      with None c True Some show ?thesis by (simp add: amounts added_balance_def)
    next
      case b: (Some b)
      have "uint b + uint (of_int \<bar>k\<bar> :: u64) < 2 ^ 63" using b c bv(1) uk True by (simp add: balance_int_def)
      from uint_add_small [OF unat_add_less [OF this]] have "uint (b + of_int k) = uint b + k" using uk True by simp
      then have "b + of_int k = c" using c b by (simp add: balance_int_def word_uint_eq_iff)
      with b c True Some show ?thesis by (simp add: amounts added_balance_def)
    qed
  next
    case False
    then have k0: "balance_int v0 f = balance_int v f + \<bar>k\<bar>" "balance_int v0 f \<noteq> 0" using k(1,2) bv by auto
    then obtain b where b: "av_balance v0 f = Some b" "uint b = balance_int v f + \<bar>k\<bar>"
      by (cases "av_balance v0 f") (simp_all add: balance_int_def)
    have le: "of_int \<bar>k\<bar> \<le> b" using b bv uk by (simp add: word_le_def)
    have diff: "uint (b - of_int \<bar>k\<bar>) = balance_int v f" using uint_sub_le [OF le] b uk by simp
    show ?thesis
    proof (cases "av_balance v f")
      case None
      with b uk have "b = of_int \<bar>k\<bar>" by (simp add: balance_int_def word_uint_eq_iff)
      with b None False Some show ?thesis by (simp add: amounts removed_balance_def)
    next
      case c: (Some c)
      have "c \<noteq> 0" using assms(4) c by (auto simp: vault_positive_def)
      moreover have eq: "b - of_int \<bar>k\<bar> = c" using diff c by (simp add: balance_int_def word_uint_eq_iff)
      ultimately have "b \<noteq> of_int \<bar>k\<bar>" by auto
      with eq show ?thesis using b c False Some by (simp add: amounts removed_balance_def)
    qed
  qed
qed

lemma tracks_result:
  assumes "hash_spec P" "tracks P t v0 v" "vault_positive v0" "vault_positive v"
  shows "vault_delta_result v0 \<lparr> added_assets = changes (\<lambda>k. k > 0) t, removed_assets = changes (\<lambda>k. \<not> k > 0) t \<rparr> = v"
proof -
  have "n \<in> av_nfts v0 \<union> nfts_of (changes (\<lambda>k. k > 0) t) - nfts_of (changes (\<lambda>k. \<not> k > 0) t) \<longleftrightarrow> n \<in> av_nfts v" for n
  proof -
    have "map_of (vt_non_fungible t) (nfa_word n) = nonzero (nft_change v0 v n)" using assms(2) by (simp add: tracks_def)
    then show ?thesis
      by (auto simp: nfts_of_changes [OF tracks_distinct(2) [OF assms(1,2)]] nonzero_def nft_change_def of_bool_def)
  qed
  then show ?thesis using tracks_balance [OF assms]
    by (auto simp: vault_delta_result_def add_all_def remove_all_def intro!: abs_vault.equality)
qed

section \<open>Valid deltas\<close>

text \<open>Everything in the tracker comes from a well-formed asset.\<close>

definition tracker_ok :: "prims \<Rightarrow> vault_tracker \<Rightarrow> bool" where
  "tracker_ok P t \<longleftrightarrow> (\<forall>f \<in> fst ` set (vt_fungible t). account_id_ok P f) \<and>
     (\<forall>n \<in> fst ` set (vt_non_fungible t). non_fungible_ok P (NonFungibleAsset n))"

lemma update_asset_delta_keys: "fst ` set (update_asset_delta w le m k x) \<subseteq> insert k (fst ` set m)"
  unfolding update_asset_delta_def by (cases "map_of m k") (simp_all add: subset_insertI2)

lemma tracker_ok_add: "tracker_ok P t \<Longrightarrow> asset_ok P a \<Longrightarrow> tracker_ok P (tracker_add_asset P t a)"
  using update_asset_delta_keys [of 128 "(\<le>)" "vt_fungible t"] update_asset_delta_keys [of 8 "digest_le P" "vt_non_fungible t"]
  by (cases a) (fastforce simp: tracker_ok_def fungible_ok_def non_fungible_vault_key_def)+

lemma tracker_ok_remove: "tracker_ok P t \<Longrightarrow> asset_ok P a \<Longrightarrow> tracker_ok P (tracker_remove_asset P t a)"
  using update_asset_delta_keys [of 128 "(\<le>)" "vt_fungible t"] update_asset_delta_keys [of 8 "digest_le P" "vt_non_fungible t"]
  by (cases a) (fastforce simp: tracker_ok_def fungible_ok_def non_fungible_vault_key_def)+

lemma vault_run_ok: "vault_run P v0 t v \<Longrightarrow> tracker_ok P t"
  by (induction rule: vault_run.induct)
    (auto simp: tracker_ok_add tracker_ok_remove, simp add: tracker_ok_def vault_tracker_default_def)

lemma changes_ok:
  assumes "tracker_ok P t" "list_all (\<lambda>e. account_type (fst e) = FungibleFaucet \<and> \<bar>snd e\<bar> < 2 ^ 63) (vt_fungible t)"
  shows "list_all (asset_ok P) (changes Q t)"
proof -
  have "fungible_ok P \<lparr> fa_faucet_id = fst e, fa_amount = of_int \<bar>snd e\<bar> \<rparr>" if "e \<in> set (vt_fungible t)" for e
  proof -
    have e: "account_type (fst e) = FungibleFaucet" "\<bar>snd e\<bar> < 2 ^ 63" "account_id_ok P (fst e)"
      using assms that by (auto simp: list_all_iff tracker_ok_def)
    have "uint (of_int \<bar>snd e\<bar> :: u64) + uint (0 :: u64) < 2 ^ 63" using uint_of_small_int [OF e(2)] e(2) by simp
    from unat_add_less [OF this] e show ?thesis by (simp add: fungible_ok_def le_MAX_AMOUNT_iff)
  qed
  then show ?thesis using assms(1) by (auto simp: changes_def list_all_iff fungible_of_def nft_of_def tracker_ok_def)
qed

fun asset_class :: "asset \<Rightarrow> account_id + non_fungible_asset" where
  "asset_class (Fungible a) = Inl (fa_faucet_id a)"
| "asset_class (NonFungible n) = Inr n"

lemma is_same_class: "is_same a b \<longleftrightarrow> asset_class a = asset_class b"
  by (cases a; cases b) (auto simp: is_from_same_faucet_def)

lemma no_same_distinct: "no_same as \<longleftrightarrow> distinct (map asset_class as)"
  by (induction as) (auto simp: is_same_class)

lemma changes_class: "map asset_class (changes Q t) =
  map (\<lambda>e. Inl (fst e)) (filter (\<lambda>e. Q (snd e)) (vt_fungible t)) @
  map (\<lambda>e. Inr (NonFungibleAsset (fst e))) (filter (\<lambda>e. Q (snd e)) (vt_non_fungible t))"
  by (simp add: changes_def fungible_of_def nft_of_def comp_def)

lemma changes_no_same:
  assumes "distinct (map fst (vt_fungible t))" "distinct (map fst (vt_non_fungible t))"
  shows "no_same (changes Q t @ changes (\<lambda>k. \<not> Q k) t)"
proof -
  have "inj_on fst (set (vt_fungible t))" "inj_on fst (set (vt_non_fungible t))" "distinct (vt_fungible t)" "distinct (vt_non_fungible t)"
    using assms by (auto simp: distinct_map)
  then show ?thesis unfolding no_same_distinct map_append changes_class by (auto simp: distinct_map inj_on_def)
qed

lemma changes_length: "length (changes Q t) \<le> length (vt_fungible t) + length (vt_non_fungible t)"
  by (simp add: changes_def add_mono)

lemma changes_empty: "changes Q t = [] \<and> changes (\<lambda>k. \<not> Q k) t = [] \<longleftrightarrow> vt_fungible t = [] \<and> vt_non_fungible t = []"
proof -
  have "filter (\<lambda>e. Q (snd e)) (vt_fungible t) = [] \<and> filter (\<lambda>e. \<not> Q (snd e)) (vt_fungible t) = [] \<longleftrightarrow> vt_fungible t = []"
    by (cases "vt_fungible t") auto
  moreover have "filter (\<lambda>e. Q (snd e)) (vt_non_fungible t) = [] \<and> filter (\<lambda>e. \<not> Q (snd e)) (vt_non_fungible t) = []
      \<longleftrightarrow> vt_non_fungible t = []"
    by (cases "vt_non_fungible t") auto
  ultimately show ?thesis unfolding changes_def append_is_Nil_conv map_is_Nil_conv by argo
qed

section \<open>Storage and nonce\<close>

lemma push_slots_eq: "push_slots c u us = \<lparr> cleared_items = c @ map fst (filter (\<lambda>e. snd e = EMPTY_WORD) us),
   updated_items = u @ filter (\<lambda>e. snd e \<noteq> EMPTY_WORD) us \<rparr>"
  by (induction us arbitrary: c u) auto

lemma storage_into_delta_slots:
  assumes "distinct (map fst (slot_updates t))"
  shows "delta_slots (storage_into_delta t) f i = (case map_of (slot_updates t) i of None \<Rightarrow> f i | Some v \<Rightarrow> v)"
proof -
  have "i \<in> fst ` set (filter (\<lambda>e. snd e = EMPTY_WORD) (slot_updates t)) \<longleftrightarrow> map_of (slot_updates t) i = Some EMPTY_WORD"
    using assms by force
  then show ?thesis using map_of_filter_snd [OF assms, of "\<lambda>w. w \<noteq> EMPTY_WORD" i]
    by (auto simp: delta_slots_def storage_into_delta_def push_slots_eq split: option.splits)
qed

definition track_slots :: "(u8 \<times> word4) list \<Rightarrow> storage_tracker" where
  "track_slots us = foldl (\<lambda>t (i, w). slot_update t i w) \<lparr> slot_updates = [] \<rparr> us"

lemma track_slots_order: "linear.btree_ok (slot_updates (track_slots us))"
  by (induction us rule: rev_induct) (auto simp: track_slots_def slot_update_def linear.btree_ok_insert)

lemma track_slots_map: "map_of (slot_updates (track_slots us)) = map_of (rev us)"
  by (induction us rule: rev_induct) (auto simp: track_slots_def slot_update_def)

lemma track_slots_keys: "fst ` set (slot_updates (track_slots us)) = fst ` set us"
  using arg_cong [OF track_slots_map [of us], of dom] by (simp add: dom_map_of_conv_image_fst)

lemma distinct_u8_length:
  fixes xs :: "u8 list"
  assumes "distinct xs" "255 \<notin> set xs"
  shows "length xs \<le> 255"
proof -
  have "length xs = card (set xs)" using assms(1) by (simp add: distinct_card)
  also have "\<dots> \<le> card (UNIV - {255 :: u8})" using assms(2) by (intro card_mono) auto
  also have "\<dots> = 255" by (simp add: card_Diff_singleton card_word)
  finally show ?thesis .
qed

lemma slot_delta:
  fixes t :: storage_tracker
  defines "us \<equiv> slot_updates t" and "d \<equiv> storage_into_delta t"
  assumes dist: "distinct (map fst us)"
  shows "storage_delta_valid d \<longleftrightarrow> 255 \<notin> fst ` set us"
    "set (cleared_items d) \<union> fst ` set (updated_items d) = fst ` set us"
    "storage_delta_is_empty d \<longleftrightarrow> us = []"
proof -
  let ?c = "map fst (filter (\<lambda>e. snd e = EMPTY_WORD) us)" and ?u = "map fst (filter (\<lambda>e. snd e \<noteq> EMPTY_WORD) us)"
  have d: "d = \<lparr> cleared_items = ?c, updated_items = filter (\<lambda>e. snd e \<noteq> EMPTY_WORD) us \<rparr>"
    by (simp add: d_def us_def storage_into_delta_def push_slots_eq)
  have keys: "set (?c @ ?u) = fst ` set us" by auto
  then show "set (cleared_items d) \<union> fst ` set (updated_items d) = fst ` set us" unfolding d by simp
  have dist': "distinct (?c @ ?u)" using dist by (auto simp: distinct_map inj_on_def)
  have "length ?c \<le> 255 \<and> length ?u \<le> 255" if "255 \<notin> set (?c @ ?u)"
    using that dist' distinct_u8_length [of ?c] distinct_u8_length [of ?u] by simp
  with dist' have "storage_delta_valid d \<longleftrightarrow> 255 \<notin> set (?c @ ?u)"
    unfolding storage_delta_valid_def d Let_def by auto
  then show "storage_delta_valid d \<longleftrightarrow> 255 \<notin> fst ` set us" unfolding keys .
  have "storage_delta_is_empty d \<longleftrightarrow> ?c @ ?u = []" unfolding storage_delta_is_empty_def d by simp
  then have "storage_delta_is_empty d \<longleftrightarrow> set (?c @ ?u) = {}" by (simp only: set_empty)
  then show "storage_delta_is_empty d \<longleftrightarrow> us = []" unfolding keys by simp
qed

lemma track_slots_delta:
  assumes "255 \<notin> fst ` set us"
  shows "storage_delta_valid (storage_into_delta (track_slots us))"
    "set (cleared_items (storage_into_delta (track_slots us))) \<union> fst ` set (updated_items (storage_into_delta (track_slots us)))
       = fst ` set us"
    "list_all (\<lambda>e. word_ok P (snd e)) us \<Longrightarrow>
       list_all (\<lambda>e. word_ok P (snd e)) (updated_items (storage_into_delta (track_slots us)))"
    "storage_delta_is_empty (storage_into_delta (track_slots us)) \<longleftrightarrow> us = []"
proof -
  let ?us = "slot_updates (track_slots us)"
  have dist: "distinct (map fst ?us)" by (rule linear.btree_ok_distinct [OF track_slots_order])
  show "storage_delta_valid (storage_into_delta (track_slots us))"
    "set (cleared_items (storage_into_delta (track_slots us))) \<union> fst ` set (updated_items (storage_into_delta (track_slots us)))
       = fst ` set us"
    using slot_delta(1,2) [OF dist] assms by (simp_all only: track_slots_keys) simp
  have "?us = [] \<longleftrightarrow> us = []" using track_slots_keys [of us] by auto
  with slot_delta(3) [OF dist] show "storage_delta_is_empty (storage_into_delta (track_slots us)) \<longleftrightarrow> us = []" by simp
  show "list_all (\<lambda>e. word_ok P (snd e)) (updated_items (storage_into_delta (track_slots us)))"
    if "list_all (\<lambda>e. word_ok P (snd e)) us"
  proof -
    have "(i, w) \<in> set us" if "(i, w) \<in> set ?us" for i w
      using map_of_is_SomeI [OF dist that] map_of_SomeD [of "rev us" i w] by (simp add: track_slots_map)
    then show ?thesis using that by (fastforce simp: list_all_iff storage_into_delta_def push_slots_eq)
  qed
qed

lemma tracks_vault_delta:
  assumes "hash_spec P" "vault_run P v0 t v" "vault_positive v0" "length (vt_fungible t) + length (vt_non_fungible t) \<le> 65535"
  obtains vd where "vault_into_delta t = (Ok vd :: (vault_delta, 'e) result)" "vault_delta_valid vd" "vault_delta_applicable v0 vd"
    "vault_delta_result v0 vd = v" "list_all (asset_ok P) (added_assets vd @ removed_assets vd)"
    "vault_delta_is_empty vd \<longleftrightarrow> vt_fungible t = [] \<and> vt_non_fungible t = []"
proof -
  have t: "tracks P t v0 v" "vault_positive v" using vault_run_tracks [OF assms(1,3,2)] by simp_all
  note facts = assms(1) t(1) assms(3) t(2)
  let ?d = "\<lparr> added_assets = changes (\<lambda>k. k > 0) t, removed_assets = changes (\<lambda>k. \<not> k > 0) t \<rparr>"
  have ok: "list_all (\<lambda>e. account_type (fst e) = FungibleFaucet \<and> \<bar>snd e\<bar> < 2 ^ 63) (vt_fungible t)"
    using tracks_fungible_entry [OF t(1) assms(3) t(2)] tracks_distinct(1) [OF facts(1,2)] by (auto simp: list_all_iff)
  show thesis
  proof (rule that [of ?d])
    show "vault_into_delta t = Ok ?d" by (rule into_delta_changes [OF facts])
    show "vault_delta_valid ?d"
      using changes_no_same [OF tracks_distinct [OF facts(1,2)], of "\<lambda>k. k > 0"] assms(4)
        changes_length [of "\<lambda>k. k > 0" t] changes_length [of "\<lambda>k. \<not> k > 0" t]
      by (simp add: vault_delta_valid_def)
    show "vault_delta_applicable v0 ?d" using tracks_applicable [OF facts] by (simp add: vault_delta_applicable_def)
    show "vault_delta_result v0 ?d = v" by (rule tracks_result [OF facts])
    show "list_all (asset_ok P) (added_assets ?d @ removed_assets ?d)"
      using changes_ok [OF vault_run_ok [OF assms(2)] ok] by simp
    show "vault_delta_is_empty ?d \<longleftrightarrow> vt_fungible t = [] \<and> vt_non_fungible t = []"
      using changes_empty [of "\<lambda>k. k > 0" t] by (simp add: vault_delta_is_empty_def)
  qed
qed

lemma tracker_into_delta_no_Err: "tracker_into_delta P t \<noteq> (Err e :: (account_delta, 'a) result)"
proof
  assume "tracker_into_delta P t = Err e"
  then obtain vd nonce where "expect ''invalid account delta'' (account_delta_new (storage_into_delta (dt_storage t)) vd nonce) = Err e"
    using vault_into_delta_no_Err [of "dt_vault t" e]
    by (cases "vault_into_delta (dt_vault t) :: (vault_delta, 'a) result") (auto simp: tracker_into_delta_def Let_def)
  then show False by (cases "account_delta_new (storage_into_delta (dt_storage t)) vd nonce") simp_all
qed

lemma delta_tracker_into:
  assumes "vault_into_delta (dt_vault t) = (Ok vd :: (vault_delta, 'e) result)"
    "storage_delta_valid (storage_into_delta (dt_storage t))" "vault_delta_valid vd"
    "nonce = (if dt_nonce_delta t = 0 then None else Some (felt_add P (dt_init_nonce t) (dt_nonce_delta t)))"
  shows "tracker_into_delta P t = ((if nonce_valid nonce (storage_into_delta (dt_storage t)) vd
    then Ok \<lparr> ad_storage = storage_into_delta (dt_storage t), ad_vault = vd, ad_nonce = nonce \<rparr>
    else Panic ''invalid account delta'') :: (account_delta, 'e) result)"
proof -
  let ?sd = "storage_into_delta (dt_storage t)"
  have sd: "storage_delta_validate ?sd = Ok ()" "vault_delta_validate vd = Ok ()"
    using assms(2,3) by (simp_all add: storage_delta_validate_Ok vault_delta_validate_Ok)
  have "validate_nonce nonce ?sd vd = (if nonce_valid nonce ?sd vd then Ok () else validate_nonce nonce ?sd vd)"
    by (simp add: validate_nonce_Ok)
  moreover have "\<exists>e. validate_nonce nonce ?sd vd = Err e" if "\<not> nonce_valid nonce ?sd vd"
    using that by (auto simp: validate_nonce_def nonce_valid_def split: option.splits if_splits)
  ultimately have "expect ''invalid account delta'' (account_delta_new ?sd vd nonce) =
     ((if nonce_valid nonce ?sd vd then Ok \<lparr> ad_storage = ?sd, ad_vault = vd, ad_nonce = nonce \<rparr>
       else Panic ''invalid account delta'') :: (account_delta, 'e) result)"
    using sd by (auto simp: account_delta_new_def)
  then show ?thesis using assms(1,4) by (simp add: tracker_into_delta_def Let_def)
qed

text \<open>
  Whenever the tracker gives a delta, this delta can be applied and replays the run, provided that the
  nonce did not wrap around.
\<close>

lemma tracker_delta_applies:
  assumes spec: "account_spec P T S" and inv: "account_inv P T S a" and pos: "vault_positive (vault_abs T (acct_vault a))"
    and run: "vault_run P (vault_abs T (acct_vault a)) vt v"
    and size: "length (vt_fungible vt) + length (vt_non_fungible vt) \<le> 65535"
    and us: "list_all (\<lambda>(i, w). slot_mutable (acct_storage a) i \<and> word_ok P w) us"
    and nonce: "felt_ok P nd" "nd \<noteq> 0 \<Longrightarrow> acct_nonce a < felt_add P (acct_nonce a) nd"
    and d: "tracker_into_delta P \<lparr> dt_storage = track_slots us, dt_vault = vt, dt_init_nonce = acct_nonce a, dt_nonce_delta = nd \<rparr>
      = (Ok d :: (account_delta, 'e) result)"
  shows "\<exists>a'. account_apply_delta P T S a d = (a', Ok ()) \<and> vault_abs T (acct_vault a') = v \<and>
    (\<forall>i. slots_abs S (acct_storage a') i = (case map_of (rev us) i of None \<Rightarrow> slots_abs S (acct_storage a) i | Some w \<Rightarrow> w)) \<and>
    acct_nonce a' = felt_add P (acct_nonce a) nd \<and> acct_id a' = acct_id a \<and> acct_code a' = acct_code a \<and> account_inv P T S a'"
proof -
  have laws: "hash_spec P" "felt_spec P" using spec by (simp_all add: account_spec_def storage_spec_def)
  let ?t = "\<lparr> dt_storage = track_slots us, dt_vault = vt, dt_init_nonce = acct_nonce a, dt_nonce_delta = nd \<rparr>"
  let ?n = "felt_add P (acct_nonce a) nd" and ?sd = "storage_into_delta (track_slots us)"
  let ?nonce = "if nd = 0 then None else Some ?n"
  obtain vd where vd: "vault_into_delta vt = (Ok vd :: (vault_delta, 'e) result)" "vault_delta_valid vd"
    "vault_delta_applicable (vault_abs T (acct_vault a)) vd" "vault_delta_result (vault_abs T (acct_vault a)) vd = v"
    "list_all (asset_ok P) (added_assets vd @ removed_assets vd)"
    by (rule tracks_vault_delta [OF laws(1) run pos size])
  have us': "255 \<notin> fst ` set us" "list_all (\<lambda>e. word_ok P (snd e)) us" "\<forall>i \<in> fst ` set us. slot_mutable (acct_storage a) i"
    using us by (auto simp: list_all_iff slot_mutable_def)
  note sd = track_slots_delta [OF us'(1)]
  have "tracker_into_delta P ?t = ((if nonce_valid ?nonce ?sd vd then Ok \<lparr> ad_storage = ?sd, ad_vault = vd, ad_nonce = ?nonce \<rparr>
      else Panic ''invalid account delta'') :: (account_delta, 'e) result)"
    using vd(1,2) sd(1) by (subst delta_tracker_into [where vd = vd and nonce = ?nonce]) simp_all
  with d have nv: "nonce_valid ?nonce ?sd vd" and d_eq: "d = \<lparr> ad_storage = ?sd, ad_vault = vd, ad_nonce = ?nonce \<rparr>"
    by (auto split: if_splits)
  have "account_delta_valid d" using sd(1) vd(2) nv by (simp add: account_delta_valid_def d_eq)
  moreover have "account_delta_canonical P d"
  proof -
    have "felt_ok P ?n" using felt_spec.felt_add_mod [OF laws(2), of "acct_nonce a" nd] inv nonce(1) felt_spec.modulus_value [OF laws(2)]
      by (simp add: account_inv_def felt_ok_def word_less_nat_alt)
    with sd(3) [OF us'(2)] vd(5) show ?thesis by (simp add: account_delta_canonical_def d_eq)
  qed
  moreover have "account_delta_applicable T a d"
    using vd(3) nonce(2) us'(3) sd(2) by (auto simp: account_delta_applicable_def list_all_iff d_eq)
  moreover obtain a' r where app: "account_apply_delta P T S a d = (a', r)" by fastforce
  moreover have "delta_slots ?sd f i = (case map_of (rev us) i of None \<Rightarrow> f i | Some w \<Rightarrow> w)" for f i
    using storage_into_delta_slots [OF linear.btree_ok_distinct [OF track_slots_order]] by (simp add: track_slots_map)
  moreover have "nd = 0 \<Longrightarrow> ?n = acct_nonce a" using felt_spec.felt_add_0 [OF laws(2)] inv by (simp add: account_inv_def)
  ultimately show ?thesis
    using account_spec.account_apply_delta_result [OF spec inv _ _ app] vd(4) unfolding d_eq by (intro exI [of _ a']) auto
qed

section \<open>Properties\<close>

text \<open>
  The delta of a transaction replays it.  Take an account whose vault holds no zero balance, any
  run of asset events that the vault accepts, any writes to writable slots and a growing nonce.  The
  tracker turns them into a delta without a panic, and applying this delta to the initial account
  succeeds and gives a well-formed account with exactly the final vault, the last value written to
  every slot, and the incremented nonce.
\<close>

theorem tracker_delta_replays:
  assumes spec: "account_spec P T S" and inv: "account_inv P T S a" and pos: "vault_positive (vault_abs T (acct_vault a))"
    and run: "vault_run P (vault_abs T (acct_vault a)) vt v"
    and size: "length (vt_fungible vt) + length (vt_non_fungible vt) \<le> 65535"
    and us: "list_all (\<lambda>(i, w). slot_mutable (acct_storage a) i \<and> word_ok P w) us"
    and changed: "us \<noteq> [] \<or> vt_fungible vt \<noteq> [] \<or> vt_non_fungible vt \<noteq> []"
    and nonce: "nd \<noteq> 0" "felt_ok P nd" "acct_nonce a < felt_add P (acct_nonce a) nd"
  shows "\<exists>d a'. tracker_into_delta P \<lparr> dt_storage = track_slots us, dt_vault = vt, dt_init_nonce = acct_nonce a,
      dt_nonce_delta = nd \<rparr> = (Ok d :: (account_delta, 'e) result) \<and> account_apply_delta P T S a d = (a', Ok ()) \<and>
    vault_abs T (acct_vault a') = v \<and>
    (\<forall>i. slots_abs S (acct_storage a') i = (case map_of (rev us) i of None \<Rightarrow> slots_abs S (acct_storage a) i | Some w \<Rightarrow> w)) \<and>
    acct_nonce a' = felt_add P (acct_nonce a) nd \<and> acct_id a' = acct_id a \<and> acct_code a' = acct_code a \<and> account_inv P T S a'"
proof -
  have laws: "hash_spec P" using spec by (simp add: account_spec_def storage_spec_def)
  let ?t = "\<lparr> dt_storage = track_slots us, dt_vault = vt, dt_init_nonce = acct_nonce a, dt_nonce_delta = nd \<rparr>"
  let ?n = "felt_add P (acct_nonce a) nd" and ?sd = "storage_into_delta (track_slots us)"
  obtain vd where vd: "vault_into_delta vt = (Ok vd :: (vault_delta, 'e) result)" "vault_delta_valid vd"
    "vault_delta_is_empty vd \<longleftrightarrow> vt_fungible vt = [] \<and> vt_non_fungible vt = []"
    by (rule tracks_vault_delta [OF laws run pos size])
  have "255 \<notin> fst ` set us" using us by (auto simp: list_all_iff slot_mutable_def)
  note sd = track_slots_delta [OF this]
  have "nonce_valid (Some ?n) ?sd vd" using nonce(3) changed vd(3) sd(4) by (auto simp: nonce_valid_def)
  then have "tracker_into_delta P ?t = (Ok \<lparr> ad_storage = ?sd, ad_vault = vd, ad_nonce = Some ?n \<rparr> :: (account_delta, 'e) result)"
    using delta_tracker_into [of ?t vd "Some ?n" P] vd(1,2) sd(1) nonce(1) by simp
  with tracker_delta_applies [OF spec inv pos run size us nonce(2,3) this] show ?thesis by blast
qed

lemma sample_vault_positive: "vault_positive (vault_abs sample_smt sample_vault)"
  by (auto simp: vault_positive_def vault_abs_def sample_smt_def sample_vault_def Let_def split: if_splits)

lemma sample_run:
  "vault_run sample_prims (vault_abs sample_smt sample_vault) (tracker_add_asset sample_prims vault_tracker_default sample_nft)
     (fst (abs_add (vault_abs sample_smt sample_vault) sample_nft))"
proof (rule vault_run.add [OF vault_run.start])
  show "asset_ok sample_prims sample_nft" by simp
  show "positive_asset sample_nft" by (simp add: positive_asset_def sample_nft_def)
  show "abs_add (vault_abs sample_smt sample_vault) sample_nft
      = (fst (abs_add (vault_abs sample_smt sample_vault) sample_nft), Ok sample_nft)"
    by (simp add: sample_nft_def vault_abs_def sample_smt_def sample_vault_def)
qed

theorem tracker_delta_replays_witness:
  "\<exists>d a'. tracker_into_delta sample_prims \<lparr> dt_storage = track_slots [(4, W 5 5 5 5), (4, W 1 2 3 4)],
      dt_vault = tracker_add_asset sample_prims vault_tracker_default sample_nft, dt_init_nonce = 3, dt_nonce_delta = 1 \<rparr>
      = (Ok d :: (account_delta, unit) result) \<and>
    account_apply_delta sample_prims sample_smt (sample_ssmt 8) (sample_account EMPTY_WORD) d = (a', Ok ()) \<and>
    slots_abs (sample_ssmt 8) (acct_storage a') 4 = W 1 2 3 4 \<and> acct_nonce a' = 4"
proof -
  have "word_ok sample_prims EMPTY_WORD" by (simp add: sample_felt_ok)
  note inv = sample_account_inv [OF this]
  have acct: "acct_vault (sample_account EMPTY_WORD) = sample_vault" "acct_nonce (sample_account EMPTY_WORD) = 3"
    "acct_storage (sample_account EMPTY_WORD) = sample_storage EMPTY_WORD"
    by (simp_all add: sample_account_def account_new_def)
  have add: "felt_add sample_prims 3 1 = 4" by (simp add: sample_prims_def)
  show ?thesis
    using tracker_delta_replays [OF sample_account_laws.account_spec_axioms inv,
        of "tracker_add_asset sample_prims vault_tracker_default sample_nft"
          "fst (abs_add (vault_abs sample_smt sample_vault) sample_nft)" "[(4, W 5 5 5 5), (4, W 1 2 3 4)]" 1]
      sample_vault_positive sample_run
    by (auto simp: acct add sample_storage_mutable sample_felt_ok sample_nft_def vault_tracker_default_def update_asset_delta_def)
qed

text \<open>
  C29. When the tracker panics.  Take any state of the tracker, its three maps having distinct keys.  The
  conversion never returns an error.  It gives a delta exactly if all of the following hold, and panics
  otherwise: every recorded fungible amount belongs to a fungible faucet and its absolute value, as a
  64-bit number, is below \<open>2^63\<close>; every recorded non-fungible amount is 1 or -1; slot 255 was not
  written; at most 65535 assets are added and at most 65535 removed; and either nothing was recorded and the
  nonce was not touched, or something was recorded and the nonce was moved to a non-zero value.  In
  particular it panics for a transaction that only increments the nonce.
\<close>

theorem tracker_into_delta_panics:
  assumes "us = slot_updates (dt_storage t)" "fs = vt_fungible (dt_vault t)" "ns = vt_non_fungible (dt_vault t)"
    "distinct (map fst us)" "distinct (map fst fs)" "distinct (map fst ns)"
  shows "if (\<forall>(f, k) \<in> set fs. account_type f = FungibleFaucet \<and> \<bar>k\<bar> mod 2 ^ 64 < 2 ^ 63) \<and>
      (\<forall>(n, k) \<in> set ns. k = 1 \<or> k = - 1) \<and> 255 \<notin> fst ` set us \<and>
      length (filter (\<lambda>e. snd e > 0) fs) + length (filter (\<lambda>e. snd e > 0) ns) \<le> 65535 \<and>
      length (filter (\<lambda>e. \<not> snd e > 0) fs) + length (filter (\<lambda>e. \<not> snd e > 0) ns) \<le> 65535 \<and>
      (if us = [] \<and> fs = [] \<and> ns = [] then dt_nonce_delta t = 0
       else dt_nonce_delta t \<noteq> 0 \<and> felt_add P (dt_init_nonce t) (dt_nonce_delta t) \<noteq> 0)
    then \<exists>d. tracker_into_delta P t = (Ok d :: (account_delta, 'e) result)
    else \<exists>m. tracker_into_delta P t = (Panic m :: (account_delta, 'e) result)"
proof -
  let ?sd = "storage_into_delta (dt_storage t)"
  let ?vd = "\<lparr> added_assets = changes (\<lambda>k. k > 0) (dt_vault t), removed_assets = changes (\<lambda>k. \<not> k > 0) (dt_vault t) \<rparr>"
  let ?nonce = "if dt_nonce_delta t = 0 then None else Some (felt_add P (dt_init_nonce t) (dt_nonce_delta t))"
  have sd: "storage_delta_valid ?sd \<longleftrightarrow> 255 \<notin> fst ` set us" "storage_delta_is_empty ?sd \<longleftrightarrow> us = []"
    using slot_delta(1,3) [of "dt_storage t"] assms(1,4) by simp_all
  have vd: "vault_delta_valid ?vd \<longleftrightarrow>
      length (filter (\<lambda>e. snd e > 0) fs) + length (filter (\<lambda>e. snd e > 0) ns) \<le> 65535 \<and>
      length (filter (\<lambda>e. \<not> snd e > 0) fs) + length (filter (\<lambda>e. \<not> snd e > 0) ns) \<le> 65535"
    using changes_no_same [of "dt_vault t" "\<lambda>k. k > 0"] assms(2,3,5,6) by (simp add: vault_delta_valid_def changes_def)
  have empty: "vault_delta_is_empty ?vd \<longleftrightarrow> fs = [] \<and> ns = []"
    using changes_empty [of "\<lambda>k. k > 0" "dt_vault t"] assms(2,3) by (simp add: vault_delta_is_empty_def)
  have "(\<exists>d. tracker_into_delta P t = (Ok d :: (account_delta, 'e) result)) \<longleftrightarrow>
      vault_changes_ok (dt_vault t) \<and> account_delta_valid \<lparr> ad_storage = ?sd, ad_vault = ?vd, ad_nonce = ?nonce \<rparr>"
    by (auto simp: tracker_into_delta_def Let_def res_simps vault_into_delta_Ok account_delta_new_Ok)
  also have "\<dots> \<longleftrightarrow> vault_changes_ok (dt_vault t) \<and> storage_delta_valid ?sd \<and> vault_delta_valid ?vd \<and> nonce_valid ?nonce ?sd ?vd"
    by (simp add: account_delta_valid_def)
  finally have ok: "(\<exists>d. tracker_into_delta P t = (Ok d :: (account_delta, 'e) result)) \<longleftrightarrow>
      vault_changes_ok (dt_vault t) \<and> storage_delta_valid ?sd \<and> vault_delta_valid ?vd \<and> nonce_valid ?nonce ?sd ?vd" .
  have "tracker_into_delta P t \<noteq> (Err e :: (account_delta, 'e) result)" for e
    by (rule tracker_into_delta_no_Err)
  then have "(\<exists>d. tracker_into_delta P t = (Ok d :: (account_delta, 'e) result)) \<or>
      (\<exists>m. tracker_into_delta P t = (Panic m :: (account_delta, 'e) result))"
    by (cases "tracker_into_delta P t :: (account_delta, 'e) result") auto
  with ok show ?thesis
    unfolding vault_changes_ok_def assms(2,3) [symmetric] sd(1) vd nonce_valid_def sd(2) empty by (auto split: if_splits)
qed

theorem tracker_into_delta_panics_witness:
  "\<exists>m. tracker_into_delta sample_prims (increment_nonce sample_prims
     (delta_tracker_new (account_to_stub sample_smt (sample_ssmt 8) (sample_account EMPTY_WORD))) 1)
   = (Panic m :: (account_delta, unit) result)"
proof -
  have "felt_add sample_prims 0 1 = 1" by (simp add: sample_prims_def)
  then show ?thesis
    using tracker_into_delta_panics [OF refl refl refl, where P = sample_prims and 'e = unit and t = "increment_nonce sample_prims
        (delta_tracker_new (account_to_stub sample_smt (sample_ssmt 8) (sample_account EMPTY_WORD))) 1"]
    by (simp add: increment_nonce_def delta_tracker_new_def account_to_stub_def vault_tracker_default_def)
qed

text \<open>
  A zero amount is recorded as a removal: adding a zero amount of a faucet that the vault does not
  hold gives a delta that cannot be applied to the vault.
\<close>

theorem zero_amount_not_replayable:
  assumes "account_type f = FungibleFaucet" "av_balance v0 f = None"
  shows "vault_into_delta (tracker_add_asset P vault_tracker_default (Fungible \<lparr> fa_faucet_id = f, fa_amount = 0 \<rparr>))
      = (Ok \<lparr> added_assets = [], removed_assets = [Fungible \<lparr> fa_faucet_id = f, fa_amount = 0 \<rparr>] \<rparr> :: (vault_delta, 'e) result) \<and>
    \<not> vault_delta_applicable v0 \<lparr> added_assets = [], removed_assets = [Fungible \<lparr> fa_faucet_id = f, fa_amount = 0 \<rparr>] \<rparr>"
  using assms
  by (simp add: vault_into_delta_def vault_tracker_default_def update_asset_delta_def fungible_new_def fungible_validate_def
      vault_delta_applicable_def Let_def)

end
