(* ===== verification/Host.thy ===== *)
theory Host
  imports Kernel Delta_Tracker
begin

text \<open>
  The transaction host (\<open>miden-tx/src/host/mod.rs\<close>, \<open>account_procs.rs\<close>): it answers the events of
  the transaction kernel, tracks the changes of the account and collects the created notes.  The
  state of the virtual machine and the advice provider are the records \<open>Z\<close> and \<open>V\<close> of operations on
  types \<open>'q\<close> and \<open>'w\<close>.
\<close>

section \<open>The virtual machine\<close>

record 'q process_ops =
  ps_stack_state :: "'q \<Rightarrow> felt list"
  ps_stack_item :: "'q \<Rightarrow> nat \<Rightarrow> felt"
  ps_stack_word :: "'q \<Rightarrow> nat \<Rightarrow> word4"
  ps_root_mem_value :: "'q \<Rightarrow> u32 \<Rightarrow> word4 option"
  ps_in_root_context :: "'q \<Rightarrow> bool"

record 'w provider_ops =
  pv_mapped_values :: "'w \<Rightarrow> digest \<Rightarrow> felt list option"
  pv_tree_node :: "'w \<Rightarrow> word4 \<Rightarrow> felt \<Rightarrow> felt \<Rightarrow> (word4, string) result"
  pv_push_stack :: "'w \<Rightarrow> felt \<Rightarrow> ('w, unit) result"
  pv_store_node :: "'w \<Rightarrow> digest \<Rightarrow> node_index \<Rightarrow> (digest, merkle_error) result"

record show_ops =
  show_kernel_error :: "transaction_kernel_error \<Rightarrow> string"
  show_event_parsing_error :: "event_parsing_error \<Rightarrow> string"

section \<open>Procedure indexes\<close>

type_synonym proc_index_map = "(digest \<times> u8) list"

fun collect_procedures ::
    "prims \<Rightarrow> merkle_ops \<Rightarrow> 'w provider_ops \<Rightarrow> 'w \<Rightarrow> digest \<Rightarrow> proc_index_map \<Rightarrow> nat list \<Rightarrow> (proc_index_map, 'e) result" where
  "collect_procedures P M V w root res [] = Ok res"
| "collect_procedures P M V w root res (i # is) =
     and_then (expect ''procedure tree index is valid'' (node_index_new M (of_nat PROCEDURE_TREE_DEPTH) (of_nat i))) (\<lambda>index.
       case pv_store_node V w root index of
         Ok proc_root \<Rightarrow>
           (if proc_root = EMPTY_WORD then Ok res
            else collect_procedures P M V w root (btree_insert (digest_le P) proc_root (of_nat i) res) is)
       | Err _ \<Rightarrow> collect_procedures P M V w root res is
       | Panic x \<Rightarrow> Panic x)"

definition proc_index_map_new ::
    "prims \<Rightarrow> merkle_ops \<Rightarrow> 'w provider_ops \<Rightarrow> digest \<Rightarrow> 'w \<Rightarrow> (proc_index_map, 'e) result" where
  "proc_index_map_new P M V account_code_root w =
     collect_procedures P M V w account_code_root [] [0..<MAX_NUM_PROCEDURES]"

definition get_proc_index :: "'q process_ops \<Rightarrow> proc_index_map \<Rightarrow> 'q \<Rightarrow> (u8, transaction_kernel_error) result" where
  "get_proc_index Z m q =
    (let proc_root = ps_stack_word Z q 0 in ok_or (UnknownAccountProcedure proc_root) (map_of m proc_root))"

section \<open>The host\<close>

record ('w, 'p) transaction_host =
  th_adv_provider :: 'w
  th_account_delta :: delta_tracker
  th_proc_index_map :: proc_index_map
  th_output_notes :: "'p output_note list"

definition STORAGE_TREE_DEPTH :: u8 where
  "STORAGE_TREE_DEPTH = 8"

definition STORAGE_DEPTH_FELT :: "prims \<Rightarrow> felt" where
  "STORAGE_DEPTH_FELT P = felt_new P (ucast STORAGE_TREE_DEPTH)"

definition host_new ::
    "prims \<Rightarrow> merkle_ops \<Rightarrow> 'w provider_ops \<Rightarrow> account_stub \<Rightarrow> 'w \<Rightarrow> (('w, 'p) transaction_host, 'e) result" where
  "host_new P M V stub w =
     and_then (proc_index_map_new P M V (stub_code_root stub) w) (\<lambda>m.
       Ok \<lparr> th_adv_provider = w, th_account_delta = delta_tracker_new stub, th_proc_index_map = m, th_output_notes = [] \<rparr>)"

definition host_into_parts ::
    "prims \<Rightarrow> ('w, 'p) transaction_host \<Rightarrow> ('w \<times> account_delta \<times> 'p output_note list, 'e) result" where
  "host_into_parts P h =
     and_then (tracker_into_delta P (th_account_delta h)) (\<lambda>d. Ok (th_adv_provider h, d, th_output_notes h))"

definition public_note ::
    "prims \<Rightarrow> ('p, 'b) prog_ops \<Rightarrow> 'w provider_ops \<Rightarrow> 'w \<Rightarrow> note_metadata \<Rightarrow> note_assets \<Rightarrow> digest
      \<Rightarrow> ('p output_note, transaction_kernel_error) result" where
  "public_note P Q V w md vault recipient =
     and_then (ok_or (MissingNoteDetails md vault recipient) (pv_mapped_values V w recipient)) (\<lambda>data.
     if length data \<noteq> 12 then Err (MalformedRecipientData data)
     else
       let inputs_hash = W (data ! 0) (data ! 1) (data ! 2) (data ! 3);
           inputs_key = commitment_to_key P inputs_hash;
           script_hash = W (data ! 4) (data ! 5) (data ! 6) (data ! 7);
           serial_num = W (data ! 8) (data ! 9) (data ! 10) (data ! 11);
           input_els = pv_mapped_values V w inputs_key;
           script_data = (case pv_mapped_values V w script_hash of None \<Rightarrow> [] | Some d \<Rightarrow> d) in
       and_then (map_err MalformedNoteInputs (note_inputs_new P (case input_els of None \<Rightarrow> [] | Some e \<Rightarrow> e))) (\<lambda>inputs.
       and_then (map_err (\<lambda>_. MalformedNoteScript script_data) (note_script_try_from_felts Q script_data)) (\<lambda>script.
       Ok (PublicNote (note_new P vault md (note_recipient_new P serial_num script inputs))))))"

definition created_note ::
    "prims \<Rightarrow> ('p, 'b) prog_ops \<Rightarrow> 'w provider_ops \<Rightarrow> 'w \<Rightarrow> felt list \<Rightarrow> ('p output_note, transaction_kernel_error) result" where
  "created_note P Q V w stack =
    (if length stack < 13 then Panic ''index out of bounds''
     else
       let aux = stack ! 0 in
       and_then (map_err MalformedNoteType (note_type_try_from_felt (stack ! 1))) (\<lambda>note_type.
       and_then (map_err MalformedAccountId (try_from_felt (stack ! 2))) (\<lambda>sender.
       and_then (ok_or (MalformedTag (stack ! 3)) (note_tag_try_from_u64 (stack ! 3))) (\<lambda>tag.
       and_then (map_err MalformedAsset (asset_try_from_word P (W (stack ! 8) (stack ! 7) (stack ! 6) (stack ! 5)))) (\<lambda>asset.
       let recipient = W (stack ! 12) (stack ! 11) (stack ! 10) (stack ! 9) in
       and_then (map_err MalformedNoteType (note_assets_new P [asset])) (\<lambda>vault.
       and_then (map_err MalformedNoteMetadata (note_metadata_new sender note_type tag aux)) (\<lambda>md.
       if md_note_type md = Public then public_note P Q V w md vault recipient
       else
         let note_id = note_id_new P recipient (na_hash vault) in
         and_then (expect ''NoteType checked above'' (note_envelope_new note_id md)) (\<lambda>envelope.
         Ok (PrivateNote envelope)))))))))"

definition on_note_created ::
    "prims \<Rightarrow> ('p, 'b) prog_ops \<Rightarrow> 'w provider_ops \<Rightarrow> 'q process_ops \<Rightarrow> ('w, 'p) transaction_host \<Rightarrow> 'q
      \<Rightarrow> ('w, 'p) transaction_host \<times> (unit, transaction_kernel_error) result" where
  "on_note_created P Q V Z h q =
    (case created_note P Q V (th_adv_provider h) (ps_stack_state Z q) of
       Ok n \<Rightarrow> (h\<lparr>th_output_notes := th_output_notes h @ [n]\<rparr>, Ok ())
     | Err e \<Rightarrow> (h, Err e)
     | Panic x \<Rightarrow> (h, Panic x))"

definition on_account_push_procedure_index ::
    "prims \<Rightarrow> 'w provider_ops \<Rightarrow> 'q process_ops \<Rightarrow> ('w, 'p) transaction_host \<Rightarrow> 'q
      \<Rightarrow> ('w, 'p) transaction_host \<times> (unit, transaction_kernel_error) result" where
  "on_account_push_procedure_index P V Z h q =
    (case and_then (get_proc_index Z (th_proc_index_map h) q) (\<lambda>proc_idx.
         expect ''failed to push value onto advice stack'' (pv_push_stack V (th_adv_provider h) (felt_new P (ucast proc_idx)))) of
       Ok w \<Rightarrow> (h\<lparr>th_adv_provider := w\<rparr>, Ok ())
     | Err e \<Rightarrow> (h, Err e)
     | Panic x \<Rightarrow> (h, Panic x))"

definition on_account_increment_nonce ::
    "prims \<Rightarrow> 'q process_ops \<Rightarrow> ('w, 'p) transaction_host \<Rightarrow> 'q
      \<Rightarrow> ('w, 'p) transaction_host \<times> (unit, transaction_kernel_error) result" where
  "on_account_increment_nonce P Z h q =
    (h\<lparr>th_account_delta := increment_nonce P (th_account_delta h) (ps_stack_item Z q 0)\<rparr>, Ok ())"

definition on_account_storage_set_item ::
    "prims \<Rightarrow> 'w provider_ops \<Rightarrow> 'q process_ops \<Rightarrow> ('w, 'p) transaction_host \<Rightarrow> 'q
      \<Rightarrow> ('w, 'p) transaction_host \<times> (unit, transaction_kernel_error) result" where
  "on_account_storage_set_item P V Z h q =
    (case ps_root_mem_value Z q ACCT_STORAGE_ROOT_PTR of
       None \<Rightarrow> (h, Panic ''no storage root'')
     | Some root \<Rightarrow>
        let slot_index = ps_stack_item Z q 0 in
        if unat slot_index \<ge> NUM_STORAGE_SLOTS then (h, Err (InvalidStorageSlotIndex slot_index))
        else
          let new_slot_value = W (ps_stack_item Z q 4) (ps_stack_item Z q 3) (ps_stack_item Z q 2) (ps_stack_item Z q 1) in
          case pv_tree_node V (th_adv_provider h) root (STORAGE_DEPTH_FELT P) slot_index of
            Err e \<Rightarrow> (h, Err (MissingStorageSlotValue (ucast slot_index) e))
          | Panic x \<Rightarrow> (h, Panic x)
          | Ok current_slot_value \<Rightarrow>
             if current_slot_value \<noteq> new_slot_value then
               let d = th_account_delta h in
               (h\<lparr>th_account_delta := d\<lparr>dt_storage := slot_update (dt_storage d) (ucast slot_index) new_slot_value\<rparr>\<rparr>, Ok ())
             else (h, Ok ()))"

definition on_account_vault_add_asset ::
    "prims \<Rightarrow> 'q process_ops \<Rightarrow> ('w, 'p) transaction_host \<Rightarrow> 'q
      \<Rightarrow> ('w, 'p) transaction_host \<times> (unit, transaction_kernel_error) result" where
  "on_account_vault_add_asset P Z h q =
    (case asset_try_from_word P (ps_stack_word Z q 0) of
       Ok asset \<Rightarrow>
         let d = th_account_delta h in
         (h\<lparr>th_account_delta := d\<lparr>dt_vault := tracker_add_asset P (dt_vault d) asset\<rparr>\<rparr>, Ok ())
     | Err e \<Rightarrow> (h, Err (MalformedAssetOnAccountVaultUpdate e))
     | Panic x \<Rightarrow> (h, Panic x))"

definition on_account_vault_remove_asset ::
    "prims \<Rightarrow> 'q process_ops \<Rightarrow> ('w, 'p) transaction_host \<Rightarrow> 'q
      \<Rightarrow> ('w, 'p) transaction_host \<times> (unit, transaction_kernel_error) result" where
  "on_account_vault_remove_asset P Z h q =
    (case asset_try_from_word P (ps_stack_word Z q 0) of
       Ok asset \<Rightarrow>
         let d = th_account_delta h in
         (h\<lparr>th_account_delta := d\<lparr>dt_vault := tracker_remove_asset P (dt_vault d) asset\<rparr>\<rparr>, Ok ())
     | Err e \<Rightarrow> (h, Err (MalformedAssetOnAccountVaultUpdate e))
     | Panic x \<Rightarrow> (h, Panic x))"

text \<open>The two forwarding operations take the operation of the provider as an argument.\<close>

definition host_get_advice ::
    "('w \<Rightarrow> 'q \<Rightarrow> 'x \<Rightarrow> 'w \<times> ('r, 'e) result) \<Rightarrow> ('w, 'p) transaction_host \<Rightarrow> 'q \<Rightarrow> 'x
      \<Rightarrow> ('w, 'p) transaction_host \<times> ('r, 'e) result" where
  "host_get_advice ga h q extractor =
    (case ga (th_adv_provider h) q extractor of (w, r) \<Rightarrow> (h\<lparr>th_adv_provider := w\<rparr>, r))"

definition host_set_advice ::
    "('w \<Rightarrow> 'q \<Rightarrow> 'x \<Rightarrow> 'w \<times> ('r, 'e) result) \<Rightarrow> ('w, 'p) transaction_host \<Rightarrow> 'q \<Rightarrow> 'x
      \<Rightarrow> ('w, 'p) transaction_host \<times> ('r, 'e) result" where
  "host_set_advice sa h q injector =
    (case sa (th_adv_provider h) q injector of (w, r) \<Rightarrow> (h\<lparr>th_adv_provider := w\<rparr>, r))"

datatype execution_error = EventError string | OtherExecutionError string

fun event_name :: "transaction_event \<Rightarrow> string" where
  "event_name AccountVaultAddAsset = ''AccountVaultAddAsset''"
| "event_name AccountVaultRemoveAsset = ''AccountVaultRemoveAsset''"
| "event_name AccountStorageSetItem = ''AccountStorageSetItem''"
| "event_name AccountIncrementNonce = ''AccountIncrementNonce''"
| "event_name AccountPushProcedureIndex = ''AccountPushProcedureIndex''"
| "event_name NoteCreated = ''NoteCreated''"

fun handle_event ::
    "prims \<Rightarrow> ('p, 'b) prog_ops \<Rightarrow> 'w provider_ops \<Rightarrow> 'q process_ops \<Rightarrow> ('w, 'p) transaction_host \<Rightarrow> 'q
      \<Rightarrow> transaction_event \<Rightarrow> ('w, 'p) transaction_host \<times> (unit, transaction_kernel_error) result" where
  "handle_event P Q V Z h q AccountVaultAddAsset = on_account_vault_add_asset P Z h q"
| "handle_event P Q V Z h q AccountVaultRemoveAsset = on_account_vault_remove_asset P Z h q"
| "handle_event P Q V Z h q AccountStorageSetItem = on_account_storage_set_item P V Z h q"
| "handle_event P Q V Z h q AccountIncrementNonce = on_account_increment_nonce P Z h q"
| "handle_event P Q V Z h q AccountPushProcedureIndex = on_account_push_procedure_index P V Z h q"
| "handle_event P Q V Z h q NoteCreated = on_note_created P Q V Z h q"

definition on_event ::
    "prims \<Rightarrow> ('p, 'b) prog_ops \<Rightarrow> 'w provider_ops \<Rightarrow> 'q process_ops \<Rightarrow> show_ops \<Rightarrow> ('w, 'p) transaction_host \<Rightarrow> 'q \<Rightarrow> u32
      \<Rightarrow> ('w, 'p) transaction_host \<times> (unit, execution_error) result" where
  "on_event P Q V Z F h q ev =
    (case event_try_from ev of
       Err e \<Rightarrow> (h, Err (EventError (show_event_parsing_error F e)))
     | Panic x \<Rightarrow> (h, Panic x)
     | Ok event \<Rightarrow>
        if \<not> ps_in_root_context Z q then
          (h, Err (EventError (event_name event @ '' event can only be emitted from the root context'')))
        else case handle_event P Q V Z h q event of
          (h', r) \<Rightarrow> (h', map_err (\<lambda>e. EventError (show_kernel_error F e)) r))"

section \<open>The procedure index map\<close>

lemma collect_procedures_eq:
  assumes "merkle_spec P M" "\<And>i. i < 256 \<Longrightarrow> pv_store_node V w root \<lparr> node_depth = 8, node_value = of_nat i \<rparr> = Ok (leaf i)"
    "\<forall>i \<in> set is. i < 256"
  shows "collect_procedures P M V w root res is = (Ok (foldl (\<lambda>m i. btree_insert (digest_le P) (leaf i) (of_nat i) m) res
    (takeWhile (\<lambda>i. leaf i \<noteq> EMPTY_WORD) is)) :: (proc_index_map, 'e) result)"
  using assms(3)
proof (induction "is" arbitrary: res)
  case (Cons i "is")
  have "unat (of_nat i :: u64) < 2 ^ unat (8 :: u8)" using Cons.prems by (simp add: unat_of_nat)
  then have "node_index_new M 8 (of_nat i) = Ok \<lparr> node_depth = 8, node_value = of_nat i \<rparr>"
    by (rule merkle_spec.node_index_new_ok [OF assms(1)])
  then show ?case using Cons assms(2) [of i] by (simp add: PROCEDURE_TREE_DEPTH_def)
qed simp

lemma map_of_index_map:
  "map_of (foldl (\<lambda>m i. btree_insert le (leaf i) (f i) m) res is) = map_of (rev (map (\<lambda>i. (leaf i, f i)) is) @ res)"
  by (induction "is" arbitrary: res) (auto simp: fun_eq_iff map_add_def split: option.split)

lemma takeWhile_upt:
  assumes "n \<le> k" "\<And>i. i < n \<Longrightarrow> p i" "n < k \<Longrightarrow> \<not> p n"
  shows "takeWhile p [0..<k] = [0..<n]"
proof -
  have "[0..<k] = [0..<n] @ [n..<k]" using assms(1) by (metis le_add_diff_inverse upt_add_eq_append zero_le)
  moreover have "takeWhile p [n..<k] = []" using assms(1,3) by (cases "n < k") (simp_all add: upt_conv_Cons)
  moreover have "takeWhile p ([0..<n] @ [n..<k]) = [0..<n] @ takeWhile p [n..<k]"
    using assms(2) by (intro takeWhile_append2) auto
  ultimately show ?thesis by simp
qed

lemma proc_index_map_new_eq:
  assumes "storage_spec P S" "merkle_spec P M" "code_inv P S c" "EMPTY_WORD \<notin> set (procedures c)"
    "\<And>i. unat i < 256 \<Longrightarrow> \<exists>d. ssmt_get S (procedure_tree c) i = Ok d \<and>
       pv_store_node V w (code_root S c) \<lparr> node_depth = 8, node_value = i \<rparr> = Ok d"
  obtains m where "proc_index_map_new P M V (code_root S c) w = (Ok m :: (proc_index_map, 'e) result)"
    "map_of m = map_of (rev (map (\<lambda>i. (sort_key (digest_as_bytes P) (procedures c) ! i, of_nat i)) [0..<length (procedures c)]))"
proof -
  let ?n = "length (procedures c)" and ?qs = "sort_key (digest_as_bytes P) (procedures c)"
  define leaf where "leaf i = (if i < ?n then ?qs ! i else EMPTY_WORD)" for i
  have n: "?n \<le> 256" using assms(3) by (simp add: code_inv_def num_procedures_def)
  have node: "pv_store_node V w (code_root S c) \<lparr> node_depth = 8, node_value = of_nat i \<rparr> = Ok (leaf i)" if "i < 256" for i
  proof -
    have "unat (of_nat i :: u64) = i" using that by (simp add: unat_of_nat)
    with assms(5) [of "of_nat i"] storage_spec.code_inv_leaves [OF assms(1,3), of "of_nat i"] that
    show ?thesis by (auto simp: leaf_def)
  qed
  have "leaf i \<noteq> EMPTY_WORD" if "i < ?n" for i
    using that assms(4) nth_mem [of i ?qs] by (auto simp: leaf_def)
  then have upt: "takeWhile (\<lambda>i. leaf i \<noteq> EMPTY_WORD) [0..<256] = [0..<?n]"
    by (intro takeWhile_upt [OF n]) (simp_all add: leaf_def)
  let ?m = "foldl (\<lambda>m i. btree_insert (digest_le P) (leaf i) (of_nat i) m) [] [0..<?n]"
  have "proc_index_map_new P M V (code_root S c) w = (Ok ?m :: (proc_index_map, 'e) result)"
    unfolding proc_index_map_new_def MAX_NUM_PROCEDURES_eq
    by (subst collect_procedures_eq [OF assms(2) node]) (simp_all only: upt, simp)
  moreover have "map (\<lambda>i. (leaf i, of_nat i :: u8)) [0..<?n] = map (\<lambda>i. (?qs ! i, of_nat i)) [0..<?n]"
    by (simp add: leaf_def)
  then have "map_of (?m :: proc_index_map) = map_of (rev (map (\<lambda>i. (?qs ! i, of_nat i)) [0..<?n]))" by (simp only: map_of_index_map append_Nil2)
  ultimately show thesis by (rule that)
qed

section \<open>Events\<close>

lemma event_try_from_id: "event_try_from (event_id ev) = Ok ev"
  by (cases ev) (simp_all add: event_try_from_def EVENT_ID_PREFIX_def)

lemma on_event_id:
  "on_event P Q V Z F h q (event_id ev) =
    (if ps_in_root_context Z q then
       (case handle_event P Q V Z h q ev of (h', r) \<Rightarrow> (h', map_err (\<lambda>e. EventError (show_kernel_error F e)) r))
     else (h, Err (EventError (event_name ev @ '' event can only be emitted from the root context''))))"
  by (simp add: on_event_def event_try_from_id)

lemma on_event_Ok:
  assumes "on_event P Q V Z F h q (event_id ev) = (h', Ok ())"
  shows "handle_event P Q V Z h q ev = (h', Ok ())"
  using assms by (auto simp: on_event_id res_simps split: if_splits prod.splits)

lemma handle_event_frame:
  assumes "handle_event P Q V Z h q ev = (h', r)"
  shows "(r \<noteq> Ok () \<longrightarrow> h' = h) \<and> th_proc_index_map h' = th_proc_index_map h \<and>
    dt_init_nonce (th_account_delta h') = dt_init_nonce (th_account_delta h) \<and>
    (th_output_notes h' = th_output_notes h \<or>
     ev = NoteCreated \<and> (\<exists>n. created_note P Q V (th_adv_provider h) (ps_stack_state Z q) = Ok n \<and>
       th_output_notes h' = th_output_notes h @ [n]))"
  using assms
  by (cases ev) (auto simp: on_account_vault_add_asset_def on_account_vault_remove_asset_def on_account_storage_set_item_def
      on_account_increment_nonce_def increment_nonce_def on_account_push_procedure_index_def on_note_created_def Let_def
      split: result.splits option.splits if_splits)

lemma on_event_frame:
  assumes "on_event P Q V Z F h q x = (h', r)"
  shows "(r \<noteq> Ok () \<longrightarrow> h' = h) \<and> th_proc_index_map h' = th_proc_index_map h \<and>
    dt_init_nonce (th_account_delta h') = dt_init_nonce (th_account_delta h) \<and>
    (th_output_notes h' = th_output_notes h \<or>
     x = event_id NoteCreated \<and> (\<exists>n. created_note P Q V (th_adv_provider h) (ps_stack_state Z q) = Ok n \<and>
       th_output_notes h' = th_output_notes h @ [n]))"
proof (cases "event_try_from x")
  case (Ok ev)
  show ?thesis
  proof (cases "ps_in_root_context Z q")
    case True
    obtain r' where r': "handle_event P Q V Z h q ev = (h', r')" "r = map_err (\<lambda>e. EventError (show_kernel_error F e)) r'"
      using assms Ok True by (auto simp: on_event_def split: prod.splits)
    have "r' \<noteq> Ok ()" if "r \<noteq> Ok ()" using that r'(2) by auto
    moreover have "x = event_id NoteCreated" if "ev = NoteCreated"
      using Ok that by (auto simp: event_try_from_def split: if_splits)
    ultimately show ?thesis using handle_event_frame [OF r'(1)] by blast
  qed (use assms Ok in \<open>simp add: on_event_def\<close>)
qed (use assms in \<open>simp_all add: on_event_def\<close>)

section \<open>Transactions\<close>

text \<open>
  What the kernel does to the account while the host follows its events: the state that its memory
  holds, and the steps that change it, with the process state \<open>q\<close> of the event.
  \<^item> An asset is added with \<open>asset_vault::add_asset\<close>, which agrees with the vault of the host, and removed
    with \<open>asset_vault::remove_asset\<close>, which also accepts a zero amount of an asset that is not there and then
    changes nothing.
  \<^item> \<open>account::set_item\<close> writes any of the 256 slots, whatever its type; the node of the storage tree that
    the provider returns to the host is the current value of the slot.
  \<^item> \<open>account::incr_nonce\<close> adds a 32-bit number.
  \<^item> \<open>account::set_code\<close> stores a new code root, for a regular account with updatable code, and emits no event.
  \<^item> The other events and the requests for advice leave the account alone.

  The steps are collected in a list.
\<close>

record kernel_account =
  ka_vault :: abs_vault
  ka_slots :: "u8 \<Rightarrow> word4"
  ka_nonce :: felt
  ka_code_root :: digest

definition kernel_start :: "'v smt_ops \<Rightarrow> 's simple_smt_ops \<Rightarrow> ('v, 's, 'm) account \<Rightarrow> kernel_account" where
  "kernel_start T S a = \<lparr> ka_vault = vault_abs T (acct_vault a), ka_slots = slots_abs S (acct_storage a), ka_nonce = acct_nonce a,
     ka_code_root = code_root S (acct_code a) \<rparr>"

datatype account_step = AddAsset asset | RemoveAsset asset | SetItem u8 word4 | IncrNonce felt | SetCode digest

definition pushed_word :: "'q process_ops \<Rightarrow> 'q \<Rightarrow> word4" where
  "pushed_word Z q = W (ps_stack_item Z q 4) (ps_stack_item Z q 3) (ps_stack_item Z q 2) (ps_stack_item Z q 1)"

fun kernel_removes :: "abs_vault \<Rightarrow> asset \<Rightarrow> abs_vault \<Rightarrow> bool" where
  "kernel_removes v a v' \<longleftrightarrow> abs_remove v a = (v', Ok a) \<or>
     v' = v \<and> (case a of Fungible x \<Rightarrow> fa_amount x = 0 \<and> av_balance v (fa_faucet_id x) = None | NonFungible _ \<Rightarrow> False)"

inductive kernel_run ::
    "prims \<Rightarrow> ('p, 'b) prog_ops \<Rightarrow> 'w provider_ops \<Rightarrow> 'q process_ops \<Rightarrow> show_ops \<Rightarrow> account_id
      \<Rightarrow> ('w, 'p) transaction_host \<times> kernel_account \<Rightarrow> account_step list \<Rightarrow> ('w, 'p) transaction_host \<times> kernel_account \<Rightarrow> bool"
  for P Q V Z F acct s0 where
  start: "kernel_run P Q V Z F acct s0 [] s0"
| vault_add: "kernel_run P Q V Z F acct s0 (steps @ [AddAsset a]) (h', k\<lparr>ka_vault := v'\<rparr>)"
    if "kernel_run P Q V Z F acct s0 steps (h, k)" "on_event P Q V Z F h q (event_id AccountVaultAddAsset) = (h', Ok ())"
      "word_ok P (ps_stack_word Z q 0)" "asset_try_from_word P (ps_stack_word Z q 0) = Ok a"
      "abs_add (ka_vault k) a = (v', Ok b)"
| vault_remove: "kernel_run P Q V Z F acct s0 (steps @ [RemoveAsset a]) (h', k\<lparr>ka_vault := v'\<rparr>)"
    if "kernel_run P Q V Z F acct s0 steps (h, k)" "on_event P Q V Z F h q (event_id AccountVaultRemoveAsset) = (h', Ok ())"
      "word_ok P (ps_stack_word Z q 0)" "asset_try_from_word P (ps_stack_word Z q 0) = Ok a"
      "kernel_removes (ka_vault k) a v'"
| set_slot: "kernel_run P Q V Z F acct s0 (steps @ [SetItem i (pushed_word Z q)])
      (h', k\<lparr>ka_slots := (ka_slots k)(i := pushed_word Z q)\<rparr>)"
    if "kernel_run P Q V Z F acct s0 steps (h, k)" "on_event P Q V Z F h q (event_id AccountStorageSetItem) = (h', Ok ())"
      "i = ucast (ps_stack_item Z q 0)" "word_ok P (pushed_word Z q)"
      "ps_root_mem_value Z q ACCT_STORAGE_ROOT_PTR = Some root"
      "pv_tree_node V (th_adv_provider h) root (STORAGE_DEPTH_FELT P) (ps_stack_item Z q 0) = Ok (ka_slots k i)"
| nonce: "kernel_run P Q V Z F acct s0 (steps @ [IncrNonce (ps_stack_item Z q 0)])
      (h', k\<lparr>ka_nonce := felt_add P (ka_nonce k) (ps_stack_item Z q 0)\<rparr>)"
    if "kernel_run P Q V Z F acct s0 steps (h, k)" "on_event P Q V Z F h q (event_id AccountIncrementNonce) = (h', Ok ())"
      "felt_ok P (ps_stack_item Z q 0)" "unat (ps_stack_item Z q 0) < 2 ^ 32"
| set_code: "kernel_run P Q V Z F acct s0 (steps @ [SetCode r]) (h, k\<lparr>ka_code_root := r\<rparr>)"
    if "kernel_run P Q V Z F acct s0 steps (h, k)" "account_type acct = RegularAccountUpdatableCode" "word_ok P r"
| other: "kernel_run P Q V Z F acct s0 steps (h', k)"
    if "kernel_run P Q V Z F acct s0 steps (h, k)" "on_event P Q V Z F h q (event_id ev) = (h', Ok ())"
      "ev = NoteCreated \<or> ev = AccountPushProcedureIndex"
| advice: "kernel_run P Q V Z F acct s0 steps (h\<lparr>th_adv_provider := w\<rparr>, k)"
    if "kernel_run P Q V Z F acct s0 steps (h, k)"

text \<open>
  The steps that a delta can express: an asset with a non-zero amount, a write to a slot that the account
  may change (a value slot other than slot 255), an increment of the nonce; never a change of the code.
\<close>

fun replayable :: "'s account_storage \<Rightarrow> account_step \<Rightarrow> bool" where
  "replayable st (AddAsset a) \<longleftrightarrow> positive_asset a"
| "replayable st (RemoveAsset a) \<longleftrightarrow> positive_asset a"
| "replayable st (SetItem i w) \<longleftrightarrow> slot_mutable st i"
| "replayable st (IncrNonce x) \<longleftrightarrow> True"
| "replayable st (SetCode r) \<longleftrightarrow> False"

text \<open>The host has tracked what happened to the account.\<close>

definition follows :: "prims \<Rightarrow> 's account_storage \<Rightarrow> kernel_account \<Rightarrow> delta_tracker \<Rightarrow> kernel_account \<Rightarrow> bool" where
  "follows P st k0 d k \<longleftrightarrow>
     dt_init_nonce d = ka_nonce k0 \<and> ka_code_root k = ka_code_root k0 \<and> vault_run P (ka_vault k0) (dt_vault d) (ka_vault k) \<and>
     felt_ok P (dt_nonce_delta d) \<and> ka_nonce k = felt_add P (ka_nonce k0) (dt_nonce_delta d) \<and>
     (\<exists>us. dt_storage d = track_slots us \<and> list_all (\<lambda>(i, w). slot_mutable st i \<and> word_ok P w) us \<and>
       ka_slots k = (\<lambda>i. case map_of (rev us) i of None \<Rightarrow> ka_slots k0 i | Some w \<Rightarrow> w))"

lemma follows_vault:
  "follows P st k0 d k \<Longrightarrow> vault_run P (ka_vault k0) vt v \<Longrightarrow> follows P st k0 (d\<lparr>dt_vault := vt\<rparr>) (k\<lparr>ka_vault := v\<rparr>)"
  by (simp add: follows_def)

lemma follows_vault_run: "follows P st k0 d k \<Longrightarrow> vault_run P (ka_vault k0) (dt_vault d) (ka_vault k)"
  by (simp add: follows_def)

lemma track_slots_snoc: "slot_update (track_slots us) i w = track_slots (us @ [(i, w)])"
  by (simp add: track_slots_def)

lemma follows_set_slot:
  assumes "follows P st k0 d k" "slot_mutable st i" "word_ok P w" "d' = (if ka_slots k i \<noteq> w
    then d\<lparr>dt_storage := slot_update (dt_storage d) i w\<rparr> else d)"
  shows "follows P st k0 d' (k\<lparr>ka_slots := (ka_slots k)(i := w)\<rparr>)"
proof (cases "ka_slots k i = w")
  case False
  from assms(1) obtain us where us: "dt_storage d = track_slots us" "list_all (\<lambda>(i, w). slot_mutable st i \<and> word_ok P w) us"
    "ka_slots k = (\<lambda>i. case map_of (rev us) i of None \<Rightarrow> ka_slots k0 i | Some w \<Rightarrow> w)" by (auto simp: follows_def)
  have "(ka_slots k)(i := w) = (\<lambda>j. case map_of (rev (us @ [(i, w)])) j of None \<Rightarrow> ka_slots k0 j | Some w \<Rightarrow> w)"
    by (auto simp: us(3))
  then show ?thesis using assms us(1,2) False unfolding follows_def
    by (intro conjI exI [of _ "us @ [(i, w)]"]) (simp_all add: track_slots_snoc)
next
  case True
  then have "(ka_slots k)(i := w) = ka_slots k" by (simp add: fun_upd_idem)
  then show ?thesis using assms(1,4) True by (simp add: follows_def)
qed

lemma kernel_run_follows:
  assumes "felt_spec P" "felt_ok P (ka_nonce k0)" "kernel_run P Q V Z F acct (h0, k0) steps s"
    "th_account_delta h0 = \<lparr> dt_storage = \<lparr> slot_updates = [] \<rparr>, dt_vault = vault_tracker_default,
       dt_init_nonce = ka_nonce k0, dt_nonce_delta = 0 \<rparr>"
    "list_all (replayable st) steps"
  shows "follows P st k0 (th_account_delta (fst s)) (snd s)"
  using assms(3,5)
proof (induction rule: kernel_run.induct)
  case start
  show ?case
    using assms(2,4) felt_spec.felt_add_0 [OF assms(1)] felt_spec.felt_ok_zero [OF assms(1)]
    by (auto simp: follows_def track_slots_def intro!: vault_run.start exI [of _ "[]"])
next
  case (vault_add steps h k q h' a v' b)
  have "asset_ok P a" using asset_try_from_word_ok vault_add.hyps by blast
  moreover have "th_account_delta h' = (th_account_delta h)\<lparr>dt_vault := tracker_add_asset P (dt_vault (th_account_delta h)) a\<rparr>"
    using on_event_Ok [OF vault_add.hyps(2)] vault_add.hyps by (auto simp: on_account_vault_add_asset_def Let_def split: if_splits)
  moreover have ih: "follows P st k0 (th_account_delta h) k" using vault_add.IH vault_add.prems by simp
  ultimately show ?case using vault_add.hyps vault_add.prems follows_vault_run [OF ih] by (auto intro!: follows_vault vault_run.add)
next
  case (vault_remove steps h k q h' a v')
  have "asset_ok P a" using asset_try_from_word_ok vault_remove.hyps by blast
  moreover have "th_account_delta h' = (th_account_delta h)\<lparr>dt_vault := tracker_remove_asset P (dt_vault (th_account_delta h)) a\<rparr>"
    using on_event_Ok [OF vault_remove.hyps(2)] vault_remove.hyps by (auto simp: on_account_vault_remove_asset_def Let_def split: if_splits)
  moreover have pos: "positive_asset a" and ih: "follows P st k0 (th_account_delta h) k" using vault_remove.IH vault_remove.prems by simp_all
  moreover have "abs_remove (ka_vault k) a = (v', Ok a)"
    using vault_remove.hyps(5) pos by (auto simp: positive_asset_def split: asset.splits)
  ultimately show ?case using follows_vault_run [OF ih] by (auto intro!: follows_vault vault_run.remove)
next
  case (set_slot steps h k q h' i root)
  have upd: "th_account_delta h' = (let d = th_account_delta h in if ka_slots k i \<noteq> pushed_word Z q
      then d\<lparr>dt_storage := slot_update (dt_storage d) i (pushed_word Z q)\<rparr> else d)"
    using on_event_Ok [OF set_slot.hyps(2)] set_slot.hyps by (auto simp: on_account_storage_set_item_def pushed_word_def Let_def split: if_splits)
  have "follows P st k0 (th_account_delta h) k" "slot_mutable st i" using set_slot.IH set_slot.prems by simp_all
  from follows_set_slot [OF this set_slot.hyps(4) upd [unfolded Let_def]] show ?case by simp
next
  case (nonce steps h k q h')
  then have n: "felt_ok P (dt_nonce_delta (th_account_delta h))"
    "ka_nonce k = felt_add P (ka_nonce k0) (dt_nonce_delta (th_account_delta h))" by (simp_all add: follows_def)
  have "th_account_delta h' = increment_nonce P (th_account_delta h) (ps_stack_item Z q 0)"
    using on_event_Ok [OF nonce.hyps(2)] by (auto simp: on_account_increment_nonce_def split: if_splits)
  then show ?case
    using nonce.IH nonce.prems nonce.hyps(3) n felt_spec.felt_add_ok [OF assms(1)] felt_spec.felt_add_assoc [OF assms(1)] assms(2)
    by (simp add: follows_def increment_nonce_def)
next
  case (other steps h k q ev h')
  have "th_account_delta h' = th_account_delta h"
    using on_event_Ok [OF other.hyps(2)] other.hyps(3) by (auto simp: on_note_created_def on_account_push_procedure_index_def split: if_splits result.splits)
  then show ?case using other.IH other.prems by simp
qed simp_all

lemma host_new_delta:
  assumes "host_new P M V (account_to_stub T S a) w = Ok h"
  shows "th_account_delta h = \<lparr> dt_storage = \<lparr> slot_updates = [] \<rparr>, dt_vault = vault_tracker_default,
    dt_init_nonce = acct_nonce a, dt_nonce_delta = 0 \<rparr>"
  using assms by (auto simp: host_new_def res_simps delta_tracker_new_def account_to_stub_def account_stub_new_def)

section \<open>Created notes\<close>

text \<open>The operand stack when the kernel has created a note with one asset.\<close>

definition note_stack :: "prims \<Rightarrow> felt \<Rightarrow> note_metadata \<Rightarrow> asset \<Rightarrow> digest \<Rightarrow> felt list" where
  "note_stack P ptr md a recipient =
     [md_aux md, note_type_to_felt P (md_note_type md), id_felt (md_sender md), note_tag_to_felt P (md_tag md), ptr]
     @ rev (elements (asset_to_word P a)) @ rev (elements recipient)"

lemma note_stack_nth:
  "length (note_stack P ptr md a recipient @ rest) \<ge> 13"
  "(note_stack P ptr md a recipient @ rest) ! 0 = md_aux md"
  "(note_stack P ptr md a recipient @ rest) ! 1 = note_type_to_felt P (md_note_type md)"
  "(note_stack P ptr md a recipient @ rest) ! 2 = id_felt (md_sender md)"
  "(note_stack P ptr md a recipient @ rest) ! 3 = note_tag_to_felt P (md_tag md)"
  "W ((note_stack P ptr md a recipient @ rest) ! 8) ((note_stack P ptr md a recipient @ rest) ! 7)
     ((note_stack P ptr md a recipient @ rest) ! 6) ((note_stack P ptr md a recipient @ rest) ! 5) = asset_to_word P a"
  "W ((note_stack P ptr md a recipient @ rest) ! 12) ((note_stack P ptr md a recipient @ rest) ! 11)
     ((note_stack P ptr md a recipient @ rest) ! 10) ((note_stack P ptr md a recipient @ rest) ! 9) = recipient"
  by (cases "asset_to_word P a"; cases recipient; simp add: note_stack_def)+

context felt_spec
begin

lemma created_note_stack:
  assumes "metadata_ok P md" "asset_ok P a" "note_assets_new P [a] = Ok vault"
  shows "created_note P Q V w (note_stack P ptr md a recipient @ rest) =
    (if md_note_type md = Public then public_note P Q V w md vault recipient
     else if md_note_type md = OffChainNote
       then Ok (PrivateNote \<lparr> env_note_id = note_id_new P recipient (na_hash vault), env_metadata = md \<rparr>)
     else Panic ''NoteType checked above'')"
proof -
  have "note_type_try_from_felt (note_type_to_felt P (md_note_type md)) = Ok (md_note_type md)"
    by (simp add: note_type_try_from_felt_def note_type_to_felt_def felt_new_note_type note_type_u64_round_trip)
  moreover have "try_from_felt (id_felt (md_sender md)) = Ok (md_sender md)"
    using assms(1) by (simp add: metadata_ok_def account_id_ok_def try_from_felt_valid)
  moreover have "note_tag_try_from_u64 (note_tag_to_felt P (md_tag md)) = Some (md_tag md)"
    by (cases "md_tag md") (simp add: note_tag_try_from_u64_def note_tag_to_felt_def felt_new_u32 try_into_u32_ucast)
  moreover have "note_metadata_new (md_sender md) (md_note_type md) (md_tag md) (md_aux md) = Ok md"
    using assms(1) by (simp add: note_metadata_new_Ok metadata_ok_def)
  moreover have "\<not> length (note_stack P ptr md a recipient @ rest) < 13" using note_stack_nth(1) by (simp add: not_less)
  ultimately show ?thesis
    unfolding created_note_def note_stack_nth Let_def
    by (cases "md_note_type md") (simp_all add: asset_word_round_trip [OF assms(2)] assms(3) note_envelope_new_def)
qed

lemma public_note_expected:
  assumes "recipient_ok P r"
    "program_from_bytes Q (script_decoded_bytes (put_program Q (script_code (rcp_script r)))) = Ok (script_code (rcp_script r))"
    "pv_mapped_values V w (rcp_digest r) = Some (recipient_to_elements r)"
    "pv_mapped_values V w (commitment_to_key P (ni_hash (rcp_inputs r))) = Some (ni_values (rcp_inputs r))"
    "pv_mapped_values V w (script_hash (rcp_script r)) = Some (note_script_to_felts P Q (rcp_script r))"
  shows "public_note P Q V w md vault (rcp_digest r) = Ok (PublicNote (note_new P vault md r))"
proof -
  obtain i0 i1 i2 i3 s0 s1 s2 s3 n0 n1 n2 n3 where h: "ni_hash (rcp_inputs r) = W i0 i1 i2 i3" "script_hash (rcp_script r) = W s0 s1 s2 s3"
    "rcp_serial_num r = W n0 n1 n2 n3" by (metis word4.exhaust)
  have el: "recipient_to_elements r = [i0, i1, i2, i3, s0, s1, s2, s3, n0, n1, n2, n3]" by (simp add: recipient_to_elements_def h)
  have script: "note_script_try_from_felts Q (note_script_to_felts P Q (rcp_script r)) = Ok (rcp_script r)"
    by (simp add: assms(2) note_script_felts note_script_from_parts_def)
  have inputs: "note_inputs_new P (ni_values (rcp_inputs r)) = Ok (rcp_inputs r)" and
    r: "note_recipient_new P (W n0 n1 n2 n3) (rcp_script r) (rcp_inputs r) = r"
    using assms(1) by (simp_all add: recipient_ok_def note_inputs_ok_def flip: h(3))
  show ?thesis unfolding public_note_def assms(3) el
    using assms(4,5) by (simp add: h script inputs r Let_def)
qed

end

lemma expected_note_lookup:
  assumes "advice_map_spec D" "r = nt_recipient n"
    "distinct [rcp_digest r, commitment_to_key P (ni_hash (rcp_inputs r)), script_hash (rcp_script r)]"
    "m = ta_advice_map (add_expected_output_note P Q D args n)"
  shows "am_get D m (rcp_digest r) = Some (recipient_to_elements r)"
    "am_get D m (commitment_to_key P (ni_hash (rcp_inputs r))) = Some (ni_values (rcp_inputs r))"
    "am_get D m (script_hash (rcp_script r)) = Some (note_script_to_felts P Q (rcp_script r))"
  using assms(3) by (simp_all add: assms(2,4) add_expected_output_note_def Let_def advice_map_spec.am_get_insert [OF assms(1)])

lemma script_decoded_prefix:
  assumes "length bs mod 4 \<noteq> 1"
  obtains zs where "script_decoded_bytes bs = bs @ zs"
proof -
  have "\<exists>zs. script_decoded_bytes bs = bs @ zs" using assms by (simp add: script_decoded_bytes_def)
  then show thesis using that by blast
qed

lemma created_note_metadata:
  assumes "created_note P Q V w stack = Ok n" "list_all (felt_ok P) stack"
  shows "metadata_ok P (output_note_metadata n)"
proof -
  have len: "13 \<le> length stack" using assms(1) by (auto simp: created_note_def not_less split: if_splits)
  then have "0 < length stack" "2 < length stack" by linarith+
  then have felts: "felt_ok P (stack ! 0)" "felt_ok P (stack ! 2)" using assms(2) unfolding list_all_length by blast+
  obtain ty sender tag md where md: "try_from_felt (stack ! 2) = Ok sender" "note_metadata_new sender ty tag (stack ! 0) = Ok md"
    "output_note_metadata n = md"
    using assms(1) len
    by (auto simp: created_note_def public_note_def Let_def res_simps note_envelope_new_def note_new_def split: if_splits)
  have "account_id_ok P sender" using md(1) felts(2) by (auto simp: try_from_felt_eq_Ok account_id_ok_def)
  then show ?thesis using md(2,3) felts(1) by (auto simp: note_metadata_new_Ok metadata_ok_def)
qed

section \<open>A concrete machine\<close>

definition sample_process :: "felt list process_ops" where
  "sample_process = \<lparr> ps_stack_state = (\<lambda>q. q), ps_stack_item = (\<lambda>q i. q ! i),
     ps_stack_word = (\<lambda>q i. W (q ! (4 * i + 3)) (q ! (4 * i + 2)) (q ! (4 * i + 1)) (q ! (4 * i))),
     ps_root_mem_value = (\<lambda>_ _. Some EMPTY_WORD), ps_in_root_context = (\<lambda>_. True) \<rparr>"

definition sample_provider :: "(u64 \<times> word4) list \<Rightarrow> (digest \<times> felt list) list provider_ops" where
  "sample_provider t = \<lparr> pv_mapped_values = map_of, pv_tree_node = (\<lambda>_ _ _ _. Ok EMPTY_WORD), pv_push_stack = (\<lambda>w _. Ok w),
     pv_store_node = (\<lambda>_ _ i. map_err (\<lambda>_. MerkleError []) (ssmt_get (sample_ssmt 8) t (node_value i))) \<rparr>"

definition sample_show :: show_ops where
  "sample_show = \<lparr> show_kernel_error = (\<lambda>_. []), show_event_parsing_error = (\<lambda>_. []) \<rparr>"

definition sample_host :: "(digest \<times> felt list) list \<Rightarrow> ((digest \<times> felt list) list, u8 list) transaction_host" where
  "sample_host w = \<lparr> th_adv_provider = w,
     th_account_delta = delta_tracker_new (account_to_stub sample_smt (sample_ssmt 8) (sample_account EMPTY_WORD)),
     th_proc_index_map = [], th_output_notes = [] \<rparr>"

lemma sample_code_tree:
  "code_inv sample_prims (sample_ssmt 8) (sample_code [W 1 2 3 4])"
  "unat i < 256 \<Longrightarrow> \<exists>d. ssmt_get (sample_ssmt 8) (procedure_tree (sample_code [W 1 2 3 4])) i = Ok d \<and>
      pv_store_node (sample_provider (procedure_leaves sample_prims [W 1 2 3 4])) w (code_root (sample_ssmt 8) (sample_code [W 1 2 3 4]))
        \<lparr> node_depth = 8, node_value = i \<rparr> = Ok d"
proof -
  show inv: "code_inv sample_prims (sample_ssmt 8) (sample_code [W 1 2 3 4])"
    by (rule sample_code_inv) (simp_all add: sample_felt_ok)
  show "\<exists>d. ssmt_get (sample_ssmt 8) (procedure_tree (sample_code [W 1 2 3 4])) i = Ok d \<and>
      pv_store_node (sample_provider (procedure_leaves sample_prims [W 1 2 3 4])) w (code_root (sample_ssmt 8) (sample_code [W 1 2 3 4]))
        \<lparr> node_depth = 8, node_value = i \<rparr> = Ok d" if "unat i < 256"
    using storage_spec.code_inv_leaves [OF sample_storage_laws.storage_spec_axioms inv that]
    by (simp add: sample_provider_def sample_code_def)
qed

lemma sample_index_map:
  obtains m where "proc_index_map_new sample_prims sample_merkle (sample_provider (procedure_leaves sample_prims [W 1 2 3 4]))
    (code_root (sample_ssmt 8) (sample_code [W 1 2 3 4])) w = (Ok m :: (proc_index_map, 'e) result)"
proof -
  have "EMPTY_WORD \<notin> set (procedures (sample_code [W 1 2 3 4]))" by (simp add: sample_code_def)
  from proc_index_map_new_eq [OF sample_storage_laws.storage_spec_axioms sample_merkle_laws.merkle_spec_axioms
      sample_code_tree(1) this sample_code_tree(2)]
  show thesis using that by blast
qed

text \<open>A run that adds an asset, writes slot 4 and increments the nonce.\<close>

abbreviation sample_kernel_start :: kernel_account where
  "sample_kernel_start \<equiv> \<lparr> ka_vault = vault_abs sample_smt sample_vault,
     ka_slots = slots_abs (sample_ssmt 8) (sample_storage EMPTY_WORD), ka_nonce = 3,
     ka_code_root = code_root (sample_ssmt 8) (sample_code [W 1 2 3 4]) \<rparr>"

lemma sample_kernel_start: "kernel_start sample_smt (sample_ssmt 8) (sample_account EMPTY_WORD) = sample_kernel_start"
  by (simp add: kernel_start_def sample_account_def account_new_def)

lemma sample_kernel_run:
  fixes h :: "((digest \<times> felt list) list, u8 list) transaction_host"
  assumes "V = sample_provider t" "d = th_account_delta h" "k = sample_kernel_start"
  shows "kernel_run sample_prims sample_prog V sample_process sample_show acct (h, k)
    [AddAsset sample_nft, SetItem 4 (W 1 2 3 4), IncrNonce 1]
    (h\<lparr>th_account_delta := increment_nonce sample_prims (d\<lparr>dt_vault := tracker_add_asset sample_prims (dt_vault d) sample_nft,
        dt_storage := slot_update (dt_storage d) 4 (W 1 2 3 4)\<rparr>) 1\<rparr>,
     k\<lparr>ka_vault := fst (abs_add (ka_vault k) sample_nft), ka_slots := (ka_slots k)(4 := W 1 2 3 4), ka_nonce := 4\<rparr>)"
    (is "kernel_run _ _ _ _ _ _ _ _ (?h3, ?k3)")
proof -
  let ?v = "fst (abs_add (ka_vault k) sample_nft)"
  let ?run = "kernel_run sample_prims sample_prog V sample_process sample_show acct (h, k)"
  let ?d1 = "d\<lparr>dt_vault := tracker_add_asset sample_prims (dt_vault d) sample_nft\<rparr>"
  let ?h1 = "h\<lparr>th_account_delta := ?d1\<rparr>" and ?k1 = "k\<lparr>ka_vault := ?v\<rparr>"
  have nft: "asset_try_from_word sample_prims (W 1 0x300000000000001F 2 3) = Ok sample_nft"
    using sample_felt_laws.asset_word_round_trip [OF sample_assets_ok(2)] by (simp add: sample_nft_def)
  have 1: "?run ([] @ [AddAsset sample_nft]) (?h1, ?k1)"
  proof (rule kernel_run.vault_add [OF kernel_run.start, where q = "[3, 2, 0x300000000000001F, 1]" and a = sample_nft and b = sample_nft])
    show "on_event sample_prims sample_prog V sample_process sample_show h [3, 2, 0x300000000000001F, 1]
        (event_id AccountVaultAddAsset) = (?h1, Ok ())"
      unfolding on_event_id by (simp add: sample_process_def on_account_vault_add_asset_def nft Let_def assms(2))
    show "abs_add (ka_vault k) sample_nft = (?v, Ok sample_nft)"
      by (simp add: assms(3) sample_nft_def vault_abs_def sample_smt_def sample_vault_def)
  qed (simp_all add: sample_process_def sample_felt_ok nft)
  let ?d2 = "?d1\<lparr>dt_storage := slot_update (dt_storage d) 4 (W 1 2 3 4)\<rparr>"
  let ?h2 = "h\<lparr>th_account_delta := ?d2\<rparr>" and ?k2 = "?k1\<lparr>ka_slots := (ka_slots ?k1)(4 := pushed_word sample_process [4, 4, 3, 2, 1])\<rparr>"
  have w: "pushed_word sample_process [4, 4, 3, 2, 1] = W 1 2 3 4" by (simp add: pushed_word_def sample_process_def)
  have 2: "?run (([] @ [AddAsset sample_nft]) @ [SetItem 4 (pushed_word sample_process [4, 4, 3, 2, 1])]) (?h2, ?k2)"
  proof (rule kernel_run.set_slot [OF 1, where root = EMPTY_WORD])
    show "on_event sample_prims sample_prog V sample_process sample_show ?h1 [4, 4, 3, 2, 1]
        (event_id AccountStorageSetItem) = (?h2, Ok ())"
      unfolding on_event_id
      by (simp add: sample_process_def on_account_storage_set_item_def sample_provider_def assms(1) NUM_STORAGE_SLOTS_def Let_def)
  qed (simp_all add: w sample_felt_ok, simp_all add: sample_process_def sample_provider_def assms sample_storage_abs)
  have "?run ((([] @ [AddAsset sample_nft]) @ [SetItem 4 (pushed_word sample_process [4, 4, 3, 2, 1])]) @ [IncrNonce (ps_stack_item sample_process [1] 0)]) (?h3, ?k2\<lparr>ka_nonce := felt_add sample_prims (ka_nonce ?k2) (ps_stack_item sample_process [1] 0)\<rparr>)"
  proof (rule kernel_run.nonce [OF 2])
    show "on_event sample_prims sample_prog V sample_process sample_show ?h2 [1] (event_id AccountIncrementNonce) = (?h3, Ok ())"
      unfolding on_event_id by (simp add: sample_process_def on_account_increment_nonce_def)
  qed (simp_all add: sample_process_def sample_felt_ok)
  moreover have "felt_add sample_prims 3 1 = 4" by (simp add: sample_prims_def)
  moreover have "ps_stack_item sample_process [1] 0 = 1" by (simp add: sample_process_def)
  ultimately show ?thesis by (simp add: w assms(3))
qed

lemma sample_steps_replayable:
  "list_all (replayable (sample_storage EMPTY_WORD)) [AddAsset sample_nft, SetItem 4 (W 1 2 3 4), IncrNonce 1]"
  by (simp add: positive_asset_def sample_storage_mutable, simp add: sample_nft_def)

text \<open>What the tracker holds after a run on an account.\<close>

lemma kernel_run_tracked:
  assumes laws: "felt_spec P" and ok: "felt_ok P (acct_nonce a)"
    and h0: "host_new P M V (account_to_stub T S a) w = (Ok h0 :: (_, 'f) result)"
    and run: "kernel_run P Q V Z F (acct_id a) (h0, kernel_start T S a) steps (h, k)" "list_all (replayable (acct_storage a)) steps"
    and d: "d = th_account_delta h"
  obtains us where "dt_init_nonce d = acct_nonce a" "vault_run P (vault_abs T (acct_vault a)) (dt_vault d) (ka_vault k)"
    "felt_ok P (dt_nonce_delta d)" "ka_nonce k = felt_add P (acct_nonce a) (dt_nonce_delta d)" "dt_storage d = track_slots us"
    "list_all (\<lambda>(i, w). slot_mutable (acct_storage a) i \<and> word_ok P w) us"
    "ka_slots k = (\<lambda>i. case map_of (rev us) i of None \<Rightarrow> slots_abs S (acct_storage a) i | Some w \<Rightarrow> w)"
    "ka_code_root k = code_root S (acct_code a)"
proof -
  have "follows P (acct_storage a) (kernel_start T S a) d k"
    using kernel_run_follows [OF laws _ run(1) _ run(2)] ok host_new_delta [OF h0] d by (simp add: kernel_start_def)
  then show thesis using that unfolding follows_def kernel_start_def kernel_account.select_convs by blast
qed

lemma kernel_delta_replays:
  assumes spec: "account_spec P T S" and inv: "account_inv P T S a" and pos: "vault_positive (vault_abs T (acct_vault a))"
    and h0: "host_new P M V (account_to_stub T S a) w = (Ok h0 :: (_, 'f) result)"
    and run: "kernel_run P Q V Z F (acct_id a) (h0, kernel_start T S a) steps (h, k)" "list_all (replayable (acct_storage a)) steps"
    and d: "d = th_account_delta h" "length (vt_fungible (dt_vault d)) + length (vt_non_fungible (dt_vault d)) \<le> 65535"
      "slot_updates (dt_storage d) \<noteq> [] \<or> vt_fungible (dt_vault d) \<noteq> [] \<or> vt_non_fungible (dt_vault d) \<noteq> []"
    and nonce: "acct_nonce a < ka_nonce k"
  shows "\<exists>delta a'. host_into_parts P h = (Ok (th_adv_provider h, delta, th_output_notes h) :: (_, 'e) result) \<and>
    account_apply_delta P T S a delta = (a', Ok ()) \<and> kernel_start T S a' = k \<and> acct_id a' = acct_id a \<and> acct_code a' = acct_code a \<and> account_inv P T S a'"
proof -
  have laws: "felt_spec P" using spec by (simp add: account_spec_def storage_spec_def)
  have ok: "felt_ok P (acct_nonce a)" using inv by (simp add: account_inv_def)
  obtain us where f: "dt_init_nonce d = acct_nonce a" "vault_run P (vault_abs T (acct_vault a)) (dt_vault d) (ka_vault k)"
    "felt_ok P (dt_nonce_delta d)" "ka_nonce k = felt_add P (acct_nonce a) (dt_nonce_delta d)" "dt_storage d = track_slots us"
    "list_all (\<lambda>(i, w). slot_mutable (acct_storage a) i \<and> word_ok P w) us"
    "ka_slots k = (\<lambda>i. case map_of (rev us) i of None \<Rightarrow> slots_abs S (acct_storage a) i | Some w \<Rightarrow> w)"
    "ka_code_root k = code_root S (acct_code a)"
    by (rule kernel_run_tracked [OF laws ok h0 run d(1)])
  have "us \<noteq> [] \<or> vt_fungible (dt_vault d) \<noteq> [] \<or> vt_non_fungible (dt_vault d) \<noteq> []"
    using d(3) f(5) by (auto simp: track_slots_def)
  moreover have "dt_nonce_delta d \<noteq> 0" using nonce f(4) felt_spec.felt_add_0 [OF laws ok] by auto
  moreover have "d = \<lparr> dt_storage = track_slots us, dt_vault = dt_vault d, dt_init_nonce = acct_nonce a,
      dt_nonce_delta = dt_nonce_delta d \<rparr>" using f(1,5) by simp
  ultimately obtain delta a' where t: "tracker_into_delta P d = (Ok delta :: (account_delta, 'e) result)"
    "account_apply_delta P T S a delta = (a', Ok ())" "vault_abs T (acct_vault a') = ka_vault k"
    "\<And>i. slots_abs S (acct_storage a') i = ka_slots k i" "acct_nonce a' = ka_nonce k" "acct_id a' = acct_id a" "acct_code a' = acct_code a"
    "account_inv P T S a'"
    using tracker_delta_replays [OF spec inv pos f(2) d(2) f(6), where nd = "dt_nonce_delta d" and 'e = 'e] nonce f(3,4,7) by auto
  have "slots_abs S (acct_storage a') = ka_slots k" using t(4) by blast
  then have "kernel_start T S a' = k" using t(3,5,7) f(8) by (simp add: kernel_start_def)
  then show ?thesis using t(1,2,6-8) unfolding d(1) by (intro exI [of _ delta] exI [of _ a']) (simp add: host_into_parts_def)
qed

lemma kernel_delta_applies:
  assumes spec: "account_spec P T S" and inv: "account_inv P T S a" and pos: "vault_positive (vault_abs T (acct_vault a))"
    and h0: "host_new P M V (account_to_stub T S a) w = (Ok h0 :: (_, 'f) result)"
    and run: "kernel_run P Q V Z F (acct_id a) (h0, kernel_start T S a) steps (h, k)" "list_all (replayable (acct_storage a)) steps"
    and d: "d = th_account_delta h" "length (vt_fungible (dt_vault d)) + length (vt_non_fungible (dt_vault d)) \<le> 65535"
    and delta: "tracker_into_delta P d = (Ok delta :: (account_delta, 'e) result)" and nonce: "acct_nonce a \<le> ka_nonce k"
  shows "\<exists>a'. account_apply_delta P T S a delta = (a', Ok ()) \<and> kernel_start T S a' = k \<and> acct_id a' = acct_id a \<and> acct_code a' = acct_code a \<and> account_inv P T S a'"
proof -
  have laws: "felt_spec P" using spec by (simp add: account_spec_def storage_spec_def)
  have ok: "felt_ok P (acct_nonce a)" using inv by (simp add: account_inv_def)
  obtain us where f: "dt_init_nonce d = acct_nonce a" "vault_run P (vault_abs T (acct_vault a)) (dt_vault d) (ka_vault k)"
    "felt_ok P (dt_nonce_delta d)" "ka_nonce k = felt_add P (acct_nonce a) (dt_nonce_delta d)" "dt_storage d = track_slots us"
    "list_all (\<lambda>(i, w). slot_mutable (acct_storage a) i \<and> word_ok P w) us"
    "ka_slots k = (\<lambda>i. case map_of (rev us) i of None \<Rightarrow> slots_abs S (acct_storage a) i | Some w \<Rightarrow> w)"
    "ka_code_root k = code_root S (acct_code a)"
    by (rule kernel_run_tracked [OF laws ok h0 run d(1)])
  have "acct_nonce a < felt_add P (acct_nonce a) (dt_nonce_delta d)" if "dt_nonce_delta d \<noteq> 0"
    using that nonce f(4) felt_spec.felt_add_eq_self [OF laws ok f(3)] by (auto simp: order_less_le)
  moreover have "d = \<lparr> dt_storage = track_slots us, dt_vault = dt_vault d, dt_init_nonce = acct_nonce a,
      dt_nonce_delta = dt_nonce_delta d \<rparr>" using f(1,5) by simp
  ultimately obtain a' where t: "account_apply_delta P T S a delta = (a', Ok ())" "vault_abs T (acct_vault a') = ka_vault k"
    "\<And>i. slots_abs S (acct_storage a') i = ka_slots k i" "acct_nonce a' = ka_nonce k" "acct_id a' = acct_id a" "acct_code a' = acct_code a"
    "account_inv P T S a'"
    using tracker_delta_applies [OF spec inv pos f(2) d(2) f(6,3), where 'e = 'e and d = delta] delta f(4,7) by fastforce
  have "slots_abs S (acct_storage a') = ka_slots k" using t(3) by blast
  then have "kernel_start T S a' = k" using t(2,4,6) f(8) by (simp add: kernel_start_def)
  with t(1,5-7) show ?thesis by blast
qed

section \<open>Properties\<close>

text \<open>
  C2. The delta that a transaction leaves behind.  Start the host on the stub of an account whose vault
  holds no zero balance, and let the kernel work on the account while the host answers its events.
  Assume that every step of the kernel can be expressed by a delta: assets are moved with non-zero amounts,
  only slots are written that the account may change, and the code is not replaced.  Assume also that
  something was recorded, for at most 65535 assets, and that the nonce grew.  Then the host can be taken
  apart without a panic, and applying its delta to the initial account succeeds and gives exactly the vault,
  the slots, the nonce and the code root that the kernel has reached, and a well-formed account with the
  same identifier and code.
\<close>

theorem host_delta_replays:
  assumes spec: "account_spec P T S" and inv: "account_inv P T S a" and pos: "vault_positive (vault_abs T (acct_vault a))"
    and h0: "host_new P M V (account_to_stub T S a) w = (Ok h0 :: (_, unit) result)"
    and run: "kernel_run P Q V Z F (acct_id a) (h0, kernel_start T S a) steps (h, k)" "list_all (replayable (acct_storage a)) steps"
    and d: "d = th_account_delta h" "length (vt_fungible (dt_vault d)) + length (vt_non_fungible (dt_vault d)) \<le> 65535"
      "slot_updates (dt_storage d) \<noteq> [] \<or> vt_fungible (dt_vault d) \<noteq> [] \<or> vt_non_fungible (dt_vault d) \<noteq> []"
    and nonce: "acct_nonce a < ka_nonce k"
  shows "\<exists>delta a'. host_into_parts P h = (Ok (th_adv_provider h, delta, th_output_notes h) :: (_, 'e) result) \<and>
    account_apply_delta P T S a delta = (a', Ok ()) \<and> kernel_start T S a' = k \<and> acct_id a' = acct_id a \<and> acct_code a' = acct_code a \<and> account_inv P T S a'"
  by (rule kernel_delta_replays [OF assms])

theorem host_delta_replays_witness:
  "\<exists>(h :: ((digest \<times> felt list) list, u8 list) transaction_host) delta a'.
     host_into_parts sample_prims h = (Ok ([], delta, []) :: (_, unit) result) \<and>
     account_apply_delta sample_prims sample_smt (sample_ssmt 8) (sample_account EMPTY_WORD) delta = (a', Ok ()) \<and>
     slots_abs (sample_ssmt 8) (acct_storage a') 4 = W 1 2 3 4 \<and> acct_nonce a' = 4"
proof -
  let ?a = "sample_account EMPTY_WORD" and ?V = "sample_provider (procedure_leaves sample_prims [W 1 2 3 4])"
  have acct: "acct_vault ?a = sample_vault" "acct_nonce ?a = 3" "acct_storage ?a = sample_storage EMPTY_WORD"
    "acct_code ?a = sample_code [W 1 2 3 4]" by (simp_all add: sample_account_def account_new_def)
  have "word_ok sample_prims EMPTY_WORD" by (simp add: sample_felt_ok)
  note inv = sample_account_inv [OF this]
  obtain m where m: "proc_index_map_new sample_prims sample_merkle ?V (code_root (sample_ssmt 8) (sample_code [W 1 2 3 4])) []
      = (Ok m :: (proc_index_map, unit) result)" by (rule sample_index_map)
  define h0 :: "((digest \<times> felt list) list, u8 list) transaction_host" where
    "h0 = \<lparr> th_adv_provider = [], th_account_delta = delta_tracker_new (account_to_stub sample_smt (sample_ssmt 8) ?a),
       th_proc_index_map = m, th_output_notes = [] \<rparr>"
  have h0: "host_new sample_prims sample_merkle ?V (account_to_stub sample_smt (sample_ssmt 8) ?a) [] = (Ok h0 :: (_, unit) result)"
    using m by (simp add: host_new_def h0_def account_to_stub_def account_stub_new_def acct)
  define d where "d = th_account_delta h0"
  define h where "h = h0\<lparr>th_account_delta := increment_nonce sample_prims (d\<lparr>dt_vault := tracker_add_asset sample_prims (dt_vault d) sample_nft,
    dt_storage := slot_update (dt_storage d) 4 (W 1 2 3 4)\<rparr>) 1\<rparr>"
  let ?k = "sample_kernel_start\<lparr>ka_vault := fst (abs_add (ka_vault sample_kernel_start) sample_nft),
    ka_slots := (ka_slots sample_kernel_start)(4 := W 1 2 3 4), ka_nonce := 4\<rparr>"
  note run = sample_kernel_run [OF refl d_def refl, where acct = "acct_id ?a", folded h_def]
  have vt: "vt_non_fungible (dt_vault (th_account_delta h)) = [(W 1 0x300000000000001F 2 3, 1)]" "vt_fungible (dt_vault (th_account_delta h)) = []"
    by (simp_all add: h_def d_def h0_def delta_tracker_new_def increment_nonce_def vault_tracker_default_def sample_nft_def
        update_asset_delta_def non_fungible_vault_key_def)
  from host_delta_replays [OF sample_account_laws.account_spec_axioms inv _ h0, where 'e = unit, unfolded acct sample_kernel_start,
    OF _ run sample_steps_replayable refl]
  obtain delta a' where "host_into_parts sample_prims h = (Ok (th_adv_provider h, delta, th_output_notes h) :: (_, unit) result)"
    "account_apply_delta sample_prims sample_smt (sample_ssmt 8) ?a delta = (a', Ok ())"
    "kernel_start sample_smt (sample_ssmt 8) a' = ?k"
    using sample_vault_positive vt by auto
  moreover from this(3) have "slots_abs (sample_ssmt 8) (acct_storage a') 4 = W 1 2 3 4" "acct_nonce a' = 4"
    by (simp_all add: kernel_start_def)
  moreover have "th_adv_provider h = []" "th_output_notes h = []" by (simp_all add: h_def h0_def)
  ultimately show ?thesis by auto
qed


text \<open>
  C13. Expected notes reach the outputs.  Register a public note with one asset as an expected output
  note of a transaction, and give the resulting advice map to the host.  When the kernel then
  reports that it has created a note with this metadata, asset and recipient, the host rebuilds
  exactly the registered note, with its script, inputs and serial number, provided that the three
  entries have different keys and that the byte length of the script is not 1 modulo 4.
\<close>

theorem expected_note_reconstructed:
  assumes "felt_spec P" "advice_map_spec D" "note_ok P n" "na_assets (nt_assets n) = [a]" "md_note_type (nt_metadata n) = Public"
    and r: "r = nt_recipient n" "distinct [rcp_digest r, commitment_to_key P (ni_hash (rcp_inputs r)), script_hash (rcp_script r)]"
    and script: "bytes = put_program Q (script_code (rcp_script r))" "length bytes mod 4 \<noteq> 1"
      "\<And>zs. program_from_bytes Q (bytes @ zs) = Ok (script_code (rcp_script r))"
    and map: "\<And>k. pv_mapped_values V (th_adv_provider h) k = am_get D (ta_advice_map (add_expected_output_note P Q D args n)) k"
    and stack: "ps_stack_state Z q = note_stack P ptr (nt_metadata n) a (rcp_digest r) @ rest"
  shows "on_note_created P Q V Z h q = (h\<lparr>th_output_notes := th_output_notes h @ [PublicNote n]\<rparr>, Ok ())"
proof -
  have ok: "metadata_ok P (nt_metadata n)" "asset_ok P a" "note_assets_new P [a] = Ok (nt_assets n)" "recipient_ok P r"
    "n = note_new P (nt_assets n) (nt_metadata n) r"
    using assms(3,4) by (simp_all add: note_ok_def note_assets_ok_def r(1))
  obtain zs where "script_decoded_bytes bytes = bytes @ zs" by (rule script_decoded_prefix [OF script(2)])
  then have code: "program_from_bytes Q (script_decoded_bytes (put_program Q (script_code (rcp_script r)))) = Ok (script_code (rcp_script r))"
    using script(1,3) by simp
  have "public_note P Q V (th_adv_provider h) (nt_metadata n) (nt_assets n) (rcp_digest r) = Ok (PublicNote n)"
    using felt_spec.public_note_expected [OF assms(1) ok(4) code, of V "th_adv_provider h" "nt_metadata n" "nt_assets n"]
      expected_note_lookup [OF assms(2) r refl, where Q = Q and args = args] ok(5) unfolding map by simp
  then show ?thesis
    using felt_spec.created_note_stack [OF assms(1) ok(1-3), of Q V "th_adv_provider h"] assms(5)
    by (simp add: on_note_created_def stack)
qed

theorem expected_note_reconstructed_witness:
  "\<exists>h'. on_note_created sample_prims sample_prog (sample_provider []) sample_process
      (sample_host (ta_advice_map (add_expected_output_note sample_prims sample_prog sample_map (with_note_args sample_map [])
          (sample_note (W 4 3 2 1)))))
      (note_stack sample_prims 0 (nt_metadata (sample_note (W 4 3 2 1))) sample_coin (rcp_digest (nt_recipient (sample_note (W 4 3 2 1)))) @ [])
    = (h', Ok ()) \<and> th_output_notes h' = [PublicNote (sample_note (W 4 3 2 1))]"
proof -
  let ?n = "sample_note (W 4 3 2 1)"
  have ok: "note_ok sample_prims ?n" by (rule sample_note_ok) (simp add: sample_felt_ok)
  have dist: "distinct [rcp_digest (nt_recipient ?n), commitment_to_key sample_prims (ni_hash (rcp_inputs (nt_recipient ?n))),
      script_hash (rcp_script (nt_recipient ?n))]"
    by (simp add: sample_note_def note_new_def note_recipient_new_def compute_recipient_digest_def sample_prims_def sample_hash_def
        pad_inputs_def next_multiple_of_def resize_def)
  have prog: "put_program sample_prog (script_code (rcp_script (nt_recipient ?n))) = [1, 7, 0]"
    "program_from_bytes sample_prog ([1, 7, 0] @ zs) = Ok (script_code (rcp_script (nt_recipient ?n)))" for zs
    by (simp_all add: sample_prog_def sample_note_def)
  have single: "na_assets (nt_assets ?n) = [sample_coin]" "md_note_type (nt_metadata ?n) = Public" by (simp_all add: sample_note_def)
  show ?thesis
    using expected_note_reconstructed [OF sample_felt_laws.felt_spec_axioms sample_map_laws.advice_map_spec_axioms ok single refl dist
        prog(1) [symmetric] _ prog(2), where V = "sample_provider []" and Z = sample_process and ptr = 0 and rest = "[]"]
    by (simp add: sample_provider_def sample_process_def sample_map_def sample_host_def)
qed


text \<open>
  C14. Events are atomic.  An event that is not answered successfully leaves the host as it was.  An
  unknown event and an event outside the root context are errors.  No event changes the
  procedure map or the initial nonce, and only a creation event adds to the output notes, one note
  at a time, whose metadata is well-formed.
\<close>

theorem host_event_atomic:
  assumes "list_all (felt_ok P) (ps_stack_state Z q)"
  shows "case on_event P Q V Z F h q x of (h', r) \<Rightarrow>
    (r \<noteq> Ok () \<longrightarrow> h' = h) \<and>
    ((\<forall>ev. x \<noteq> event_id ev) \<or> \<not> ps_in_root_context Z q \<longrightarrow> (\<exists>m. r = Err (EventError m))) \<and>
    th_proc_index_map h' = th_proc_index_map h \<and>
    dt_init_nonce (th_account_delta h') = dt_init_nonce (th_account_delta h) \<and>
    (th_output_notes h' = th_output_notes h \<or>
     x = event_id NoteCreated \<and>
       (\<exists>n. th_output_notes h' = th_output_notes h @ [n] \<and> metadata_ok P (output_note_metadata n)))"
proof -
  obtain h' r where ev: "on_event P Q V Z F h q x = (h', r)" by fastforce
  have "\<exists>m. r = Err (EventError m)" if "(\<forall>ev. x \<noteq> event_id ev) \<or> \<not> ps_in_root_context Z q"
  proof (cases "event_try_from x")
    case (Ok e)
    then have "x = event_id e" by (auto simp: event_try_from_def split: if_splits)
    with that have "\<not> ps_in_root_context Z q" by blast
    with Ok ev show ?thesis by (auto simp: on_event_def)
  qed (use ev in \<open>auto simp: on_event_def event_try_from_def split: if_splits\<close>)
  with on_event_frame [OF ev] created_note_metadata [OF _ assms] show ?thesis unfolding ev by auto
qed

theorem host_event_atomic_witness:
  "fst (on_event sample_prims sample_prog (sample_provider []) sample_process sample_show (sample_host []) [1, 2, 3] 0x20006) = sample_host []"
proof -
  have "list_all (felt_ok sample_prims) (ps_stack_state sample_process [1, 2, 3])" by (simp add: sample_process_def sample_felt_ok)
  moreover have "0x20006 \<noteq> event_id ev" for ev by (cases ev) simp_all
  ultimately show ?thesis
    using host_event_atomic [where P = sample_prims and Z = sample_process and q = "[1, 2, 3]" and Q = sample_prog
        and V = "sample_provider []" and F = sample_show and h = "sample_host []" and x = "0x20006"]
    by (auto simp: split_beta)
qed

text \<open>
  C23. Procedure indexes.  For account code without empty procedure roots whose procedure tree is in the
  Merkle store of the provider, the index that the host gives for a procedure root is the position
  of a leaf with this root in the procedure tree, and exactly the procedures of the account have
  an index.
\<close>

theorem host_procedure_index:
  assumes "storage_spec P S" "merkle_spec P M" "code_inv P S c" "EMPTY_WORD \<notin> set (procedures c)"
    "\<And>i. unat i < 256 \<Longrightarrow> \<exists>d. ssmt_get S (procedure_tree c) i = Ok d \<and>
       pv_store_node V w (code_root S c) \<lparr> node_depth = 8, node_value = i \<rparr> = Ok d"
  shows "\<exists>m. proc_index_map_new P M V (code_root S c) w = (Ok m :: (proc_index_map, 'e) result) \<and>
    (case get_proc_index Z m q of
       Ok i \<Rightarrow> ssmt_get S (procedure_tree c) (ucast i) = Ok (ps_stack_word Z q 0) \<and> has_procedure c (ps_stack_word Z q 0)
     | Err e \<Rightarrow> e = UnknownAccountProcedure (ps_stack_word Z q 0) \<and> \<not> has_procedure c (ps_stack_word Z q 0)
     | Panic _ \<Rightarrow> False)"
proof -
  let ?n = "length (procedures c)" and ?qs = "sort_key (digest_as_bytes P) (procedures c)" and ?d = "ps_stack_word Z q 0"
  let ?l = "rev (map (\<lambda>i. (?qs ! i, of_nat i :: u8)) [0..<?n])"
  obtain m where m: "proc_index_map_new P M V (code_root S c) w = (Ok m :: (proc_index_map, 'e) result)" "map_of m = map_of ?l"
    by (rule proc_index_map_new_eq [OF assms])
  have n: "?n \<le> 256" using assms(3) by (simp add: code_inv_def num_procedures_def)
  have keys: "fst ` set ?l = set (procedures c)"
  proof -
    have "fst ` set ?l = (\<lambda>i. ?qs ! i) ` {..<length ?qs}" by (auto simp: image_image)
    also have "\<dots> = set ?qs" by (auto simp: set_conv_nth)
    finally show ?thesis by simp
  qed
  show ?thesis
  proof (cases "map_of ?l ?d")
    case None
    then have "?d \<notin> set (procedures c)" by (simp add: map_of_eq_None_iff keys del: set_rev set_map)
    with m None show ?thesis by (simp add: get_proc_index_def has_procedure_def)
  next
    case (Some i)
    then have "(?d, i) \<in> set ?l" by (rule map_of_SomeD)
    then obtain j where j: "j < ?n" "?d = ?qs ! j" "i = of_nat j" by auto
    then have "unat (ucast i :: u64) = j" using n by (simp add: unsigned_ucast_eq unat_of_nat take_bit_nat_eq_self)
    moreover have "?d \<in> set (procedures c)" using j nth_mem [of j ?qs] by simp
    ultimately show ?thesis
      using m Some j n storage_spec.code_inv_leaves [OF assms(1,3), of "ucast i"]
      by (simp add: get_proc_index_def has_procedure_def)
  qed
qed

theorem host_procedure_index_witness:
  "\<exists>m. proc_index_map_new sample_prims sample_merkle (sample_provider (procedure_leaves sample_prims [W 1 2 3 4]))
      (code_root (sample_ssmt 8) (sample_code [W 1 2 3 4])) [] = (Ok m :: (proc_index_map, unit) result) \<and>
    get_proc_index sample_process m [4, 3, 2, 1] = Ok 0"
proof -
  note index = host_procedure_index [OF sample_storage_laws.storage_spec_axioms sample_merkle_laws.merkle_spec_axioms sample_code_tree(1)
      _ sample_code_tree(2) [of _ "[]"], where Z = sample_process and q = "[4, 3, 2, 1]" and 'e = unit]
  have proc: "has_procedure (sample_code [W 1 2 3 4]) (W 1 2 3 4)" "EMPTY_WORD \<notin> set (procedures (sample_code [W 1 2 3 4]))"
    by (simp_all add: has_procedure_def sample_code_def)
  have word: "ps_stack_word sample_process [4, 3, 2, 1] 0 = W 1 2 3 4" by (simp add: sample_process_def)
  from index [OF proc(2), unfolded word] obtain m where m: "proc_index_map_new sample_prims sample_merkle
      (sample_provider (procedure_leaves sample_prims [W 1 2 3 4])) (code_root (sample_ssmt 8) (sample_code [W 1 2 3 4])) []
      = (Ok m :: (proc_index_map, unit) result)"
    "case get_proc_index sample_process m [4, 3, 2, 1] of
       Ok i \<Rightarrow> ssmt_get (sample_ssmt 8) (procedure_tree (sample_code [W 1 2 3 4])) (ucast i) = Ok (W 1 2 3 4) \<and>
         has_procedure (sample_code [W 1 2 3 4]) (W 1 2 3 4)
     | Err e \<Rightarrow> e = UnknownAccountProcedure (W 1 2 3 4) \<and> \<not> has_procedure (sample_code [W 1 2 3 4]) (W 1 2 3 4)
     | Panic x \<Rightarrow> False" by blast
  then obtain i where i: "get_proc_index sample_process m [4, 3, 2, 1] = Ok i"
    "ssmt_get (sample_ssmt 8) (procedure_tree (sample_code [W 1 2 3 4])) (ucast i) = Ok (W 1 2 3 4)"
    using proc(1) by (cases "get_proc_index sample_process m [4, 3, 2, 1]") simp_all
  have "unat (ucast i :: u64) < 256" using unat_u8_less [of i] by simp
  from storage_spec.code_inv_leaves [OF sample_storage_laws.storage_spec_axioms sample_code_tree(1) this] i(2)
  have "unat (ucast i :: u64) = 0" by (simp add: sample_code_def split: if_splits)
  then have "i = 0" by (simp add: word_unat_eq_iff)
  with m(1) i(1) show ?thesis by blast
qed

text \<open>
  Encrypted notes.  When the kernel creates an encrypted note with well-formed contents, the host
  panics: only off-chain notes have an envelope, and the branch for non-public notes expects one.
\<close>

theorem encrypted_note_panics:
  assumes "felt_spec P" "metadata_ok P md" "md_note_type md = Encrypted" "asset_ok P a"
    "ps_stack_state Z q = note_stack P ptr md a recipient @ rest"
  shows "on_note_created P Q V Z h q = (h, Panic ''NoteType checked above'')"
proof -
  obtain vault where "note_assets_new P [a] = Ok vault" by (simp add: note_assets_new_Ok)
  then show ?thesis
    using felt_spec.created_note_stack [OF assms(1,2,4), of vault Q V "th_adv_provider h"] assms(3,5) by (simp add: on_note_created_def)
qed

end
