(* ===== verification/Compiler.thy ===== *)
theory Compiler
  imports Host
begin

text \<open>
  The transaction compiler (\<open>miden-tx/src/compiler/mod.rs\<close>): it compiles account code, note scripts and
  transaction scripts, checks them against account interfaces and links transaction programs.  A
  compiled program is a tree of code blocks of the virtual machine, whose shape the compiler
  inspects; the operations of the assembler that need an assembly context are the record \<open>B\<close>.
\<close>

section \<open>Code blocks and the assembler\<close>

datatype code_block =
    Join code_block code_block
  | Split (on_true: code_block) (on_false: code_block)
  | Loop code_block
  | Call (fn_hash: digest) (is_syscall: bool)
  | Span digest
  | Proxy digest
  | Dyn

record ('p, 'x, 't, 'c) assembler_ops =
  context_for_program :: "'p option \<Rightarrow> 'x"
  compile_with :: "'x \<Rightarrow> 'p \<Rightarrow> 'x \<times> (code_block, assembly_error) result"
  build_cb_table :: "'x \<Rightarrow> ('t, assembly_error) result"
  cb_insert :: "'t \<Rightarrow> code_block \<Rightarrow> 't"
  with_kernel :: "code_block \<Rightarrow> 't \<Rightarrow> 'c"

datatype transaction_compiler_error =
    AccountInterfaceNotFound account_id
  | BuildCodeBlockTableFailed assembly_error
  | CompileNoteScriptFailed assembly_error
  | CompileTxScriptFailed assembly_error
  | LoadAccountFailed account_error
  | NoteIncompatibleWithAccountInterface digest
  | NoteScriptError note_error
  | NoTransactionDriver
  | TxScriptIncompatibleWithAccountInterface digest

record transaction_compiler =
  account_procedures :: "(account_id \<times> digest list) list"
  kernel_main :: code_block

datatype script_target = TargetAccountId account_id | TargetProcedures "digest list"

datatype script_type = NoteScriptType | TransactionScriptType

section \<open>Compatibility of programs and accounts\<close>

fun recursively_collect_call_branches :: "code_block \<Rightarrow> digest list list \<Rightarrow> (digest list list, 'e) result" where
  "recursively_collect_call_branches (Join first second) branches =
     and_then (recursively_collect_call_branches first branches) (recursively_collect_call_branches second)"
| "recursively_collect_call_branches (Split t f) branches =
    (if branches = [] then Panic ''at least one execution branch''
     else
       let current_len = length (last branches) in
       and_then (recursively_collect_call_branches f branches) (\<lambda>branches.
       if branches = [] then Panic ''at least one execution branch''
       else
         let branches = (if length (last branches) > current_len
                         then branches @ [take current_len (last branches)] else branches) in
         recursively_collect_call_branches t branches))"
| "recursively_collect_call_branches (Loop body) branches = recursively_collect_call_branches body branches"
| "recursively_collect_call_branches (Call h syscall) branches =
    (if syscall then Ok branches
     else if branches = [] then Panic ''at least one execution branch''
     else Ok (butlast branches @ [last branches @ [h]]))"
| "recursively_collect_call_branches (Span _) branches = Ok branches"
| "recursively_collect_call_branches (Proxy _) branches = Ok branches"
| "recursively_collect_call_branches Dyn branches = Ok branches"

definition collect_call_branches :: "code_block \<Rightarrow> (digest list list, 'e) result" where
  "collect_call_branches b = recursively_collect_call_branches b [[]]"

definition verify_program_account_compatibility ::
    "('p, code_block) prog_ops \<Rightarrow> code_block \<Rightarrow> digest list \<Rightarrow> script_type \<Rightarrow> (unit, transaction_compiler_error) result" where
  "verify_program_account_compatibility Q program target_account_interface script_type =
     and_then (collect_call_branches program) (\<lambda>branches.
     if \<not> list_ex (list_all (\<lambda>target. target \<in> set target_account_interface)) branches then
       (case script_type of
          NoteScriptType \<Rightarrow> Err (NoteIncompatibleWithAccountInterface (block_hash Q program))
        | TransactionScriptType \<Rightarrow> Err (TxScriptIncompatibleWithAccountInterface (block_hash Q program)))
     else Ok ())"

section \<open>The compiler\<close>

definition compiler_new ::
    "('p, 'x, 't, 'c) assembler_ops \<Rightarrow> ('p, assembly_error) result \<Rightarrow> (transaction_compiler, 'e) result" where
  "compiler_new B main =
     and_then (expect ''main is well formed'' main) (\<lambda>main_ast.
     and_then (expect ''main is well formed'' (snd (compile_with B (context_for_program B (Some main_ast)) main_ast))) (\<lambda>block.
     Ok \<lparr> account_procedures = [], kernel_main = block \<rparr>))"

definition load_account ::
    "prims \<Rightarrow> 's simple_smt_ops \<Rightarrow> 'm asm_ops \<Rightarrow> transaction_compiler \<Rightarrow> account_id \<Rightarrow> 'm
      \<Rightarrow> transaction_compiler \<times> (('m, 's) account_code, transaction_compiler_error) result" where
  "load_account P S A c i code =
    (case map_err LoadAccountFailed (code_new P S A code) of
       Ok ac \<Rightarrow> (c\<lparr>account_procedures := btree_insert (\<le>) i (procedures ac) (account_procedures c)\<rparr>, Ok ac)
     | Err e \<Rightarrow> (c, Err e)
     | Panic x \<Rightarrow> (c, Panic x))"

definition load_account_interface ::
    "transaction_compiler \<Rightarrow> account_id \<Rightarrow> digest list \<Rightarrow> transaction_compiler \<times> digest list option" where
  "load_account_interface c i procs =
    (c\<lparr>account_procedures := btree_insert (\<le>) i procs (account_procedures c)\<rparr>, map_of (account_procedures c) i)"

fun get_target_interface :: "transaction_compiler \<Rightarrow> script_target \<Rightarrow> (digest list, transaction_compiler_error) result" where
  "get_target_interface c (TargetAccountId i) = ok_or (AccountInterfaceNotFound i) (map_of (account_procedures c) i)"
| "get_target_interface c (TargetProcedures procs) = Ok procs"

fun check_targets ::
    "('p, code_block) prog_ops \<Rightarrow> transaction_compiler \<Rightarrow> code_block \<Rightarrow> script_type \<Rightarrow> script_target list
      \<Rightarrow> (unit, transaction_compiler_error) result" where
  "check_targets Q c block ty [] = Ok ()"
| "check_targets Q c block ty (target # targets) =
     and_then (get_target_interface c target) (\<lambda>interface.
     and_then (verify_program_account_compatibility Q block interface ty) (\<lambda>_.
     check_targets Q c block ty targets))"

fun note_script_error :: "note_error \<Rightarrow> transaction_compiler_error" where
  "note_script_error (ScriptCompilationError e) = CompileNoteScriptFailed e"
| "note_script_error e = NoteScriptError e"

definition compile_note_script ::
    "('p, code_block) prog_ops \<Rightarrow> transaction_compiler \<Rightarrow> 'p \<Rightarrow> script_target list
      \<Rightarrow> ('p note_script, transaction_compiler_error) result" where
  "compile_note_script Q c ast targets =
     and_then (map_err note_script_error (note_script_new Q ast)) (\<lambda>(script, block).
     and_then (check_targets Q c block NoteScriptType targets) (\<lambda>_. Ok script))"

fun tx_script_error :: "transaction_script_error \<Rightarrow> transaction_compiler_error" where
  "tx_script_error (TxScriptCompilationError e) = CompileTxScriptFailed e"

definition compile_tx_script ::
    "prims \<Rightarrow> ('p, code_block) prog_ops \<Rightarrow> transaction_compiler \<Rightarrow> 'p \<Rightarrow> (word4 \<times> felt list) list \<Rightarrow> script_target list
      \<Rightarrow> ('p transaction_script, transaction_compiler_error) result" where
  "compile_tx_script P Q c ast inputs targets =
     and_then (map_err tx_script_error (transaction_script_new P Q ast inputs)) (\<lambda>(script, block).
     and_then (check_targets Q c block TransactionScriptType targets) (\<lambda>_. Ok script))"

fun compile_notes ::
    "('p, code_block) prog_ops \<Rightarrow> ('p, 'x, 't, 'c) assembler_ops \<Rightarrow> digest list \<Rightarrow> 'p input_note list \<Rightarrow> 'x
      \<Rightarrow> 'x \<times> (code_block list, transaction_compiler_error) result" where
  "compile_notes Q B interface [] ctx = (ctx, Ok [])"
| "compile_notes Q B interface (n # ns) ctx =
    (case compile_with B ctx (script_code (rcp_script (nt_recipient (in_note n)))) of
       (ctx, r) \<Rightarrow>
         (case and_then (map_err CompileNoteScriptFailed r) (\<lambda>block.
             and_then (verify_program_account_compatibility Q block interface NoteScriptType) (\<lambda>_. Ok block)) of
            Ok block \<Rightarrow> (case compile_notes Q B interface ns ctx of (ctx, r) \<Rightarrow> (ctx, map_ok (\<lambda>blocks. block # blocks) r))
          | Err e \<Rightarrow> (ctx, Err e)
          | Panic x \<Rightarrow> (ctx, Panic x)))"

definition compile_tx_script_program ::
    "('p, code_block) prog_ops \<Rightarrow> ('p, 'x, 't, 'c) assembler_ops \<Rightarrow> 'p \<Rightarrow> 'x \<Rightarrow> digest list
      \<Rightarrow> 'x \<times> (code_block, transaction_compiler_error) result" where
  "compile_tx_script_program Q B script ctx interface =
    (case compile_with B ctx script of
       (ctx, r) \<Rightarrow> (ctx, and_then (map_err CompileTxScriptFailed r) (\<lambda>block.
         and_then (verify_program_account_compatibility Q block interface TransactionScriptType) (\<lambda>_. Ok block))))"

definition compile_optional_script ::
    "('p, code_block) prog_ops \<Rightarrow> ('p, 'x, 't, 'c) assembler_ops \<Rightarrow> 'p option \<Rightarrow> 'x \<Rightarrow> digest list
      \<Rightarrow> 'x \<times> (code_block option, transaction_compiler_error) result" where
  "compile_optional_script Q B script ctx interface =
    (case script of
       Some s \<Rightarrow> (case compile_tx_script_program Q B s ctx interface of (ctx, r) \<Rightarrow> (ctx, map_ok Some r))
     | None \<Rightarrow> (ctx, Ok None))"

definition compile_transaction ::
    "('p, code_block) prog_ops \<Rightarrow> ('p, 'x, 't, 'c) assembler_ops \<Rightarrow> transaction_compiler \<Rightarrow> account_id \<Rightarrow> 'p input_note list
      \<Rightarrow> 'p option \<Rightarrow> ('c, transaction_compiler_error) result" where
  "compile_transaction Q B c account_id ns script =
     and_then (ok_or (AccountInterfaceNotFound account_id) (map_of (account_procedures c) account_id)) (\<lambda>interface.
     if ns = [] \<and> script = None then Err NoTransactionDriver
     else
       case compile_notes Q B interface ns (context_for_program B None) of (ctx, r1) \<Rightarrow>
       and_then r1 (\<lambda>note_programs.
       case compile_optional_script Q B script ctx interface of (ctx, r2) \<Rightarrow>
       and_then r2 (\<lambda>tx_script_program.
       and_then (map_err BuildCodeBlockTableFailed (build_cb_table B ctx)) (\<lambda>cb_table.
       let cb_table = foldl (cb_insert B) cb_table note_programs;
           cb_table = (case tx_script_program of Some b \<Rightarrow> cb_insert B cb_table b | None \<Rightarrow> cb_table) in
       Ok (with_kernel B (kernel_main c) cb_table)))))"

section \<open>What the collected branches are\<close>

text \<open>The branches that one block adds to the current branch.\<close>

fun collected :: "code_block \<Rightarrow> digest list list" where
  "collected (Join a b) = butlast (collected a) @ map ((@) (last (collected a))) (collected b)"
| "collected (Split t f) =
    (if last (collected f) \<noteq> [] then collected f @ collected t else butlast (collected f) @ collected t)"
| "collected (Loop b) = collected b"
| "collected (Call h syscall) = (if syscall then [[]] else [[h]])"
| "collected (Span _) = [[]]"
| "collected (Proxy _) = [[]]"
| "collected Dyn = [[]]"

lemma collected_nonempty [simp]: "collected b \<noteq> []"
  by (induction b) auto

lemma last_map_append [simp]: "xs \<noteq> [] \<Longrightarrow> last (ys @ map f xs) = f (last xs)"
  by (simp add: last_map)

lemma butlast_append_map [simp]: "xs \<noteq> [] \<Longrightarrow> butlast (ys @ map f xs) = ys @ map f (butlast xs)"
  by (simp add: butlast_append map_butlast)

lemma collect_call_branches_into:
  "branches \<noteq> [] \<Longrightarrow> recursively_collect_call_branches b branches =
     (Ok (butlast branches @ map ((@) (last branches)) (collected b)) :: (digest list list, 'e) result)"
proof (induction b arbitrary: branches)
  case (Join a b)
  have "map ((@) (last branches)) (collected a) \<noteq> []" by simp
  with Join show ?case by (simp add: comp_def last_map)
next
  case (Split t f)
  show ?case
  proof (cases "last (collected f) = []")
    case True
    then show ?thesis using Split by (simp add: Let_def last_map)
  next
    case False
    then show ?thesis using Split by (simp add: Let_def last_map butlast_append)
  qed
qed simp_all

lemma collect_call_branches_eq: "collect_call_branches b = (Ok (collected b) :: (digest list list, 'e) result)"
  by (simp add: collect_call_branches_def collect_call_branches_into map_idI)

definition incompatible :: "('p, code_block) prog_ops \<Rightarrow> code_block \<Rightarrow> script_type \<Rightarrow> transaction_compiler_error" where
  "incompatible Q b ty = (case ty of
     NoteScriptType \<Rightarrow> NoteIncompatibleWithAccountInterface (block_hash Q b)
   | TransactionScriptType \<Rightarrow> TxScriptIncompatibleWithAccountInterface (block_hash Q b))"

lemma verify_program_eq:
  "verify_program_account_compatibility Q b procs ty =
     (if \<exists>p \<in> set (collected b). set p \<subseteq> set procs then Ok () else Err (incompatible Q b ty))"
proof -
  have "list_ex (list_all (\<lambda>target. target \<in> set procs)) (collected b) \<longleftrightarrow> (\<exists>p \<in> set (collected b). set p \<subseteq> set procs)"
    unfolding list_ex_iff list_all_iff by blast
  then show ?thesis
    unfolding verify_program_account_compatibility_def collect_call_branches_eq incompatible_def by (cases ty) simp_all
qed

text \<open>All call targets, and the sequences of calls along the execution branches, a loop taken once.\<close>

fun call_targets :: "code_block \<Rightarrow> digest set" where
  "call_targets (Join a b) = call_targets a \<union> call_targets b"
| "call_targets (Split t f) = call_targets t \<union> call_targets f"
| "call_targets (Loop b) = call_targets b"
| "call_targets (Call h syscall) = (if syscall then {} else {h})"
| "call_targets _ = {}"

fun paths :: "code_block \<Rightarrow> digest list list" where
  "paths (Join a b) = concat (map (\<lambda>p. map ((@) p) (paths b)) (paths a))"
| "paths (Split t f) = paths f @ paths t"
| "paths (Loop b) = paths b"
| "paths (Call h syscall) = (if syscall then [[]] else [[h]])"
| "paths (Span _) = [[]]"
| "paths (Proxy _) = [[]]"
| "paths Dyn = [[]]"

lemma set_last_butlast: "xs \<noteq> [] \<Longrightarrow> set xs = insert (last xs) (set (butlast xs))"
  by (cases xs rule: rev_cases) auto

lemma collected_targets: "\<Union> (set ` set (collected b)) = call_targets b"
proof (induction b)
  case (Join a b)
  note eq = set_last_butlast [OF collected_nonempty [of a]]
  show ?case unfolding collected.simps call_targets.simps Join.IH [symmetric] set_append set_map image_Un Union_Un_distrib
    by (subst eq) (use collected_nonempty [of b] in auto)
next
  case (Split t f)
  note eq = set_last_butlast [OF collected_nonempty [of f]]
  have "\<Union> (set ` set (butlast (collected f))) = \<Union> (set ` set (collected f))" if "last (collected f) = []"
    by (subst eq) (simp add: that)
  then show ?case using Split.IH by (auto simp: image_Un)
qed simp_all

text \<open>
  Programs without code after a split, and programs in which the last execution branch of every false
  branch has a call.
\<close>

fun splits_at_end :: "code_block \<Rightarrow> bool" where
  "splits_at_end (Join a b) \<longleftrightarrow> splits_at_end a \<and> splits_at_end b \<and> length (paths a) = 1"
| "splits_at_end (Split t f) \<longleftrightarrow> splits_at_end t \<and> splits_at_end f"
| "splits_at_end (Loop b) \<longleftrightarrow> splits_at_end b"
| "splits_at_end _ \<longleftrightarrow> True"

fun false_branches_call :: "code_block \<Rightarrow> bool" where
  "false_branches_call (Join a b) \<longleftrightarrow> false_branches_call a \<and> false_branches_call b"
| "false_branches_call (Split t f) \<longleftrightarrow> false_branches_call t \<and> false_branches_call f \<and> last (paths f) \<noteq> []"
| "false_branches_call (Loop b) \<longleftrightarrow> false_branches_call b"
| "false_branches_call _ \<longleftrightarrow> True"

lemma collected_paths: "splits_at_end b \<Longrightarrow> false_branches_call b \<Longrightarrow> collected b = paths b"
  by (induction b) (auto simp: length_Suc_conv)

section \<open>Linked programs\<close>

text \<open>The blocks are compiled from the programs and are compatible with the interface.\<close>

definition compiled_for ::
    "('p, code_block) prog_ops \<Rightarrow> ('p, 'x, 't, 'c) assembler_ops \<Rightarrow> digest list \<Rightarrow> script_type \<Rightarrow> 'p \<Rightarrow> code_block \<Rightarrow> bool" where
  "compiled_for Q B interface ty program block \<longleftrightarrow>
     (\<exists>ctx ctx'. compile_with B ctx program = (ctx', Ok block)) \<and>
     verify_program_account_compatibility Q block interface ty = Ok ()"

lemma compile_notes_Ok:
  "compile_notes Q B interface ns ctx = (ctx', Ok blocks) \<Longrightarrow>
     list_all2 (compiled_for Q B interface NoteScriptType) (map (\<lambda>n. script_code (rcp_script (nt_recipient (in_note n)))) ns) blocks"
proof (induction ns arbitrary: ctx blocks)
  case (Cons n ns)
  then show ?case by (auto simp: compiled_for_def res_simps split: prod.splits result.splits)
qed simp

lemma compile_notes_Err:
  "compile_notes Q B interface ns ctx = (ctx', Err e) \<Longrightarrow>
     (\<exists>e'. e = CompileNoteScriptFailed e') \<or> (\<exists>h. e = NoteIncompatibleWithAccountInterface h)"
proof (induction ns arbitrary: ctx)
  case (Cons n ns)
  then show ?case
    by (auto simp: res_simps verify_program_eq incompatible_def split: prod.splits result.splits if_splits)
qed simp

lemma compile_optional_script_Ok:
  "compile_optional_script Q B script ctx interface = (ctx', Ok block) \<Longrightarrow>
     rel_option (compiled_for Q B interface TransactionScriptType) script block"
  by (auto simp: compile_optional_script_def compile_tx_script_program_def compiled_for_def res_simps split: option.splits prod.splits)

lemma compile_optional_script_Err:
  "compile_optional_script Q B script ctx interface = (ctx', Err e) \<Longrightarrow>
     (\<exists>e'. e = CompileTxScriptFailed e') \<or> (\<exists>h. e = TxScriptIncompatibleWithAccountInterface h)"
  by (auto simp: compile_optional_script_def compile_tx_script_program_def res_simps verify_program_eq incompatible_def
      split: option.splits prod.splits if_splits)

lemma compile_no_panic:
  assumes "\<And>ctx p x. snd (compile_with B ctx p) \<noteq> Panic x"
  shows "compile_notes Q B interface ns ctx \<noteq> (ctx', Panic x)" "compile_optional_script Q B script ctx interface \<noteq> (ctx', Panic x)"
proof -
  show "compile_notes Q B interface ns ctx \<noteq> (ctx', Panic x)"
  proof (induction ns arbitrary: ctx)
    case (Cons n ns)
    show ?case using Cons.IH assms [of ctx "script_code (rcp_script (nt_recipient (in_note n)))" x]
      by (auto simp: res_simps verify_program_eq split: prod.splits result.splits if_splits)
  qed simp
  show "compile_optional_script Q B script ctx interface \<noteq> (ctx', Panic x)"
  proof (cases script)
    case (Some s)
    then show ?thesis using assms [of ctx s x]
      by (auto simp: compile_optional_script_def compile_tx_script_program_def res_simps verify_program_eq split: prod.splits if_splits)
  qed (simp add: compile_optional_script_def)
qed

lemma foldl_optional:
  "foldl f t (bs @ (case x of None \<Rightarrow> [] | Some b \<Rightarrow> [b])) = (case x of Some b \<Rightarrow> f (foldl f t bs) b | None \<Rightarrow> foldl f t bs)"
  by (cases x) simp_all

section \<open>A concrete assembler\<close>

text \<open>A program calls the procedures whose first element is one of its bytes.\<close>

definition sample_code_block :: "u8 list \<Rightarrow> code_block" where
  "sample_code_block bs = foldr (\<lambda>b blk. Join (Call (W (ucast b) 0 0 0) False) blk) bs Dyn"

definition sample_block_prog :: "(u8 list, code_block) prog_ops" where
  "sample_block_prog = \<lparr> put_program = put_program sample_prog, get_program = get_program sample_prog,
     program_from_bytes = program_from_bytes sample_prog, compile_in_context = (\<lambda>p. Ok (sample_code_block p)),
     block_hash = (\<lambda>_. W 1 1 1 1) \<rparr>"

definition sample_assembler :: "(u8 list, nat, code_block list, code_block \<times> code_block list) assembler_ops" where
  "sample_assembler = \<lparr> context_for_program = (\<lambda>_. 0), compile_with = (\<lambda>ctx p. (Suc ctx, Ok (sample_code_block p))),
     build_cb_table = (\<lambda>_. Ok []), cb_insert = (\<lambda>t b. b # t), with_kernel = Pair \<rparr>"

section \<open>Properties\<close>

text \<open>
  C11. Compatibility of scripts and accounts.  The check never panics, and reports the hash of the
  program when it fails.  A program all of whose call targets belong to the interface is
  accepted.  For programs without code after a split in which, besides, the last execution branch of
  every false branch has a call, the check accepts exactly if one of the execution branches only calls
  procedures of the interface.
\<close>

theorem program_compatibility:
  "(\<exists>r. verify_program_account_compatibility Q b procs ty = r \<and> (r = Ok () \<or> r = Err (incompatible Q b ty))) \<and>
   (call_targets b \<subseteq> set procs \<longrightarrow> verify_program_account_compatibility Q b procs ty = Ok ()) \<and>
   (splits_at_end b \<and> false_branches_call b \<longrightarrow>
     (verify_program_account_compatibility Q b procs ty = Ok () \<longleftrightarrow> (\<exists>p \<in> set (paths b). set p \<subseteq> set procs)))"
proof (intro conjI impI)
  assume "call_targets b \<subseteq> set procs"
  moreover have "last (collected b) \<in> set (collected b)" by simp
  ultimately have "\<exists>p \<in> set (collected b). set p \<subseteq> set procs" using collected_targets [of b] by blast
  then show "verify_program_account_compatibility Q b procs ty = Ok ()" by (simp add: verify_program_eq)
next
  assume "splits_at_end b \<and> false_branches_call b"
  then show "verify_program_account_compatibility Q b procs ty = Ok () \<longleftrightarrow> (\<exists>p \<in> set (paths b). set p \<subseteq> set procs)"
    by (simp add: verify_program_eq collected_paths)
qed (simp add: verify_program_eq)

theorem program_compatibility_witness:
  "verify_program_account_compatibility sample_block_prog (Split (Call (W 1 0 0 0) False) (Call (W 2 0 0 0) False)) [W 1 0 0 0] NoteScriptType = Ok ()"
proof -
  have "splits_at_end (Split (Call (W 1 0 0 0) False) (Call (W 2 0 0 0) False))"
    "false_branches_call (Split (Call (W 1 0 0 0) False) (Call (W 2 0 0 0) False))" by simp_all
  with program_compatibility [of sample_block_prog "Split (Call (W 1 0 0 0) False) (Call (W 2 0 0 0) False)" "[W 1 0 0 0]" NoteScriptType]
  show ?thesis by simp
qed

text \<open>
  Code after a split is only added to the last branch.  A program that calls \<open>a\<close> or \<open>c\<close> and then \<open>b\<close>
  is accepted for an account that only has \<open>a\<close>, although no execution branch is compatible.  An
  empty false branch is dropped: a program that calls \<open>c\<close> or nothing is rejected for an account
  without \<open>c\<close>, although the branch without a call is compatible.
\<close>

theorem compatibility_differs_from_branches:
  assumes "b \<noteq> a"
  shows "verify_program_account_compatibility Q (Join (Split (Call c False) (Call a False)) (Call b False)) [a] ty = Ok () \<and>
    \<not> (\<exists>p \<in> set (paths (Join (Split (Call c False) (Call a False)) (Call b False))). set p \<subseteq> set [a]) \<and>
    verify_program_account_compatibility Q (Split (Call c False) (Span d)) [] ty \<noteq> Ok () \<and>
    (\<exists>p \<in> set (paths (Split (Call c False) (Span d))). set p \<subseteq> set [])"
  using assms by (simp add: verify_program_eq)

text \<open>
  C12. Linking a transaction.  A program is linked only for a loaded account and only with at least one
  note or a transaction script; it consists of the kernel and of the blocks compiled from the
  note scripts, in order, followed by the one of the transaction script, all of them compatible
  with the interface of the account.  A missing interface and a missing driver are reported
  before anything is compiled.
\<close>

theorem compile_transaction_linked:
  assumes "compile_transaction Q B c i ns script = r"
    and no_panic: "\<And>ctx p x. snd (compile_with B ctx p) \<noteq> Panic x" "\<And>ctx x. build_cb_table B ctx \<noteq> Panic x"
  shows "case map_of (account_procedures c) i of
      None \<Rightarrow> r = Err (AccountInterfaceNotFound i)
    | Some interface \<Rightarrow>
        if ns = [] \<and> script = None then r = Err NoTransactionDriver
        else case r of
          Ok prog \<Rightarrow> (\<exists>blocks tx_block table.
            list_all2 (compiled_for Q B interface NoteScriptType)
              (map (\<lambda>n. script_code (rcp_script (nt_recipient (in_note n)))) ns) blocks \<and>
            rel_option (compiled_for Q B interface TransactionScriptType) script tx_block \<and>
            prog = with_kernel B (kernel_main c)
              (foldl (cb_insert B) table (blocks @ (case tx_block of None \<Rightarrow> [] | Some b \<Rightarrow> [b]))))
        | Err e \<Rightarrow> e \<notin> {AccountInterfaceNotFound i, NoTransactionDriver}
        | Panic _ \<Rightarrow> False"
proof (cases "map_of (account_procedures c) i")
  case (Some interface)
  show ?thesis
  proof (cases "ns = [] \<and> script = None")
    case False
    obtain ctx1 r1 where 1: "compile_notes Q B interface ns (context_for_program B None) = (ctx1, r1)" by fastforce
    obtain ctx2 r2 where 2: "compile_optional_script Q B script ctx1 interface = (ctx2, r2)" by fastforce
    have r: "r = and_then r1 (\<lambda>blocks. and_then r2 (\<lambda>tx_block. and_then (map_err BuildCodeBlockTableFailed (build_cb_table B ctx2)) (\<lambda>table.
        Ok (with_kernel B (kernel_main c) (foldl (cb_insert B) table (blocks @ (case tx_block of None \<Rightarrow> [] | Some b \<Rightarrow> [b])))))))"
      unfolding assms(1) [symmetric] foldl_optional using False by (auto simp: compile_transaction_def Some 1 2 Let_def)
    show ?thesis
    proof (cases r)
      case (Ok prog)
      then obtain blocks tx_block table where ok: "r1 = Ok blocks" "r2 = Ok tx_block"
        "prog = with_kernel B (kernel_main c) (foldl (cb_insert B) table (blocks @ (case tx_block of None \<Rightarrow> [] | Some b \<Rightarrow> [b])))"
        using r by (auto simp only: res_simps result.inject)
      note compiled = compile_notes_Ok [OF 1 [unfolded ok(1)]] compile_optional_script_Ok [OF 2 [unfolded ok(2)]]
      show ?thesis unfolding Some option.case if_not_P [OF False] Ok result.case
        by (intro exI conjI) (rule compiled ok(3))+
    next
      case (Err e)
      have "e \<notin> {AccountInterfaceNotFound i, NoTransactionDriver}"
      proof -
        consider "r1 = Err e" | "r2 = Err e" | x where "e = BuildCodeBlockTableFailed x" using r Err by (cases r1; cases r2; cases "build_cb_table B ctx2") simp_all
        then show ?thesis
          using compile_notes_Err [of Q B interface ns "context_for_program B None" ctx1 e]
            compile_optional_script_Err [of Q B script ctx1 interface ctx2 e] 1 2
          by cases auto
      qed
      then show ?thesis using Some False Err by simp
    next
      case (Panic x)
      then show ?thesis using r compile_no_panic [OF no_panic(1)] 1 2 no_panic(2) [of ctx2]
        by (cases r1; cases r2; cases "build_cb_table B ctx2") auto
    qed
  qed (use assms Some in \<open>simp add: compile_transaction_def\<close>)
qed (use assms in \<open>simp add: compile_transaction_def\<close>)

theorem compile_transaction_linked_witness:
  "let c = fst (load_account_interface \<lparr> account_procedures = [], kernel_main = Dyn \<rparr> sample_faucet [W 7 0 0 0]) in
   (\<exists>prog. compile_transaction sample_block_prog sample_assembler c sample_faucet [] (Some [7]) = Ok prog \<and>
     snd prog = [sample_code_block [7]]) \<and>
   compile_transaction sample_block_prog sample_assembler c sample_faucet [] None = Err NoTransactionDriver"
proof -
  let ?c = "fst (load_account_interface \<lparr> account_procedures = [], kernel_main = Dyn \<rparr> sample_faucet [W 7 0 0 0])"
  have procs: "map_of (account_procedures ?c) sample_faucet = Some [W 7 0 0 0]" by (simp add: load_account_interface_def)
  have "\<exists>prog. compile_transaction sample_block_prog sample_assembler ?c sample_faucet [] (Some [7]) = Ok prog"
    by (simp add: compile_transaction_def procs compile_optional_script_def compile_tx_script_program_def sample_assembler_def
        verify_program_eq sample_code_block_def Let_def)
  moreover have "\<forall>prog. compile_transaction sample_block_prog sample_assembler ?c sample_faucet [] (Some [7]) = Ok prog
      \<longrightarrow> snd prog = [sample_code_block [7]]"
    by (simp add: compile_transaction_def procs compile_optional_script_def compile_tx_script_program_def sample_assembler_def
        verify_program_eq sample_code_block_def Let_def)
  moreover have "compile_transaction sample_block_prog sample_assembler ?c sample_faucet [] None = Err NoTransactionDriver"
    using compile_transaction_linked [OF refl, of sample_assembler sample_block_prog ?c sample_faucet "[]" None]
    by (simp add: procs sample_assembler_def)
  ultimately show ?thesis by (auto simp: Let_def)
qed

end
