(* ===== verification/Executor.thy ===== *)
theory Executor
  imports Compiler
begin

text \<open>
  The transaction executor (\<open>miden-tx/src/executor/mod.rs\<close>), prover (\<open>prover/mod.rs\<close>) and verifier
  (\<open>verifier/mod.rs\<close>).  The data store, the virtual machine, the proof system and the advice
  providers are parameters: records of operations, and functions that run or prove a program on a
  host and return the host they leave.
\<close>

section \<open>Parameters and errors\<close>

datatype data_store_error =
    AccountNotFound account_id
  | BlockNotFound u32
  | InvalidTransactionInput transaction_input_error
  | InternalError string
  | NoteAlreadyConsumed note_id
  | NoteNotFound note_id

datatype transaction_executor_error =
    ExecCompileNoteScriptFailed transaction_compiler_error
  | CompileTransactionScriptFailed transaction_compiler_error
  | CompileTransactionFailed transaction_compiler_error
  | ExecuteTransactionProgramFailed execution_error
  | FetchAccountCodeFailed data_store_error
  | FetchTransactionInputsFailed data_store_error
  | InconsistentAccountId account_id account_id
  | InconsistentAccountNonceDelta "felt option" "felt option"
  | InvalidTransactionOutput transaction_output_error
  | ExecLoadAccountFailed transaction_compiler_error

datatype transaction_prover_error =
    ProveTransactionProgramFailed execution_error
  | InvalidAccountDelta account_error
  | ProverInvalidTransactionOutput transaction_output_error
  | ProvenTransactionFailed proven_transaction_error

datatype verification_error = VerificationError string

datatype transaction_verifier_error =
    TransactionVerificationFailed verification_error
  | InsufficientProofSecurityLevel u32 u32

record ('v, 's, 'm, 'g, 'p) data_store =
  get_transaction_inputs :: "account_id \<Rightarrow> u32 \<Rightarrow> note_id list
    \<Rightarrow> (('v, 's, 'm, 'g, 'p) transaction_inputs, data_store_error) result"
  get_account_code :: "account_id \<Rightarrow> ('m, data_store_error) result"

record ('a, 'w, 'd) recorder_ops =
  rec_of_inputs :: "'a \<Rightarrow> 'w"
  rec_finalize :: "'w \<Rightarrow> 'a \<times> 'd"

record ('a, 'w, 'd) memory_ops =
  mem_of_inputs :: "'a \<Rightarrow> 'w"
  mem_into_map :: "'w \<Rightarrow> 'd"

section \<open>The executor\<close>

record ('v, 's, 'm, 'g, 'p, 'o) transaction_executor =
  te_data_store :: "('v, 's, 'm, 'g, 'p) data_store"
  te_compiler :: transaction_compiler
  te_exec_options :: 'o

definition executor_new ::
    "('p, 'x, 't, 'c) assembler_ops \<Rightarrow> ('p, assembly_error) result \<Rightarrow> 'o \<Rightarrow> ('v, 's, 'm, 'g, 'p) data_store
      \<Rightarrow> (('v, 's, 'm, 'g, 'p, 'o) transaction_executor, 'e) result" where
  "executor_new B main default_options ds =
     and_then (compiler_new B main) (\<lambda>c.
       Ok \<lparr> te_data_store = ds, te_compiler = c, te_exec_options = default_options \<rparr>)"

definition executor_load_account ::
    "prims \<Rightarrow> 's simple_smt_ops \<Rightarrow> 'm asm_ops \<Rightarrow> ('v, 's, 'm, 'g, 'p, 'o) transaction_executor \<Rightarrow> account_id
      \<Rightarrow> ('v, 's, 'm, 'g, 'p, 'o) transaction_executor \<times> (('m, 's) account_code, transaction_executor_error) result" where
  "executor_load_account P S A ex i =
    (case map_err FetchAccountCodeFailed (get_account_code (te_data_store ex) i) of
       Ok code \<Rightarrow>
         (case load_account P S A (te_compiler ex) i code of
            (c, r) \<Rightarrow> (ex\<lparr>te_compiler := c\<rparr>, map_err ExecLoadAccountFailed r))
     | Err e \<Rightarrow> (ex, Err e)
     | Panic x \<Rightarrow> (ex, Panic x))"

definition executor_load_account_interface ::
    "('v, 's, 'm, 'g, 'p, 'o) transaction_executor \<Rightarrow> account_id \<Rightarrow> digest list
      \<Rightarrow> ('v, 's, 'm, 'g, 'p, 'o) transaction_executor \<times> digest list option" where
  "executor_load_account_interface ex i procs =
    (case load_account_interface (te_compiler ex) i procs of (c, r) \<Rightarrow> (ex\<lparr>te_compiler := c\<rparr>, r))"

definition executor_compile_note_script ::
    "('p, code_block) prog_ops \<Rightarrow> ('v, 's, 'm, 'g, 'p, 'o) transaction_executor \<Rightarrow> 'p \<Rightarrow> script_target list
      \<Rightarrow> ('p note_script, transaction_executor_error) result" where
  "executor_compile_note_script Q ex ast targets =
     map_err ExecCompileNoteScriptFailed (compile_note_script Q (te_compiler ex) ast targets)"

definition executor_compile_tx_script ::
    "prims \<Rightarrow> ('p, code_block) prog_ops \<Rightarrow> ('v, 's, 'm, 'g, 'p, 'o) transaction_executor \<Rightarrow> 'p \<Rightarrow> (word4 \<times> felt list) list
      \<Rightarrow> script_target list \<Rightarrow> ('p transaction_script, transaction_executor_error) result" where
  "executor_compile_tx_script P Q ex ast inputs targets =
     map_err CompileTransactionScriptFailed (compile_tx_script P Q (te_compiler ex) ast inputs targets)"

definition prepare_transaction ::
    "('p, code_block) prog_ops \<Rightarrow> ('p, 'x, 't, 'c) assembler_ops \<Rightarrow> ('v, 's, 'm, 'g, 'p, 'o) transaction_executor
      \<Rightarrow> account_id \<Rightarrow> u32 \<Rightarrow> note_id list \<Rightarrow> ('p, 'd) transaction_args
      \<Rightarrow> (('v, 's, 'm, 'g, 'p, 'd, 'c) prepared_transaction, transaction_executor_error) result" where
  "prepare_transaction Q B ex i block_ref ids args =
     and_then (map_err FetchTransactionInputsFailed (get_transaction_inputs (te_data_store ex) i block_ref ids)) (\<lambda>ti.
     and_then (map_err CompileTransactionFailed
       (compile_transaction Q B (te_compiler ex) i (ins_notes (ti_input_notes ti)) (map_option txs_code (ta_tx_script args)))) (\<lambda>prog.
     Ok (prepared_transaction_new prog ti args)))"

text \<open>Subtraction of field elements is the parameter \<open>fsub\<close>.\<close>

definition build_executed_transaction ::
    "prims \<Rightarrow> ('si, 'so) stack_ops \<Rightarrow> 'd advice_map_ops \<Rightarrow> ('a, 'w, 'd) recorder_ops \<Rightarrow> (felt \<Rightarrow> felt \<Rightarrow> felt)
      \<Rightarrow> 'c \<Rightarrow> ('p, 'd) transaction_args \<Rightarrow> ('v, 's, 'm, 'g, 'p) transaction_inputs \<Rightarrow> 'so \<Rightarrow> ('w, 'p) transaction_host
      \<Rightarrow> (('v, 's, 'm, 'g, 'p, 'd, 'c, 'a) executed_transaction, transaction_executor_error) result" where
  "build_executed_transaction P X D R fsub program args ti stack_outputs host =
     and_then (host_into_parts P host) (\<lambda>(advice_recorder, account_delta, nts).
     case rec_finalize R advice_recorder of (advice_witness, adv_map) \<Rightarrow>
     and_then (map_err InvalidTransactionOutput (from_transaction_parts P X D stack_outputs adv_map nts)) (\<lambda>outs.
     let final_account = to_account outs; initial_account = ti_account ti in
     if acct_id initial_account \<noteq> stub_id final_account
     then Err (InconsistentAccountId (acct_id initial_account) (stub_id final_account))
     else
       let nonce_delta = fsub (stub_nonce final_account) (acct_nonce initial_account) in
       if nonce_delta = 0 \<and> ad_nonce account_delta \<noteq> None
       then Err (InconsistentAccountNonceDelta None (ad_nonce account_delta))
       else if nonce_delta \<noteq> 0 \<and> stub_nonce final_account \<noteq> (case ad_nonce account_delta of Some n \<Rightarrow> n | None \<Rightarrow> 0)
       then Err (InconsistentAccountNonceDelta (Some (stub_nonce final_account)) (ad_nonce account_delta))
       else executed_transaction_new program ti outs account_delta args advice_witness))"

definition execute_transaction ::
    "prims \<Rightarrow> 'v smt_ops \<Rightarrow> 's simple_smt_ops \<Rightarrow> 'g mmr_ops \<Rightarrow> ('si, 'so) stack_ops \<Rightarrow> ('a, 'n) advice_ops \<Rightarrow> ('v, 's, 'g, 'n) node_ops
      \<Rightarrow> 'd advice_map_ops \<Rightarrow> merkle_ops \<Rightarrow> 'w provider_ops \<Rightarrow> ('a, 'w, 'd) recorder_ops \<Rightarrow> (felt \<Rightarrow> felt \<Rightarrow> felt)
      \<Rightarrow> ('p, code_block) prog_ops \<Rightarrow> ('p, 'x, 't, 'c) assembler_ops
      \<Rightarrow> ('c \<Rightarrow> 'si \<Rightarrow> ('w, 'p) transaction_host \<Rightarrow> 'o \<Rightarrow> ('w, 'p) transaction_host \<times> ('so, execution_error) result)
      \<Rightarrow> ('v, 's, 'm, 'g, 'p, 'o) transaction_executor \<Rightarrow> account_id \<Rightarrow> u32 \<Rightarrow> note_id list \<Rightarrow> ('p, 'd) transaction_args
      \<Rightarrow> (('v, 's, 'm, 'g, 'p, 'd, 'c, 'a) executed_transaction, transaction_executor_error) result" where
  "execute_transaction P T S G X V N D M H R fsub Q B execute ex i block_ref ids args =
     and_then (prepare_transaction Q B ex i block_ref ids args) (\<lambda>transaction.
     and_then (prepared_kernel_inputs P T S G X V N D transaction) (\<lambda>(stack_inputs, advice_inputs).
     and_then (host_new P M H (account_to_stub T S (ti_account (prep_tx_inputs transaction))) (rec_of_inputs R advice_inputs)) (\<lambda>host.
     case execute (prep_program transaction) stack_inputs host (te_exec_options ex) of (host, r) \<Rightarrow>
     and_then (map_err ExecuteTransactionProgramFailed r) (\<lambda>stack_outputs.
     case prepared_into_parts transaction of (tx_program, tx_inputs, tx_args) \<Rightarrow>
     build_executed_transaction P X D R fsub tx_program tx_args tx_inputs stack_outputs host))))"

section \<open>The prover\<close>

text \<open>The first part of \<open>prove_transaction\<close>: the proven run and the outputs parsed from it.\<close>

definition prove_run ::
    "prims \<Rightarrow> 'v smt_ops \<Rightarrow> 's simple_smt_ops \<Rightarrow> 'g mmr_ops \<Rightarrow> ('si, 'so) stack_ops \<Rightarrow> ('a, 'n) advice_ops \<Rightarrow> ('v, 's, 'g, 'n) node_ops
      \<Rightarrow> 'd advice_map_ops \<Rightarrow> merkle_ops \<Rightarrow> 'w provider_ops \<Rightarrow> ('a, 'w, 'd) memory_ops
      \<Rightarrow> ('c \<Rightarrow> 'si \<Rightarrow> ('w, 'p) transaction_host \<Rightarrow> 'o \<Rightarrow> ('w, 'p) transaction_host \<times> ('so \<times> 'y, execution_error) result)
      \<Rightarrow> 'o \<Rightarrow> ('v, 's, 'm, 'g, 'p, 'd, 'c, 'a) transaction_witness
      \<Rightarrow> ('so \<times> 'y \<times> account_delta \<times> 'p transaction_outputs, transaction_prover_error) result" where
  "prove_run P T S G X V N D M H U prove proof_options w =
     and_then (witness_kernel_inputs P T S G X V N D w) (\<lambda>(stack_inputs, advice_inputs).
     and_then (host_new P M H (account_to_stub T S (ti_account (tw_tx_inputs w))) (mem_of_inputs U advice_inputs)) (\<lambda>host.
     case prove (tw_program w) stack_inputs host proof_options of (host, r) \<Rightarrow>
     and_then (map_err ProveTransactionProgramFailed r) (\<lambda>(stack_outputs, prf).
     and_then (host_into_parts P host) (\<lambda>(advice_provider, account_delta, nts).
     and_then (map_err ProverInvalidTransactionOutput
       (from_transaction_parts P X D stack_outputs (mem_into_map U advice_provider) nts)) (\<lambda>outs.
     Ok (stack_outputs, prf, account_delta, outs))))))"

text \<open>The details of the account that an on-chain transaction carries.\<close>

definition add_account_details ::
    "prims \<Rightarrow> 'v smt_ops \<Rightarrow> 's simple_smt_ops \<Rightarrow> ('v, 's, 'm) account \<Rightarrow> account_delta
      \<Rightarrow> ('v, 's, 'm, 'p, 'y) proven_transaction_builder
      \<Rightarrow> (('v, 's, 'm, 'p, 'y) proven_transaction_builder, transaction_prover_error) result" where
  "add_account_details P T S account account_delta builder =
     and_then (is_on_chain (acct_id account)) (\<lambda>on_chain.
     if on_chain then
       if account_is_new account then
         (case account_apply_delta P T S account account_delta of (account', r) \<Rightarrow>
           and_then (map_err InvalidAccountDelta r) (\<lambda>_. Ok (builder_account_details builder (Full account'))))
       else Ok (builder_account_details builder (Delta account_delta))
     else Ok builder)"

definition prove_transaction ::
    "prims \<Rightarrow> 'v smt_ops \<Rightarrow> 's simple_smt_ops \<Rightarrow> 'g mmr_ops \<Rightarrow> ('si, 'so) stack_ops \<Rightarrow> ('a, 'n) advice_ops \<Rightarrow> ('v, 's, 'g, 'n) node_ops
      \<Rightarrow> 'd advice_map_ops \<Rightarrow> merkle_ops \<Rightarrow> 'w provider_ops \<Rightarrow> ('a, 'w, 'd) memory_ops
      \<Rightarrow> ('c \<Rightarrow> 'si \<Rightarrow> ('w, 'p) transaction_host \<Rightarrow> 'o \<Rightarrow> ('w, 'p) transaction_host \<times> ('so \<times> 'y, execution_error) result)
      \<Rightarrow> 'o \<Rightarrow> ('v, 's, 'm, 'g, 'p, 'd, 'c, 'a) transaction_witness
      \<Rightarrow> (('v, 's, 'm, 'p, 'y) proven_transaction, transaction_prover_error) result" where
  "prove_transaction P T S G X V N D M H U prove proof_options w =
     and_then (prove_run P T S G X V N D M H U prove proof_options w) (\<lambda>(_, prf, account_delta, outs).
     let ti = tw_tx_inputs w; account = ti_account ti;
         nullifiers = to_nullifiers P (ti_input_notes ti);
         builder = add_output_notes (add_input_notes
           (proven_transaction_builder_new (acct_id account) (proof_init_hash P T S account)
             (account_stub_hash P (to_account outs)) (bh_hash (ti_block_header ti)) prf)
           (ins_notes nullifiers)) (outs_notes (to_output_notes outs));
         builder = (case map_option txs_hash (ta_tx_script (tw_tx_args w)) of
             Some root \<Rightarrow> builder_tx_script_root builder root
           | None \<Rightarrow> builder) in
     and_then (add_account_details P T S account account_delta builder) (\<lambda>builder.
     map_err ProvenTransactionFailed (build_proven_transaction P T S builder)))"

section \<open>The verifier\<close>

record 'i transaction_verifier =
  tv_program_info :: 'i
  tv_proof_security_level :: u32

definition verifier_new :: "'i \<Rightarrow> u32 \<Rightarrow> 'i transaction_verifier" where
  "verifier_new kernel_info level = \<lparr> tv_program_info = kernel_info, tv_proof_security_level = level \<rparr>"

definition verify_transaction ::
    "('si, 'so) stack_ops \<Rightarrow> ('i \<Rightarrow> 'si \<Rightarrow> 'so \<Rightarrow> 'y \<Rightarrow> (u32, verification_error) result) \<Rightarrow> 'i transaction_verifier
      \<Rightarrow> ('v, 's, 'm, 'p, 'y) proven_transaction \<Rightarrow> (unit, transaction_verifier_error) result" where
  "verify_transaction X verify v tx =
     and_then (build_input_stack X (ptx_account_id tx) (ptx_initial_account_hash tx)
       (ins_commitment (ptx_input_notes tx)) (ptx_block_ref tx)) (\<lambda>stack_inputs.
     and_then (build_output_stack X (ptx_final_account_hash tx) (outs_commitment (ptx_output_notes tx))
       (ptx_tx_script_root tx)) (\<lambda>stack_outputs.
     and_then (map_err TransactionVerificationFailed
       (verify (tv_program_info v) stack_inputs stack_outputs (ptx_proof tx))) (\<lambda>level.
     if level < tv_proof_security_level v
     then Err (InsufficientProofSecurityLevel level (tv_proof_security_level v))
     else Ok ())))"

section \<open>Inversion of the stages\<close>

lemma build_stack_any_error:
  "build_input_stack X i a b c = (Ok s :: ('si, 'e) result) \<Longrightarrow> build_input_stack X i a b c = (Ok s :: ('si, 'f) result)"
  "build_output_stack X a b r = (Ok t :: ('so, 'e) result) \<Longrightarrow> build_output_stack X a b r = (Ok t :: ('so, 'f) result)"
  by (auto simp: build_input_stack_def build_output_stack_def res_simps)

lemma from_transaction_parts_notes:
  "from_transaction_parts P X D so m nts = Ok outs \<Longrightarrow>
     output_notes_new P (outs_notes (to_output_notes outs)) = Ok (to_output_notes outs) \<and> outs_notes (to_output_notes outs) = nts"
  by (auto simp: from_transaction_parts_def res_simps output_list.new_Ok_iff split: prod.splits if_splits)

lemma from_transaction_parts_mono:
  assumes "from_transaction_parts P X D so m nts = Ok outs" "am_get D m \<subseteq>\<^sub>m am_get D m'"
  shows "from_transaction_parts P X D so m' nts = Ok outs"
proof -
  have "am_get D m' k = Some v" if "am_get D m k = Some v" for k v using assms(2) that by (auto simp: map_le_def dom_def)
  then show ?thesis using assms(1) by (auto simp: from_transaction_parts_def res_simps split: prod.splits if_splits)
qed

lemma tracker_into_delta_any_error:
  assumes "tracker_into_delta P t = (Ok d :: (_, 'e) result)"
  shows "tracker_into_delta P t = (Ok d :: (_, 'f) result)"
  using assms by (auto simp: tracker_into_delta_def Let_def res_simps vault_into_delta_Ok)

lemma build_executed_transaction_Ok:
  assumes "build_executed_transaction P X D R fsub c args ti so h = Ok tx"
  obtains delta outs where "tracker_into_delta P (th_account_delta h) = (Ok delta :: (_, transaction_executor_error) result)"
    "from_transaction_parts P X D so (snd (rec_finalize R (th_adv_provider h))) (th_output_notes h) = Ok outs"
    "ex_program tx = c" "ex_tx_inputs tx = ti" "ex_tx_outputs tx = outs" "ex_account_delta tx = delta" "ex_tx_args tx = args"
    "ex_advice_witness tx = fst (rec_finalize R (th_adv_provider h))" "acct_id (ti_account ti) = stub_id (to_account outs)"
    "fsub (stub_nonce (to_account outs)) (acct_nonce (ti_account ti)) = 0 \<Longrightarrow> ad_nonce delta = None"
    "fsub (stub_nonce (to_account outs)) (acct_nonce (ti_account ti)) \<noteq> 0 \<Longrightarrow>
      stub_nonce (to_account outs) = (case ad_nonce delta of Some n \<Rightarrow> n | None \<Rightarrow> 0)"
proof -
  obtain adv m where fin: "rec_finalize R (th_adv_provider h) = (adv, m)" by fastforce
  from assms obtain delta outs where "tracker_into_delta P (th_account_delta h) = (Ok delta :: (_, transaction_executor_error) result)"
    "from_transaction_parts P X D so m (th_output_notes h) = Ok outs"
    "executed_transaction_new c ti outs delta args adv = (Ok tx :: (_, transaction_executor_error) result)"
    "acct_id (ti_account ti) = stub_id (to_account outs)"
    "fsub (stub_nonce (to_account outs)) (acct_nonce (ti_account ti)) = 0 \<longrightarrow> ad_nonce delta = None"
    "fsub (stub_nonce (to_account outs)) (acct_nonce (ti_account ti)) \<noteq> 0 \<longrightarrow>
      stub_nonce (to_account outs) = (case ad_nonce delta of Some n \<Rightarrow> n | None \<Rightarrow> 0)"
    unfolding build_executed_transaction_def host_into_parts_def
    by (auto simp: res_simps fin Let_def split: if_splits)
  with that [of delta outs] fin show thesis by (auto simp: executed_transaction_new_def split: if_splits)
qed

lemma execute_transaction_Ok:
  assumes "execute_transaction P T S G X V N D M H R fsub Q B execute ex i block_ref ids args = Ok tx"
  obtains ti prog si adv h0 so h where "get_transaction_inputs (te_data_store ex) i block_ref ids = Ok ti"
    "compile_transaction Q B (te_compiler ex) i (ins_notes (ti_input_notes ti)) (map_option txs_code (ta_tx_script args)) = Ok prog"
    "get_kernel_inputs P T S G X V N D ti args (adv_default V) = (Ok (si, adv) :: (_, transaction_executor_error) result)"
    "host_new P M H (account_to_stub T S (ti_account ti)) (rec_of_inputs R adv) = (Ok h0 :: (_, transaction_executor_error) result)"
    "execute prog si h0 (te_exec_options ex) = (h, Ok so)"
    "build_executed_transaction P X D R fsub prog args ti so h = Ok tx"
proof -
  from assms obtain ti prog where prep: "get_transaction_inputs (te_data_store ex) i block_ref ids = Ok ti"
    "compile_transaction Q B (te_compiler ex) i (ins_notes (ti_input_notes ti)) (map_option txs_code (ta_tx_script args)) = Ok prog"
    "prepare_transaction Q B ex i block_ref ids args = Ok \<lparr> prep_program = prog, prep_tx_inputs = ti, prep_tx_args = args \<rparr>"
    by (auto simp: execute_transaction_def prepare_transaction_def res_simps prepared_transaction_new_def)
  with assms obtain si adv h0 where run:
    "get_kernel_inputs P T S G X V N D ti args (adv_default V) = (Ok (si, adv) :: (_, transaction_executor_error) result)"
    "host_new P M H (account_to_stub T S (ti_account ti)) (rec_of_inputs R adv) = (Ok h0 :: (_, transaction_executor_error) result)"
    "(case execute prog si h0 (te_exec_options ex) of (h, r) \<Rightarrow>
      and_then (map_err ExecuteTransactionProgramFailed r) (\<lambda>so. build_executed_transaction P X D R fsub prog args ti so h)) = Ok tx"
    by (auto simp: execute_transaction_def res_simps prepared_into_parts_def prepared_kernel_inputs_def)
  moreover obtain h r where "execute prog si h0 (te_exec_options ex) = (h, r)" by fastforce
  ultimately show thesis using that [OF prep(1,2) run(1,2)] by (auto simp: res_simps)
qed

text \<open>The account details of a proven transaction, if any, come from a delta on the initial account.\<close>

definition details_from ::
    "prims \<Rightarrow> 'v smt_ops \<Rightarrow> 's simple_smt_ops \<Rightarrow> ('v, 's, 'm) account \<Rightarrow> account_delta \<Rightarrow> ('v, 's, 'm) account_details option \<Rightarrow> bool" where
  "details_from P T S a d details \<longleftrightarrow> (case details of
       None \<Rightarrow> True
     | Some (Delta d') \<Rightarrow> d' = d
     | Some (Full b) \<Rightarrow> account_apply_delta P T S a d = (b, Ok ()))"

lemma add_account_details_Ok:
  assumes "add_account_details P T S a d b = Ok b'" "ptb_account_details b = None"
  shows "\<exists>details. b' = b\<lparr>ptb_account_details := details\<rparr> \<and> details_from P T S a d details"
proof -
  from assms(1) consider "b' = b" | "b' = builder_account_details b (Delta d)"
    | c where "b' = builder_account_details b (Full c)" "account_apply_delta P T S a d = (c, Ok ())"
    by (auto simp: add_account_details_def res_simps split: prod.splits if_splits)
  then show ?thesis
  proof cases
    case 1
    then show ?thesis using assms(2) by (intro exI [of _ None]) (simp add: details_from_def)
  qed (auto simp: builder_account_details_def details_from_def)
qed

lemma prove_run_Ok:
  assumes "prove_run P T S G X V N D M H U prove opts w = Ok (so, prf, delta, outs)"
  obtains si adv h h' where "witness_kernel_inputs P T S G X V N D w = (Ok (si, adv) :: (_, transaction_prover_error) result)"
    "host_new P M H (account_to_stub T S (ti_account (tw_tx_inputs w))) (mem_of_inputs U adv) = (Ok h :: (_, transaction_prover_error) result)"
    "prove (tw_program w) si h opts = (h', Ok (so, prf))"
    "tracker_into_delta P (th_account_delta h') = (Ok delta :: (_, transaction_prover_error) result)"
    "from_transaction_parts P X D so (mem_into_map U (th_adv_provider h')) (th_output_notes h') = Ok outs"
proof -
  from assms obtain si adv h where k:
    "witness_kernel_inputs P T S G X V N D w = (Ok (si, adv) :: (_, transaction_prover_error) result)"
    "host_new P M H (account_to_stub T S (ti_account (tw_tx_inputs w))) (mem_of_inputs U adv) = (Ok h :: (_, transaction_prover_error) result)"
    and run: "(case prove (tw_program w) si h opts of (host, r) \<Rightarrow>
     and_then (map_err ProveTransactionProgramFailed r) (\<lambda>(stack_outputs, prf).
     and_then (host_into_parts P host) (\<lambda>(advice_provider, account_delta, nts).
     and_then (map_err ProverInvalidTransactionOutput
       (from_transaction_parts P X D stack_outputs (mem_into_map U advice_provider) nts)) (\<lambda>outs.
     Ok (stack_outputs, prf, account_delta, outs))))) = Ok (so, prf, delta, outs)"
    by (auto simp: prove_run_def res_simps)
  obtain h' r where r: "prove (tw_program w) si h opts = (h', r)" by fastforce
  with run have "r = Ok (so, prf)" "tracker_into_delta P (th_account_delta h') = (Ok delta :: (_, transaction_prover_error) result)"
    "from_transaction_parts P X D so (mem_into_map U (th_adv_provider h')) (th_output_notes h') = Ok outs"
    by (auto simp: res_simps host_into_parts_def)
  from that [OF k r [unfolded this(1)] this(2,3)] show thesis .
qed

lemma prove_transaction_run:
  assumes "prove_transaction P T S G X V N D M H U prove opts w = Ok ptx"
  obtains so y delta outs where "prove_run P T S G X V N D M H U prove opts w = Ok (so, y, delta, outs)"
  using assms by (cases "prove_run P T S G X V N D M H U prove opts w") (auto simp: prove_transaction_def)

lemma prove_transaction_Ok:
  fixes ptx :: "('v, 's, 'm, 'p, 'y) proven_transaction"
  assumes "prove_transaction P T S G X V N D M H U prove opts w = Ok ptx"
    "prove_run P T S G X V N D M H U prove opts w = Ok (so, prf, delta, outs)"
    "input_notes_new P input_note_nullifier nts = Ok (ti_input_notes (tw_tx_inputs w))"
  shows "ptx_account_id ptx = acct_id (ti_account (tw_tx_inputs w)) \<and>
    ptx_initial_account_hash ptx = proof_init_hash P T S (ti_account (tw_tx_inputs w)) \<and>
    ptx_final_account_hash ptx = account_stub_hash P (to_account outs) \<and>
    ins_notes (ptx_input_notes ptx) = ins_notes (to_nullifiers P (ti_input_notes (tw_tx_inputs w))) \<and>
    ins_commitment (ptx_input_notes ptx) = ins_commitment (ti_input_notes (tw_tx_inputs w)) \<and>
    ptx_output_notes ptx = to_output_notes outs \<and> ptx_block_ref ptx = bh_hash (ti_block_header (tw_tx_inputs w)) \<and>
    ptx_tx_script_root ptx = map_option txs_hash (ta_tx_script (tw_tx_args w)) \<and> ptx_proof ptx = prf \<and>
    proven_transaction_valid P T S ptx \<and> details_from P T S (ti_account (tw_tx_inputs w)) delta (ptx_account_details ptx)"
proof -
  have outs: "output_notes_new P (outs_notes (to_output_notes outs)) = Ok (to_output_notes outs)"
    by (rule prove_run_Ok [OF assms(2)]) (erule from_transaction_parts_notes [THEN conjunct1])
  let ?ti = "tw_tx_inputs w" and ?root = "map_option txs_hash (ta_tx_script (tw_tx_args w))"
  let ?ins = "to_nullifiers P (ti_input_notes ?ti)"
  define b :: "('v, 's, 'm, 'p, 'y) proven_transaction_builder" where "b = \<lparr> ptb_account_id = acct_id (ti_account ?ti), ptb_initial_account_hash = proof_init_hash P T S (ti_account ?ti),
    ptb_final_account_hash = account_stub_hash P (to_account outs), ptb_account_details = None,
    ptb_input_notes = ins_notes ?ins, ptb_output_notes = outs_notes (to_output_notes outs), ptb_tx_script_root = ?root,
    ptb_block_ref = bh_hash (ti_block_header ?ti), ptb_proof = prf \<rparr>"
  from assms(1) obtain b' where b': "add_account_details P T S (ti_account ?ti) delta b = Ok b'"
    "build_proven_transaction P T S b' = Ok ptx"
    unfolding prove_transaction_def assms(2) b_def
    by (cases ?root) (auto simp: res_simps Let_def proven_transaction_builder_new_def add_input_notes_def add_output_notes_def
        builder_tx_script_root_def)
  have "ptb_account_details b = None" by (simp add: b_def)
  from add_account_details_Ok [OF b'(1) this] obtain details where b'_eq: "b' = b\<lparr>ptb_account_details := details\<rparr>"
    and details: "details_from P T S (ti_account ?ti) delta details" by blast
  have nts: "ins_notes (ti_input_notes ?ti) = nts" "ins_notes ?ins = map input_note_nullifier nts"
    "ins_commitment ?ins = ins_commitment (ti_input_notes ?ti)"
    using assms(3) by (auto simp: input_list.new_Ok_iff to_nullifiers_def)
  have ins: "input_notes_new P nullifier_nullifier (ins_notes ?ins) = Ok ?ins" using to_nullifiers_new [OF assms(3)] nts(2) by simp
  show ?thesis using b'(2) ins outs nts(3) details build_proven_transaction_Ok [OF b'(2)]
    unfolding b'_eq b_def by (auto simp: build_proven_transaction_def validate_proven_transaction_Ok)
qed

section \<open>A concrete transaction\<close>

text \<open>A transaction on the sample account with a script and without notes, which changes nothing.\<close>

type_synonym sample_inputs = "((digest \<times> word4) list, (u64 \<times> word4) list, digest list, nat, u8 list) transaction_inputs"

definition sample_tx_inputs :: sample_inputs where
  "sample_tx_inputs = \<lparr> ti_account = sample_account EMPTY_WORD, ti_account_seed = None, ti_block_header = sample_block 2,
     ti_block_chain = \<lparr> cm_mmr = 2, cm_blocks = [] \<rparr>,
     ti_input_notes = \<lparr> ins_notes = [], ins_commitment = build_input_notes_commitment sample_prims input_note_nullifier ([] :: u8 list input_note list) \<rparr> \<rparr>"

definition sample_tx_args :: "(u8 list, (digest \<times> felt list) list) transaction_args" where
  "sample_tx_args = with_tx_script sample_map \<lparr> txs_code = [7], txs_hash = W 1 1 1 1, txs_inputs = [] \<rparr>"

definition sample_final_stub :: account_stub where
  "sample_final_stub = account_to_stub sample_smt (sample_ssmt 8) (sample_account EMPTY_WORD)"

text \<open>What a run leaves behind that ends with the given account and without notes.\<close>

definition stub_map :: "account_stub \<Rightarrow> (digest \<times> felt list) list" where
  "stub_map s = [(account_stub_hash sample_prims s, concat (map elements (stub_words s)))]"

definition stub_outputs :: "account_stub \<Rightarrow> felt list" where
  "stub_outputs s = rev (elements (account_stub_hash sample_prims s) @ elements EMPTY_WORD @ elements (W 1 1 1 1)) @ [0, 0, 0, 0]"

definition stub_recorder :: "account_stub
    \<Rightarrow> (felt list \<times> (digest \<Rightarrow> felt list option), (digest \<times> felt list) list, (digest \<times> felt list) list) recorder_ops" where
  "stub_recorder s = \<lparr> rec_of_inputs = (\<lambda>_. []), rec_finalize = (\<lambda>_. (adv_default sample_advice, stub_map s)) \<rparr>"

abbreviation sample_final_map :: "(digest \<times> felt list) list" where
  "sample_final_map \<equiv> stub_map sample_final_stub"

abbreviation sample_outputs :: "felt list" where
  "sample_outputs \<equiv> stub_outputs sample_final_stub"

definition sample_memory :: "(felt list \<times> (digest \<Rightarrow> felt list option), (digest \<times> felt list) list, (digest \<times> felt list) list) memory_ops" where
  "sample_memory = \<lparr> mem_of_inputs = (\<lambda>_. []), mem_into_map = (\<lambda>_. sample_final_map) \<rparr>"

definition sample_executor :: "((digest \<times> word4) list, (u64 \<times> word4) list, digest list, nat, u8 list, unit) transaction_executor" where
  "sample_executor = \<lparr> te_data_store = \<lparr> get_transaction_inputs = (\<lambda>_ _ _. Ok sample_tx_inputs), get_account_code = (\<lambda>_. Ok []) \<rparr>,
     te_compiler = fst (load_account_interface \<lparr> account_procedures = [], kernel_main = Dyn \<rparr> sample_faucet [W 7 0 0 0]),
     te_exec_options = () \<rparr>"

definition sample_witness :: "(_, _, _, _, _, _, code_block \<times> code_block list, _) transaction_witness" where
  "sample_witness = \<lparr> tw_program = (Dyn, [sample_code_block [7]]), tw_tx_inputs = sample_tx_inputs, tw_tx_args = sample_tx_args,
     tw_advice_witness = adv_default sample_advice \<rparr>"

lemma sample_tx_input_notes: "input_notes_new sample_prims input_note_nullifier [] = Ok (ti_input_notes sample_tx_inputs)"
  by (simp add: input_list.new_Ok_iff sample_tx_inputs_def)

lemma sample_compiled:
  "compile_transaction sample_block_prog sample_assembler (te_compiler sample_executor) sample_faucet
     (ins_notes (ti_input_notes sample_tx_inputs)) (map_option txs_code (ta_tx_script sample_tx_args)) = Ok (Dyn, [sample_code_block [7]])"
  by (simp add: compile_transaction_def sample_executor_def load_account_interface_def compile_optional_script_def
      compile_tx_script_program_def sample_assembler_def verify_program_eq sample_code_block_def Let_def sample_tx_inputs_def
      sample_tx_args_def with_tx_script_def transaction_args_new_def)

lemma sample_kernel_inputs:
  "\<exists>s a. get_kernel_inputs sample_prims sample_smt (sample_ssmt 8) sample_mmr sample_stack sample_advice sample_nodes sample_map
     sample_tx_inputs sample_tx_args adv = (Ok (s, a) :: (_, 'e) result)"
  by (simp add: get_kernel_inputs_def build_input_stack_def sample_stack_def extend_advice_inputs_def Let_def
      add_input_notes_to_advice_inputs_def sample_tx_inputs_def)

lemma sample_host_new:
  obtains h where "host_new sample_prims sample_merkle (sample_provider (procedure_leaves sample_prims [W 1 2 3 4]))
      (account_to_stub sample_smt (sample_ssmt 8) (ti_account sample_tx_inputs)) []
      = (Ok h :: (((digest \<times> felt list) list, u8 list) transaction_host, 'e) result)"
    "th_account_delta h = delta_tracker_new sample_final_stub" "th_output_notes h = []"
proof -
  have code: "stub_code_root (account_to_stub sample_smt (sample_ssmt 8) (ti_account sample_tx_inputs))
      = code_root (sample_ssmt 8) (sample_code [W 1 2 3 4])"
    by (simp add: sample_tx_inputs_def account_to_stub_def account_stub_new_def sample_account_def account_new_def)
  obtain m where "proc_index_map_new sample_prims sample_merkle (sample_provider (procedure_leaves sample_prims [W 1 2 3 4]))
      (code_root (sample_ssmt 8) (sample_code [W 1 2 3 4])) [] = (Ok m :: (proc_index_map, 'e) result)" by (rule sample_index_map)
  then show thesis using that code by (simp add: host_new_def sample_final_stub_def sample_tx_inputs_def)
qed

lemma sample_output_stack:
  "build_output_stack sample_stack (account_stub_hash sample_prims s) EMPTY_WORD (Some (W 1 1 1 1))
     = (Ok (stub_outputs s) :: (_, 'e) result)"
  by (simp add: build_output_stack_def sample_stack_def stub_outputs_def numeral_eq_Suc)

lemma sample_faucet_valid: "account_id_valid sample_faucet"
  using sample_assets_ok(1) by (simp add: sample_coin_def fungible_ok_def account_id_ok_def)

lemma sample_parse_outputs:
  assumes "stub_id s = sample_faucet"
  shows "from_transaction_parts sample_prims sample_stack sample_map (stub_outputs s) (stub_map s) ([] :: u8 list output_note list)
     = Ok \<lparr> to_account = s, to_output_notes = \<lparr> outs_notes = [], outs_commitment = EMPTY_WORD \<rparr> \<rparr>"
proof -
  have "account_id_valid (stub_id s)" using sample_faucet_valid assms by simp
  note stub = parse_stub_words [OF this]
  have parse: "parse_output_stack sample_stack (stub_outputs s)
      = (Ok (account_stub_hash sample_prims s, EMPTY_WORD, W 1 1 1 1) :: (_, transaction_output_error) result)"
  proof -
    let ?f = "account_stub_hash sample_prims s"
    obtain so where so: "build_output_stack sample_stack ?f EMPTY_WORD (Some (W 1 1 1 1)) = (Ok so :: (_, unit) result)"
      "parse_output_stack sample_stack so = (Ok (?f, EMPTY_WORD, W 1 1 1 1) :: (_, transaction_output_error) result)"
      by (rule exE [OF sample_stack_laws.parse_build_output_stack [of ?f EMPTY_WORD "Some (W 1 1 1 1)", unfolded option.case]])
        (elim conjE, rule that)
    moreover have "so = stub_outputs s" using so(1) sample_output_stack [where s = s and 'e = unit] by simp
    ultimately show ?thesis by simp
  qed
  have "output_notes_new sample_prims ([] :: u8 list output_note list) = Ok \<lparr> outs_notes = [], outs_commitment = EMPTY_WORD \<rparr>"
    by (simp add: output_list.new_Ok_iff build_output_notes_commitment_def)
  then show ?thesis
    by (simp add: from_transaction_parts_def parse sample_map_def stub_map_def sample_stack_laws.group_words stub)
qed

lemma sample_no_delta:
  "tracker_into_delta P (delta_tracker_new stub) = (Ok \<lparr> ad_storage = \<lparr> cleared_items = [], updated_items = [] \<rparr>,
     ad_vault = \<lparr> added_assets = [], removed_assets = [] \<rparr>, ad_nonce = None \<rparr> :: (_, 'e) result)"
proof -
  have vault: "vault_into_delta (dt_vault (delta_tracker_new stub)) = (Ok \<lparr> added_assets = [], removed_assets = [] \<rparr> :: (_, 'e) result)"
    by (simp add: delta_tracker_new_def vault_into_delta_def vault_tracker_default_def)
  show ?thesis
    by (subst delta_tracker_into [OF vault])
      (simp_all add: delta_tracker_new_def storage_into_delta_def storage_delta_valid_def vault_delta_valid_def nonce_valid_def
        storage_delta_is_empty_def vault_delta_is_empty_def)
qed

abbreviation sample_tree_provider :: "(digest \<times> felt list) list provider_ops" where
  "sample_tree_provider \<equiv> sample_provider (procedure_leaves sample_prims [W 1 2 3 4])"

text \<open>Execution by a machine that changes the host by \<open>g\<close> and ends with the account \<open>s\<close>.\<close>

abbreviation stub_execute where
  "stub_execute g s \<equiv> execute_transaction sample_prims sample_smt (sample_ssmt 8) sample_mmr sample_stack sample_advice sample_nodes
     sample_map sample_merkle sample_tree_provider (stub_recorder s) (-) sample_block_prog sample_assembler
     (\<lambda>c si h opt. (g h, Ok (stub_outputs s))) sample_executor"

abbreviation sample_execute where
  "sample_execute \<equiv> stub_execute (\<lambda>h. h) sample_final_stub"

lemma stub_executed:
  assumes s: "stub_id s = sample_faucet"
    and g: "\<And>h. th_account_delta h = delta_tracker_new sample_final_stub \<Longrightarrow> th_output_notes h = [] \<Longrightarrow>
      tracker_into_delta sample_prims (th_account_delta (g h)) = (Ok delta :: (_, transaction_executor_error) result) \<and> th_output_notes (g h) = []"
    and nonce: "ad_nonce delta = (if stub_nonce s = 3 then None else Some (stub_nonce s))"
  obtains tx where "stub_execute g s sample_faucet 2 [] sample_tx_args = Ok tx" "ex_tx_inputs tx = sample_tx_inputs"
    "ex_program tx = (Dyn, [sample_code_block [7]])" "ex_tx_args tx = sample_tx_args" "ex_advice_witness tx = adv_default sample_advice"
    "ex_account_delta tx = delta"
    "ex_tx_outputs tx = \<lparr> to_account = s, to_output_notes = \<lparr> outs_notes = [], outs_commitment = EMPTY_WORD \<rparr> \<rparr>"
proof -
  have prep: "prepare_transaction sample_block_prog sample_assembler sample_executor sample_faucet 2 [] sample_tx_args
      = Ok \<lparr> prep_program = (Dyn, [sample_code_block [7]]), prep_tx_inputs = sample_tx_inputs, prep_tx_args = sample_tx_args \<rparr>"
    using sample_compiled by (simp add: prepare_transaction_def prepared_transaction_new_def sample_executor_def)
  obtain si a where ki: "get_kernel_inputs sample_prims sample_smt (sample_ssmt 8) sample_mmr sample_stack sample_advice sample_nodes sample_map
     sample_tx_inputs sample_tx_args (adv_default sample_advice) = (Ok (si, a) :: (_, transaction_executor_error) result)"
    using sample_kernel_inputs by blast
  obtain h where h: "host_new sample_prims sample_merkle sample_tree_provider
      (account_to_stub sample_smt (sample_ssmt 8) (ti_account sample_tx_inputs)) []
      = (Ok h :: (((digest \<times> felt list) list, u8 list) transaction_host, transaction_executor_error) result)"
    "th_account_delta h = delta_tracker_new sample_final_stub" "th_output_notes h = []" by (rule sample_host_new)
  have acct: "acct_id (ti_account sample_tx_inputs) = sample_faucet" "acct_nonce (ti_account sample_tx_inputs) = 3"
    by (simp_all add: sample_tx_inputs_def sample_account_def account_new_def)
  let ?outs = "\<lparr> to_account = s, to_output_notes = \<lparr> outs_notes = [], outs_commitment = EMPTY_WORD \<rparr> \<rparr>"
  let ?tx = "\<lparr> ex_program = (Dyn, [sample_code_block [7]]), ex_tx_inputs = sample_tx_inputs, ex_tx_outputs = ?outs,
    ex_account_delta = delta, ex_tx_args = sample_tx_args, ex_advice_witness = adv_default sample_advice \<rparr>"
  have "build_executed_transaction sample_prims sample_stack sample_map (stub_recorder s) (-) (Dyn, [sample_code_block [7]]) sample_tx_args
      sample_tx_inputs (stub_outputs s) (g h) = Ok ?tx"
    using g [OF h(2,3)] nonce s
    by (simp add: build_executed_transaction_def host_into_parts_def stub_recorder_def sample_parse_outputs
        executed_transaction_new_def acct)
  moreover have "rec_of_inputs (stub_recorder s) a = []" by (simp add: stub_recorder_def)
  ultimately have "stub_execute g s sample_faucet 2 [] sample_tx_args = Ok ?tx"
    by (simp add: execute_transaction_def prep prepared_kernel_inputs_def ki h(1) prepared_into_parts_def)
  from that [OF this] show thesis by simp
qed

lemma sample_final_stub_parts: "stub_id sample_final_stub = sample_faucet" "stub_nonce sample_final_stub = 3"
  by (simp_all add: sample_final_stub_def account_to_stub_def sample_account_def account_new_def)

lemma sample_executed:
  obtains tx where "sample_execute sample_faucet 2 [] sample_tx_args = Ok tx" "ex_tx_inputs tx = sample_tx_inputs"
    "ex_program tx = (Dyn, [sample_code_block [7]])" "ex_tx_args tx = sample_tx_args" "ex_advice_witness tx = adv_default sample_advice"
    "ex_tx_outputs tx = \<lparr> to_account = sample_final_stub, to_output_notes = \<lparr> outs_notes = [], outs_commitment = EMPTY_WORD \<rparr> \<rparr>"
  by (rule stub_executed [of sample_final_stub "\<lambda>h. h" "\<lparr> ad_storage = \<lparr> cleared_items = [], updated_items = [] \<rparr>,
      ad_vault = \<lparr> added_assets = [], removed_assets = [] \<rparr>, ad_nonce = None \<rparr>"])
    (simp_all add: sample_final_stub_parts sample_no_delta)

abbreviation sample_prove where
  "sample_prove \<equiv> (\<lambda>c si h opt. (h, Ok (sample_outputs, 5 :: u8)))"

lemma sample_on_chain: "is_on_chain sample_faucet = (Ok True :: (bool, 'e) result)"
  by (simp add: is_on_chain_def storage_type_def sample_faucet_def account_id_consts)

lemma sample_init_hash: "proof_init_hash sample_prims sample_smt (sample_ssmt 8) (sample_account EMPTY_WORD) \<noteq> EMPTY_WORD"
  by (simp add: proof_init_hash_def account_is_new_def sample_account_def account_new_def account_hash_def hash_account_def
      sample_prims_def sample_hash_def)

lemma sample_builds:
  assumes "ptb_account_id b = sample_faucet" "ptb_initial_account_hash b \<noteq> EMPTY_WORD" "ptb_account_details b = Some (Delta d)"
    "ptb_input_notes b = []" "ptb_output_notes b = []"
  shows "\<exists>ptx. map_err ProvenTransactionFailed (build_proven_transaction sample_prims sample_smt (sample_ssmt 8) b) = Ok ptx"
  using assms
  by (simp add: build_proven_transaction_def validate_proven_transaction_def sample_on_chain input_notes_new_def output_notes_new_def Let_def)

lemma sample_proven:
  obtains delta ptx where "prove_run sample_prims sample_smt (sample_ssmt 8) sample_mmr sample_stack sample_advice sample_nodes sample_map
      sample_merkle sample_tree_provider sample_memory sample_prove () sample_witness = Ok (sample_outputs, 5, delta,
        \<lparr> to_account = sample_final_stub, to_output_notes = \<lparr> outs_notes = [], outs_commitment = EMPTY_WORD \<rparr> \<rparr>)"
    "prove_transaction sample_prims sample_smt (sample_ssmt 8) sample_mmr sample_stack sample_advice sample_nodes sample_map
      sample_merkle sample_tree_provider sample_memory sample_prove () sample_witness = Ok ptx"
proof -
  obtain s a where ki: "get_kernel_inputs sample_prims sample_smt (sample_ssmt 8) sample_mmr sample_stack sample_advice sample_nodes sample_map
     sample_tx_inputs sample_tx_args (adv_default sample_advice) = (Ok (s, a) :: (_, transaction_prover_error) result)"
    using sample_kernel_inputs by blast
  obtain h where h: "host_new sample_prims sample_merkle sample_tree_provider
      (account_to_stub sample_smt (sample_ssmt 8) (ti_account sample_tx_inputs)) []
      = (Ok h :: (((digest \<times> felt list) list, u8 list) transaction_host, transaction_prover_error) result)"
    "th_account_delta h = delta_tracker_new sample_final_stub" "th_output_notes h = []" by (rule sample_host_new)
  have wit: "tw_program sample_witness = (Dyn, [sample_code_block [7]])" "tw_tx_inputs sample_witness = sample_tx_inputs"
    "tw_tx_args sample_witness = sample_tx_args" "tw_advice_witness sample_witness = adv_default sample_advice"
    by (simp_all add: sample_witness_def)
  let ?delta = "\<lparr> ad_storage = \<lparr> cleared_items = [], updated_items = [] \<rparr>,
      ad_vault = \<lparr> added_assets = [], removed_assets = [] \<rparr>, ad_nonce = None \<rparr>"
  have mem: "mem_of_inputs sample_memory a = []" "mem_into_map sample_memory x = sample_final_map" for a x
    by (simp_all add: sample_memory_def)
  have run: "prove_run sample_prims sample_smt (sample_ssmt 8) sample_mmr sample_stack sample_advice sample_nodes sample_map
      sample_merkle sample_tree_provider sample_memory sample_prove () sample_witness = Ok (sample_outputs, 5, ?delta,
        \<lparr> to_account = sample_final_stub, to_output_notes = \<lparr> outs_notes = [], outs_commitment = EMPTY_WORD \<rparr> \<rparr>)"
    by (simp add: prove_run_def witness_kernel_inputs_def wit ki mem h host_into_parts_def sample_no_delta sample_parse_outputs
        sample_final_stub_parts)
  have acct: "ti_account sample_tx_inputs = sample_account EMPTY_WORD" "acct_id (sample_account EMPTY_WORD) = sample_faucet"
    "\<not> account_is_new (sample_account EMPTY_WORD)" "ins_notes (ti_input_notes sample_tx_inputs) = []"
    by (simp_all add: sample_tx_inputs_def sample_account_def account_new_def account_is_new_def)
  have "\<exists>ptx. prove_transaction sample_prims sample_smt (sample_ssmt 8) sample_mmr sample_stack sample_advice sample_nodes sample_map
      sample_merkle sample_tree_provider sample_memory sample_prove () sample_witness = Ok ptx"
    unfolding prove_transaction_def run and_then.simps split wit acct(1) Let_def add_account_details_def sample_on_chain acct(2)
    using sample_init_hash acct(3,4)
    by (auto simp: proven_transaction_builder_new_def add_input_notes_def add_output_notes_def builder_account_details_def to_nullifiers_def
        builder_tx_script_root_def split: option.split intro!: sample_builds)
  with that [OF run] show thesis by blast
qed

section \<open>Replay of a recorded run\<close>

text \<open>
  What the executor and the prover rely on when the proof of a transaction is made from its witness.
  \<^item> Executing and proving run the same machine: a successful execution, and the run that a successful
    proof is about, are the outcome that the program, the stack inputs and the host determine.
  \<^item> The recorded advice is enough to run a program again: take a successful run on a recorder that
    holds the advice of the transaction inputs.  On a memory provider that holds the recorded advice,
    extended by the advice of the same inputs, the machine halts with the same stack, after the same changes
    to the account and with the same notes, and the final advice map of the recorder is contained in
    the final advice map of the memory provider.
\<close>

locale replay_spec =
  fixes P :: prims and T :: "'v smt_ops" and S :: "'s simple_smt_ops" and G :: "'g mmr_ops" and V :: "('a, 'n) advice_ops"
    and N :: "('v, 's, 'g, 'n) node_ops" and D :: "'d advice_map_ops" and M :: merkle_ops and H :: "'w provider_ops"
    and R :: "('a, 'w, 'd) recorder_ops" and U :: "('a, 'w, 'd) memory_ops"
    and machine :: "'c \<Rightarrow> 'si \<Rightarrow> ('w, 'p) transaction_host \<Rightarrow> ('w, 'p) transaction_host \<times> ('so, execution_error) result"
    and execute :: "'c \<Rightarrow> 'si \<Rightarrow> ('w, 'p) transaction_host \<Rightarrow> 'o \<Rightarrow> ('w, 'p) transaction_host \<times> ('so, execution_error) result"
    and prove :: "'c \<Rightarrow> 'si \<Rightarrow> ('w, 'p) transaction_host \<Rightarrow> 'u \<Rightarrow> ('w, 'p) transaction_host \<times> ('so \<times> 'y, execution_error) result"
  assumes execute_machine: "execute c si h opt = (h', Ok so) \<Longrightarrow> machine c si h = (h', Ok so)"
    and prove_machine: "prove c si h popt = (h', Ok (so, y)) \<Longrightarrow> machine c si h = (h', Ok so)"
    and recorded:
      "extend_advice_inputs P T S G V N D (ti :: ('v, 's, 'm, 'g, 'p) transaction_inputs) args (adv_default V)
        = (Ok adv :: (_, transaction_executor_error) result) \<Longrightarrow>
      host_new P M H (account_to_stub T S (ti_account ti)) (rec_of_inputs R adv) = (Ok h :: (_, transaction_executor_error) result) \<Longrightarrow>
      machine c si h = (h', Ok so) \<Longrightarrow> rec_finalize R (th_adv_provider h') = (recording, m) \<Longrightarrow>
      extend_advice_inputs P T S G V N D ti args recording = (Ok adv' :: (_, transaction_prover_error) result) \<Longrightarrow>
      host_new P M H (account_to_stub T S (ti_account ti)) (mem_of_inputs U adv') = (Ok g :: (_, transaction_prover_error) result) \<Longrightarrow>
      \<exists>g'. machine c si g = (g', Ok so) \<and> th_account_delta g' = th_account_delta h' \<and> th_output_notes g' = th_output_notes h' \<and>
        am_get D m \<subseteq>\<^sub>m am_get D (mem_into_map U (th_adv_provider g'))"
begin

text \<open>The proven run of the witness of an executed transaction has the outputs and the delta of the execution.\<close>

lemma proven_run_outputs:
  fixes tx :: "('v, 's, 'm, 'g, 'p, 'd, 'c, 'a) executed_transaction"
  assumes exec: "execute_transaction P T S G X V N D M H R fsub Q B execute ex i block_ref ids args = Ok tx"
    and parts: "executed_into_parts tx = (delta0, outs0, w)"
    and run: "prove_run P T S G X V N D M H U prove opts w = Ok (so, y, delta, outs)"
  shows "outs = ex_tx_outputs tx \<and> delta = ex_account_delta tx"
proof -
  obtain ti prog si adv h so0 h' where e:
    "get_kernel_inputs P T S G X V N D ti args (adv_default V) = (Ok (si, adv) :: (_, transaction_executor_error) result)"
    "host_new P M H (account_to_stub T S (ti_account ti)) (rec_of_inputs R adv) = (Ok h :: (_, transaction_executor_error) result)"
    "execute prog si h (te_exec_options ex) = (h', Ok so0)" "build_executed_transaction P X D R fsub prog args ti so0 h' = Ok tx"
    by (rule execute_transaction_Ok [OF exec])
  obtain m where b: "tracker_into_delta P (th_account_delta h') = (Ok (ex_account_delta tx) :: (_, transaction_executor_error) result)"
    "rec_finalize R (th_adv_provider h') = (ex_advice_witness tx, m)"
    "from_transaction_parts P X D so0 m (th_output_notes h') = Ok (ex_tx_outputs tx)"
    "ex_program tx = prog" "ex_tx_inputs tx = ti" "ex_tx_args tx = args"
    by (rule build_executed_transaction_Ok [OF e(4)]) (simp add: prod_eq_iff that)
  have w: "tw_program w = prog" "tw_tx_inputs w = ti" "tw_tx_args w = args" "tw_advice_witness w = ex_advice_witness tx"
    using parts b(4-6) by (auto simp: executed_into_parts_def)
  obtain si' adv' g g' where r: "witness_kernel_inputs P T S G X V N D w = (Ok (si', adv') :: (_, transaction_prover_error) result)"
    "host_new P M H (account_to_stub T S (ti_account ti)) (mem_of_inputs U adv') = (Ok g :: (_, transaction_prover_error) result)"
    "prove prog si' g opts = (g', Ok (so, y))"
    "tracker_into_delta P (th_account_delta g') = (Ok delta :: (_, transaction_prover_error) result)"
    "from_transaction_parts P X D so (mem_into_map U (th_adv_provider g')) (th_output_notes g') = Ok outs"
    by (rule prove_run_Ok [OF run, unfolded w])
  from e(1) r(1) have "si' = si" and adv: "extend_advice_inputs P T S G V N D ti args (adv_default V) = (Ok adv :: (_, transaction_executor_error) result)"
    "extend_advice_inputs P T S G V N D ti args (ex_advice_witness tx) = (Ok adv' :: (_, transaction_prover_error) result)"
    using build_stack_any_error(1) [where 'e = transaction_executor_error and 'f = transaction_prover_error]
    by (fastforce simp: get_kernel_inputs_def witness_kernel_inputs_def w res_simps)+
  from recorded [OF adv(1) e(2) execute_machine [OF e(3)] b(2) adv(2) r(2)] prove_machine [OF r(3)] \<open>si' = si\<close>
  have same: "so = so0" "th_account_delta g' = th_account_delta h'" "th_output_notes g' = th_output_notes h'"
    "am_get D m \<subseteq>\<^sub>m am_get D (mem_into_map U (th_adv_provider g'))" by auto
  have "delta = ex_account_delta tx"
    using tracker_into_delta_any_error [OF b(1), where 'f = transaction_prover_error] r(4) same(2) by simp
  moreover have "outs = ex_tx_outputs tx"
    using from_transaction_parts_mono [OF b(3) same(4)] r(5) same(1,3) by simp
  ultimately show ?thesis by simp
qed

end

text \<open>The machine of the concrete transaction replays.\<close>

interpretation sample_replay: replay_spec sample_prims sample_smt "sample_ssmt 8" sample_mmr sample_advice sample_nodes sample_map
  sample_merkle sample_tree_provider "stub_recorder sample_final_stub" sample_memory
  "\<lambda>c si h. (h, Ok sample_outputs)" "\<lambda>c si h opt. (h, Ok sample_outputs)" sample_prove
  by unfold_locales (auto simp: host_new_def res_simps stub_recorder_def sample_memory_def)

section \<open>Properties\<close>

text \<open>
  C8. Executed transactions are consistent.  An executed transaction consists of the inputs that the
  data store returned for the request and of the program linked for the account; its output notes
  are at most 4096 and distinct, the final account has the identifier of the initial account, and
  the nonce of the delta, if there is one, is the final nonce and a new one.  Without a nonce in
  the delta the nonce did not change, or it wrapped around to zero.
\<close>

theorem executed_transaction_consistent:
  assumes run: "execute_transaction P T S G X V N D M H R fsub Q B execute ex i block_ref ids args = Ok tx"
    and fsub: "\<And>x y. felt_ok P x \<Longrightarrow> felt_ok P y \<Longrightarrow> fsub x y = 0 \<longleftrightarrow> x = y"
    and ok: "felt_ok P (acct_nonce (ti_account (ex_tx_inputs tx)))" "felt_ok P (stub_nonce (to_account (ex_tx_outputs tx)))"
  shows "get_transaction_inputs (te_data_store ex) i block_ref ids = Ok (ex_tx_inputs tx) \<and> ex_tx_args tx = args \<and>
    compile_transaction Q B (te_compiler ex) i (ins_notes (ti_input_notes (ex_tx_inputs tx)))
      (map_option txs_code (ta_tx_script args)) = Ok (ex_program tx) \<and>
    length (outs_notes (to_output_notes (ex_tx_outputs tx))) \<le> 4096 \<and>
    distinct (map output_note_id (outs_notes (to_output_notes (ex_tx_outputs tx)))) \<and>
    stub_id (to_account (ex_tx_outputs tx)) = acct_id (ti_account (ex_tx_inputs tx)) \<and>
    (case ad_nonce (ex_account_delta tx) of
       Some n \<Rightarrow> n = stub_nonce (to_account (ex_tx_outputs tx)) \<and> n \<noteq> acct_nonce (ti_account (ex_tx_inputs tx))
     | None \<Rightarrow> stub_nonce (to_account (ex_tx_outputs tx)) \<in> {acct_nonce (ti_account (ex_tx_inputs tx)), 0})"
proof -
  obtain ti prog so h where tx: "get_transaction_inputs (te_data_store ex) i block_ref ids = Ok ti"
    "compile_transaction Q B (te_compiler ex) i (ins_notes (ti_input_notes ti)) (map_option txs_code (ta_tx_script args)) = Ok prog"
    "build_executed_transaction P X D R fsub prog args ti so h = Ok tx"
    by (rule execute_transaction_Ok [OF run]) blast
  obtain delta outs where b: "from_transaction_parts P X D so (snd (rec_finalize R (th_adv_provider h))) (th_output_notes h) = Ok outs"
    "ex_program tx = prog" "ex_tx_inputs tx = ti" "ex_tx_outputs tx = outs" "ex_account_delta tx = delta" "ex_tx_args tx = args"
    "acct_id (ti_account ti) = stub_id (to_account outs)"
    "fsub (stub_nonce (to_account outs)) (acct_nonce (ti_account ti)) = 0 \<Longrightarrow> ad_nonce delta = None"
    "fsub (stub_nonce (to_account outs)) (acct_nonce (ti_account ti)) \<noteq> 0 \<Longrightarrow>
      stub_nonce (to_account outs) = (case ad_nonce delta of Some n \<Rightarrow> n | None \<Rightarrow> 0)"
    by (rule build_executed_transaction_Ok [OF tx(3)]) blast
  have zero: "fsub (stub_nonce (to_account outs)) (acct_nonce (ti_account ti)) = 0 \<longleftrightarrow> stub_nonce (to_account outs) = acct_nonce (ti_account ti)"
    using ok fsub b(3,4) by simp
  have "length (outs_notes (to_output_notes outs)) \<le> 4096 \<and> distinct (map output_note_id (outs_notes (to_output_notes outs)))"
    using from_transaction_parts_notes [OF b(1)] by (auto simp: output_list.new_Ok_iff MAX_OUTPUT_NOTES_PER_TX_def)
  with tx b(1-9) zero show ?thesis by (cases "ad_nonce delta") auto
qed


theorem executed_transaction_consistent_witness:
  "\<exists>tx. sample_execute sample_faucet 2 [] sample_tx_args = Ok tx \<and> stub_id (to_account (ex_tx_outputs tx)) = acct_id (ti_account (ex_tx_inputs tx))"
proof -
  obtain tx where tx: "sample_execute sample_faucet 2 [] sample_tx_args = Ok tx" "ex_tx_inputs tx = sample_tx_inputs"
    "ex_tx_outputs tx = \<lparr> to_account = sample_final_stub, to_output_notes = \<lparr> outs_notes = [], outs_commitment = EMPTY_WORD \<rparr> \<rparr>"
    by (rule sample_executed)
  have "acct_nonce (ti_account (ex_tx_inputs tx)) = 3" "stub_nonce (to_account (ex_tx_outputs tx)) = 3"
    by (simp_all add: tx sample_tx_inputs_def sample_account_def account_new_def sample_final_stub_def account_to_stub_def account_stub_new_def)
  then have "felt_ok sample_prims (acct_nonce (ti_account (ex_tx_inputs tx)))" "felt_ok sample_prims (stub_nonce (to_account (ex_tx_outputs tx)))"
    by (simp_all add: sample_felt_ok)
  with executed_transaction_consistent [OF tx(1)] tx(1) show ?thesis by auto
qed

text \<open>
  C9. Proving does not change the transaction.  Suppose that executing and proving run the same
  deterministic machine and that recorded advice is enough to run a program again.  If the executor returns
  a transaction and the prover, given the witness of that transaction, returns a proven transaction, then the
  proven transaction has the identifier of the executed one, the same account, final hash, output notes,
  block and script root, and the nullifiers of the input notes under the same commitment; its account
  details, if it has any, are the delta of the execution or the account that this delta gives; and it
  is valid.
\<close>

theorem proven_transaction_matches_execution:
  fixes tx :: "('v, 's, 'm, 'g, 'p, 'd, 'c, 'a) executed_transaction"
  assumes replay: "replay_spec TYPE('m) P T S G V N D M H R U machine execute prove"
    and exec: "execute_transaction P T S G X V N D M H R fsub Q B execute ex i block_ref ids args = Ok tx"
    and parts: "executed_into_parts tx = (delta, outs, w)" "input_notes_new P input_note_nullifier nts = Ok (ti_input_notes (ex_tx_inputs tx))"
    and ptx: "prove_transaction P T S G X V N D M H U prove opts w = Ok ptx"
  shows "ptx_id ptx = executed_transaction_id P T S tx \<and> ptx_account_id ptx = acct_id (ti_account (ex_tx_inputs tx)) \<and>
    ptx_final_account_hash ptx = account_stub_hash P (to_account (ex_tx_outputs tx)) \<and>
    ptx_output_notes ptx = to_output_notes (ex_tx_outputs tx) \<and>
    ptx_block_ref ptx = bh_hash (ti_block_header (ex_tx_inputs tx)) \<and>
    ptx_tx_script_root ptx = map_option txs_hash (ta_tx_script (ex_tx_args tx)) \<and>
    ins_notes (ptx_input_notes ptx) = map input_note_nullifier nts \<and>
    ins_commitment (ptx_input_notes ptx) = ins_commitment (ti_input_notes (ex_tx_inputs tx)) \<and>
    details_from P T S (ti_account (ex_tx_inputs tx)) (ex_account_delta tx) (ptx_account_details ptx) \<and>
    proven_transaction_valid P T S ptx"
proof -
  obtain so y delta' outs' where run: "prove_run P T S G X V N D M H U prove opts w = Ok (so, y, delta', outs')"
    by (rule prove_transaction_run [OF ptx])
  have w: "tw_tx_inputs w = ex_tx_inputs tx" "tw_tx_args w = ex_tx_args tx" using parts(1) by (auto simp: executed_into_parts_def)
  have outs: "outs' = ex_tx_outputs tx" "delta' = ex_account_delta tx"
    using replay_spec.proven_run_outputs [OF replay exec parts(1) run] by simp_all
  have "ins_notes (ti_input_notes (ex_tx_inputs tx)) = nts" using parts(2) by (auto simp: input_list.new_Ok_iff)
  with prove_transaction_Ok [OF ptx run, unfolded w outs, OF parts(2)] show ?thesis
    by (auto simp: executed_transaction_id_def proven_transaction_valid_def proven_transaction_to_id_def to_nullifiers_def)
qed

theorem proven_transaction_matches_execution_witness:
  "\<exists>tx ptx. sample_execute sample_faucet 2 [] sample_tx_args = Ok tx \<and>
     prove_transaction sample_prims sample_smt (sample_ssmt 8) sample_mmr sample_stack sample_advice sample_nodes sample_map sample_merkle
       sample_tree_provider sample_memory sample_prove () sample_witness = Ok ptx \<and>
     ptx_id ptx = executed_transaction_id sample_prims sample_smt (sample_ssmt 8) tx"
proof -
  obtain tx where tx: "sample_execute sample_faucet 2 [] sample_tx_args = Ok tx" "ex_tx_inputs tx = sample_tx_inputs"
    "ex_program tx = (Dyn, [sample_code_block [7]])" "ex_tx_args tx = sample_tx_args" "ex_advice_witness tx = adv_default sample_advice"
    "ex_tx_outputs tx = \<lparr> to_account = sample_final_stub, to_output_notes = \<lparr> outs_notes = [], outs_commitment = EMPTY_WORD \<rparr> \<rparr>"
    by (rule sample_executed)
  have parts: "executed_into_parts tx = (ex_account_delta tx, ex_tx_outputs tx, sample_witness)"
    by (simp add: executed_into_parts_def sample_witness_def tx)
  obtain ptx where ptx: "prove_transaction sample_prims sample_smt (sample_ssmt 8) sample_mmr sample_stack sample_advice sample_nodes sample_map
      sample_merkle sample_tree_provider sample_memory sample_prove () sample_witness = Ok ptx"
    by (rule sample_proven)
  from proven_transaction_matches_execution [OF sample_replay.replay_spec_axioms tx(1) parts _ ptx, of "[]"] tx(1,2) sample_tx_input_notes ptx
  show ?thesis by auto
qed

text \<open>
  What the kernel leaves behind when it halts (\<open>epilogue::finalize_transaction\<close>): from the top of the stack the
  script root, a commitment to the output notes and the final account hash; and in the advice map, under this
  hash, its preimage: identifier, nonce, vault root, storage root and code root of the account.
\<close>

definition kernel_finalized :: "prims \<Rightarrow> 'd advice_map_ops \<Rightarrow> ('so \<Rightarrow> felt list) \<Rightarrow> digest \<Rightarrow> 'so \<Rightarrow> 'd \<Rightarrow> bool" where
  "kernel_finalized P D out_view script_root so m \<longleftrightarrow> (\<exists>notes_hash final_hash i nonce v s c.
     out_view so = rev (elements script_root) @ rev (elements notes_hash) @ rev (elements final_hash) @ [0, 0, 0, 0] \<and>
     final_hash = hash_elements P ([i, 0, 0, nonce] @ elements v @ elements s @ elements c) \<and>
     am_get D m final_hash = Some ([i, 0, 0, nonce] @ elements v @ elements s @ elements c))"

text \<open>From the outputs that are parsed from such a stack, the stack can be built again.\<close>

lemma finalized_stack_rebuilt:
  assumes X: "stack_view X in_view out_view"
    and fin: "kernel_finalized P D out_view (case root of Some r \<Rightarrow> r | None \<Rightarrow> EMPTY_WORD) so m"
    and outs: "from_transaction_parts P X D so m nts = Ok outs"
  shows "build_output_stack X (account_stub_hash P (to_account outs)) (outs_commitment (to_output_notes outs)) root = (Ok so :: (_, 'e) result)"
proof -
  let ?root = "case root of Some r \<Rightarrow> r | None \<Rightarrow> EMPTY_WORD"
  obtain notes_hash final_hash i nonce v s c where
    view: "out_view so = rev (elements ?root) @ rev (elements notes_hash) @ rev (elements final_hash) @ [0, 0, 0, 0]"
    and hash: "final_hash = hash_elements P ([i, 0, 0, nonce] @ elements v @ elements s @ elements c)"
    and data: "am_get D m final_hash = Some ([i, 0, 0, nonce] @ elements v @ elements s @ elements c)"
    using fin by (auto simp: kernel_finalized_def)
  have spec: "stack_spec X" using X by (simp add: stack_view_def)
  have len: "length (out_view so) = 16" by (simp add: view)
  have "map_option elements (get_stack_word X so i) = Some (rev (take 4 (drop i (out_view so))))" if "i + 4 \<le> 16" for i
    using stack_view.outputs_word [OF X] that len by simp
  from this [of 0] this [of 4] this [of 8]
  have parse: "parse_output_stack X so = (Ok (final_hash, notes_hash, ?root) :: (_, transaction_output_error) result)"
    by (auto simp: parse_output_stack_def view)
  have words: "group_slice_elements X (i # 0 # 0 # nonce # elements v @ elements s @ elements c) = Ok [W i 0 0 nonce, v, s, c]"
    using stack_spec.group_words [OF spec, of "[W i 0 0 nonce, v, s, c]"] by simp
  from outs have stub: "parse_final_account_stub [W i 0 0 nonce, v, s, c] = Ok (to_account outs)"
    and commitment: "outs_commitment (to_output_notes outs) = notes_hash"
    by (auto simp: from_transaction_parts_def parse data words res_simps split: if_splits)
  have "to_account outs = account_stub_new (AccountId i) nonce v s c"
    using stub by (auto simp: parse_final_account_stub_def ACCT_DATA_MEM_SIZE_def ACCT_ID_AND_NONCE_OFFSET_def ACCT_ID_IDX_def
        ACCT_NONCE_IDX_def ACCT_VAULT_ROOT_OFFSET_def ACCT_STORAGE_ROOT_OFFSET_def ACCT_CODE_ROOT_OFFSET_def res_simps
        try_from_felt_eq_Ok)
  then have "account_stub_hash P (to_account outs) = final_hash"
    by (simp add: account_stub_new_def account_stub_hash_def hash_account_def hash)
  moreover obtain so' where so': "stack_outputs_new X (rev (elements final_hash @ elements notes_hash @ elements ?root)) [] = Ok so'"
    using stack_spec.stack_outputs_ok [OF spec, of "rev (elements final_hash @ elements notes_hash @ elements ?root)"] by auto
  moreover have "so' = so"
    using stack_view.outputs_view [OF X _ so'] view by (intro stack_view.outputs_equal [OF X]) (simp_all add: numeral_eq_Suc)
  ultimately show ?thesis by (simp add: build_output_stack_def commitment)
qed

text \<open>
  C10. Proven transactions verify.  Take a run of the prover on a witness, and assume that in this run the
  kernel halted as its epilogue promises: script root, notes commitment and final account hash on the stack,
  and the preimage of that hash in the advice map.  Assume that the proof system is complete for the options of
  the prover, that the verifier holds the program information of the program of the witness, and that it asks
  for at most the security level of the proofs.  Then the verifier accepts every transaction that the prover
  returns: from its fields it rebuilds exactly the stack inputs and the stack outputs of the proof.
\<close>

theorem proven_transaction_verifies:
  assumes X: "stack_view X in_view out_view"
    and ptx: "prove_transaction P T S G X V N D M H U prove opts w = Ok ptx"
    and ins: "input_notes_new P input_note_nullifier nts = Ok (ti_input_notes (tw_tx_inputs w))"
    and run: "witness_kernel_inputs P T S G X V N D w = (Ok (si, adv) :: (_, transaction_prover_error) result)"
      "host_new P M H (account_to_stub T S (ti_account (tw_tx_inputs w))) (mem_of_inputs U adv) = (Ok h :: (_, transaction_prover_error) result)"
      "prove (tw_program w) si h opts = (h', Ok (so, y))"
    and kernel: "kernel_finalized P D out_view (case ta_tx_script (tw_tx_args w) of Some s \<Rightarrow> txs_hash s | None \<Rightarrow> EMPTY_WORD)
      so (mem_into_map U (th_adv_provider h'))"
    and complete: "\<And>c si h h' so y. prove c si h opts = (h', Ok (so, y)) \<Longrightarrow> verify (program_info c) si so y = Ok level"
    and v: "tv_program_info v = program_info (tw_program w)" "tv_proof_security_level v \<le> level"
  shows "verify_transaction X verify v ptx = Ok ()"
proof -
  obtain so' y' delta outs where pr: "prove_run P T S G X V N D M H U prove opts w = Ok (so', y', delta, outs)"
    by (rule prove_transaction_run [OF ptx])
  have same: "so' = so" "y' = y" and outs: "from_transaction_parts P X D so (mem_into_map U (th_adv_provider h')) (th_output_notes h') = Ok outs"
    by (rule prove_run_Ok [OF pr], use run in simp)+
  note fields = prove_transaction_Ok [OF ptx pr ins]
  let ?root = "map_option txs_hash (ta_tx_script (tw_tx_args w))"
  have "kernel_finalized P D out_view (case ?root of Some r \<Rightarrow> r | None \<Rightarrow> EMPTY_WORD) so (mem_into_map U (th_adv_provider h'))"
    using kernel by (cases "ta_tx_script (tw_tx_args w)") simp_all
  from finalized_stack_rebuilt [OF X this outs]
  have out: "build_output_stack X (ptx_final_account_hash ptx) (outs_commitment (ptx_output_notes ptx)) (ptx_tx_script_root ptx)
      = (Ok so :: (_, transaction_verifier_error) result)" using fields by simp
  from run(1) have "build_input_stack X (acct_id (ti_account (tw_tx_inputs w))) (proof_init_hash P T S (ti_account (tw_tx_inputs w)))
      (ins_commitment (ti_input_notes (tw_tx_inputs w))) (bh_hash (ti_block_header (tw_tx_inputs w)))
      = (Ok si :: (_, transaction_prover_error) result)"
    by (auto simp: witness_kernel_inputs_def get_kernel_inputs_def res_simps)
  from build_stack_any_error(1) [OF this]
  have "build_input_stack X (ptx_account_id ptx) (ptx_initial_account_hash ptx) (ins_commitment (ptx_input_notes ptx))
      (ptx_block_ref ptx) = (Ok si :: (_, transaction_verifier_error) result)" using fields by simp
  then show ?thesis
    unfolding verify_transaction_def out and_then.simps v(1) using complete [OF run(3)] fields same(2) v(2) by (simp add: not_less)
qed

theorem proven_transaction_verifies_witness:
  "\<exists>ptx. prove_transaction sample_prims sample_smt (sample_ssmt 8) sample_mmr sample_stack sample_advice sample_nodes sample_map sample_merkle
       sample_tree_provider sample_memory sample_prove () sample_witness = Ok ptx \<and>
     verify_transaction sample_stack (\<lambda>info si so y. if info = Dyn \<and> y = 5 then Ok 96 else Err (VerificationError []))
       (verifier_new Dyn 96) ptx = Ok ()"
proof -
  obtain delta ptx where run: "prove_run sample_prims sample_smt (sample_ssmt 8) sample_mmr sample_stack sample_advice sample_nodes sample_map
      sample_merkle sample_tree_provider sample_memory sample_prove () sample_witness = Ok (sample_outputs, 5, delta,
        \<lparr> to_account = sample_final_stub, to_output_notes = \<lparr> outs_notes = [], outs_commitment = EMPTY_WORD \<rparr> \<rparr>)"
    and ptx: "prove_transaction sample_prims sample_smt (sample_ssmt 8) sample_mmr sample_stack sample_advice sample_nodes sample_map
      sample_merkle sample_tree_provider sample_memory sample_prove () sample_witness = Ok ptx" by (rule sample_proven)
  obtain si adv and h h' :: "((digest \<times> felt list) list, u8 list) transaction_host" where r:
    "witness_kernel_inputs sample_prims sample_smt (sample_ssmt 8) sample_mmr sample_stack sample_advice sample_nodes sample_map sample_witness
      = (Ok (si, adv) :: (_, transaction_prover_error) result)"
    "host_new sample_prims sample_merkle sample_tree_provider (account_to_stub sample_smt (sample_ssmt 8) (ti_account (tw_tx_inputs sample_witness)))
      (mem_of_inputs sample_memory adv) = (Ok h :: (_, transaction_prover_error) result)"
    "sample_prove (tw_program sample_witness) si h () = (h', Ok (sample_outputs, 5) :: (_, execution_error) result)"
    by (rule prove_run_Ok [OF run])
  have "map_option txs_hash (ta_tx_script (tw_tx_args sample_witness)) = Some (W 1 1 1 1)"
    "input_notes_new sample_prims input_note_nullifier [] = Ok (ti_input_notes (tw_tx_inputs sample_witness))"
    "tw_program sample_witness = (Dyn, [sample_code_block [7]])"
    using sample_tx_input_notes by (simp_all add: sample_witness_def sample_tx_args_def with_tx_script_def transaction_args_new_def)
  moreover from this(1) have "(case ta_tx_script (tw_tx_args sample_witness) of Some s \<Rightarrow> txs_hash s | None \<Rightarrow> EMPTY_WORD) = W 1 1 1 1" by auto
  moreover have "kernel_finalized sample_prims sample_map (\<lambda>s. s) (W 1 1 1 1) sample_outputs (mem_into_map sample_memory (th_adv_provider h'))"
    by (simp add: kernel_finalized_def sample_memory_def stub_outputs_def stub_map_def account_stub_hash_words stub_words_def sample_map_def)
      (rule exI [of _ EMPTY_WORD], simp)
  ultimately show ?thesis
    using proven_transaction_verifies [OF sample_stack_laws.stack_view_axioms ptx _ r, where nts = "[]" and program_info = "\<lambda>_. Dyn"
        and level = 96 and v = "verifier_new Dyn 96" and verify = "\<lambda>info si so y. if info = Dyn \<and> y = 5 then Ok 96 else Err (VerificationError [])"] ptx
    by (auto simp: verifier_new_def)
qed

end
