(* ===== verification/Seed.thy ===== *)
theory Seed
  imports Account_Id
begin

text \<open>
  The search for an account seed (\<open>objects/src/accounts/seed.rs\<close>).  The single-threaded
  search is a loop with no bound, hence a partial function whose value \<open>None\<close> means that it
  never returns.  The concurrent search is a step relation on the shared state: the stop
  flag, the channel, and one local state per worker thread; every interleaving of the
  workers and of the receiving thread is a sequence of steps.
\<close>

section \<open>The single-threaded search\<close>

definition init_seed_word :: "prims \<Rightarrow> u8 list \<Rightarrow> word4" where
  "init_seed_word P init_seed =
     W (felt_new P (from_le_bytes (take 8 init_seed)))
       (felt_new P (from_le_bytes (take 8 (drop 8 init_seed))))
       (felt_new P (from_le_bytes (take 8 (drop 16 init_seed))))
       (felt_new P (from_le_bytes (take 8 (drop 24 init_seed))))"

definition seed_check :: "account_type \<Rightarrow> account_storage_type \<Rightarrow> digest \<Rightarrow> (bool, account_error) result" where
  "seed_check ty sty current_digest =
    (if is_ok (validate_seed_digest current_digest) then
       (case try_from_felt (w0 current_digest) of
          Ok i \<Rightarrow> if account_type i = ty then map_ok (\<lambda>s. s = sty) (storage_type i) else Ok False
        | Err e \<Rightarrow> Ok False
        | Panic m \<Rightarrow> Panic m)
     else Ok False)"

partial_function (option) seed_loop ::
    "prims \<Rightarrow> account_type \<Rightarrow> account_storage_type \<Rightarrow> digest \<Rightarrow> digest \<Rightarrow> word4 \<Rightarrow> digest
       \<Rightarrow> (word4, account_error) result option" where
  "seed_loop prims ty sty code_root storage_root current_seed current_digest =
    (case seed_check ty sty current_digest of
       Ok found \<Rightarrow>
         if found then Some (Ok current_seed)
         else seed_loop prims ty sty code_root storage_root current_digest
                (compute_digest prims current_digest code_root storage_root)
     | Err e \<Rightarrow> Some (Err e)
     | Panic m \<Rightarrow> Some (Panic m))"

definition get_account_seed_single ::
    "prims \<Rightarrow> u8 list \<Rightarrow> account_type \<Rightarrow> account_storage_type \<Rightarrow> digest \<Rightarrow> digest
       \<Rightarrow> (word4, account_error) result option" where
  "get_account_seed_single P init_seed ty sty code_root storage_root =
    (let current_seed = init_seed_word P init_seed in
     seed_loop P ty sty code_root storage_root current_seed
       (compute_digest P current_seed code_root storage_root))"

text \<open>The sequence of seeds the loop visits.\<close>

fun seed_iter :: "prims \<Rightarrow> digest \<Rightarrow> digest \<Rightarrow> nat \<Rightarrow> word4 \<Rightarrow> word4" where
  "seed_iter P code stg 0 seed = seed"
| "seed_iter P code stg (Suc n) seed = seed_iter P code stg n (compute_digest P seed code stg)"

text \<open>What makes a seed suitable.\<close>

definition seed_good :: "prims \<Rightarrow> account_type \<Rightarrow> account_storage_type \<Rightarrow> digest \<Rightarrow> digest \<Rightarrow> word4 \<Rightarrow> bool" where
  "seed_good P ty sty code stg seed \<longleftrightarrow>
     (case account_id_new P seed code stg of
        Ok i \<Rightarrow> account_type i = ty \<and> (storage_type i :: (account_storage_type, unit) result) = Ok sty
      | _ \<Rightarrow> False)"

lemma seed_check_good:
  "seed_check ty sty (compute_digest P seed code stg) = Ok (seed_good P ty sty code stg seed)"
  by (cases "validate_seed_digest (compute_digest P seed code stg)")
    (auto simp: seed_check_def seed_good_def account_id_new_def try_from_felt_cases storage_type_bits)

lemma seed_loop_unfold:
  "seed_loop P ty sty code stg seed (compute_digest P seed code stg) =
    (if seed_good P ty sty code stg seed then Some (Ok seed)
     else seed_loop P ty sty code stg (compute_digest P seed code stg)
       (compute_digest P (compute_digest P seed code stg) code stg))"
  by (subst seed_loop.simps) (simp add: seed_check_good)

lemma seed_loop_finds:
  "seed_good P ty sty code stg (seed_iter P code stg n seed) \<Longrightarrow>
   (\<And>k. k < n \<Longrightarrow> \<not> seed_good P ty sty code stg (seed_iter P code stg k seed)) \<Longrightarrow>
   seed_loop P ty sty code stg seed (compute_digest P seed code stg)
     = Some (Ok (seed_iter P code stg n seed))"
proof (induction n arbitrary: seed)
  case 0
  then show ?case by (simp add: seed_loop_unfold)
next
  case (Suc n)
  have "\<not> seed_good P ty sty code stg seed" using Suc.prems(2) [of 0] by simp
  moreover have "\<not> seed_good P ty sty code stg (seed_iter P code stg k (compute_digest P seed code stg))"
    if "k < n" for k using Suc.prems(2) [of "Suc k"] that by simp
  ultimately show ?case using Suc.IH [of "compute_digest P seed code stg"] Suc.prems(1)
    by (subst seed_loop_unfold) simp
qed

lemma seed_loop_some:
  assumes "seed_loop P ty sty code stg seed (compute_digest P seed code stg) = Some r"
  shows "\<exists>n. seed_good P ty sty code stg (seed_iter P code stg n seed)"
proof -
  define Q where "Q = (\<lambda>P ty sty code stg s d (r :: (word4, account_error) result).
    d = compute_digest P s code stg \<longrightarrow> (\<exists>n. seed_good P ty sty code stg (seed_iter P code stg n s)))"
  have "Q P ty sty code stg seed (compute_digest P seed code stg) r"
  proof (rule seed_loop.raw_induct [where P = Q, OF _ assms])
    fix loop P ty sty code stg s d r
    assume IH: "\<And>P ty sty code stg s d r. loop P ty sty code stg s d = Some r \<Longrightarrow> Q P ty sty code stg s d r"
    assume step: "(case seed_check ty sty d of
        Ok found \<Rightarrow> if found then Some (Ok s)
          else loop P ty sty code stg d (compute_digest P d code stg)
      | Err e \<Rightarrow> Some (Err e) | Panic m \<Rightarrow> Some (Panic m)) = Some r"
    show "Q P ty sty code stg s d r"
    proof (cases "d = compute_digest P s code stg \<and> \<not> seed_good P ty sty code stg s")
      case True
      with step have "loop P ty sty code stg d (compute_digest P d code stg) = Some r"
        by (auto simp: seed_check_good)
      from IH [OF this] True show ?thesis
        unfolding Q_def by (metis seed_iter.simps(2))
    qed (auto simp: Q_def intro: exI [of _ 0])
  qed
  then show ?thesis by (simp add: Q_def)
qed

text \<open>
  The search returns exactly when some visited seed is suitable, and then returns the
  first one.
\<close>

lemma seed_loop_iff:
  "seed_loop P ty sty code stg seed (compute_digest P seed code stg) = Some r \<longleftrightarrow>
    (\<exists>n. r = Ok (seed_iter P code stg n seed) \<and>
         seed_good P ty sty code stg (seed_iter P code stg n seed) \<and>
         (\<forall>k<n. \<not> seed_good P ty sty code stg (seed_iter P code stg k seed)))"
  (is "?loop = Some r \<longleftrightarrow> (\<exists>n. ?found n)")
proof
  assume some: "?loop = Some r"
  then obtain n where "seed_good P ty sty code stg (seed_iter P code stg n seed)"
    using seed_loop_some by blast
  then obtain m where "seed_good P ty sty code stg (seed_iter P code stg m seed)"
    "\<forall>k<m. \<not> seed_good P ty sty code stg (seed_iter P code stg k seed)"
    using exists_least_iff [of "\<lambda>n. seed_good P ty sty code stg (seed_iter P code stg n seed)"] by blast
  with some seed_loop_finds [of P ty sty code stg m seed] show "\<exists>n. ?found n" by auto
next
  assume "\<exists>n. ?found n"
  then show "?loop = Some r" using seed_loop_finds by auto
qed

section \<open>The concurrent search\<close>

datatype worker = Running word4 digest "32 word" | Finished

record search_state =
  ss_stop :: bool
  ss_channel :: "(digest \<times> word4) list"
  ss_workers :: "worker list"
  ss_received :: "(digest \<times> word4) option"

text \<open>
  One iteration of the loop of \<open>get_account_seed_inner\<close>: the worker's next state and what
  it sends.  The counter is a 32-bit integer; every 500000 iterations the stop flag is read.
\<close>

fun worker_step ::
    "prims \<Rightarrow> account_type \<Rightarrow> account_storage_type \<Rightarrow> digest \<Rightarrow> digest \<Rightarrow> bool \<Rightarrow> worker
       \<Rightarrow> worker \<times> (digest \<times> word4) list" where
  "worker_step P ty sty code stg stop Finished = (Finished, [])"
| "worker_step P ty sty code stg stop (Running current_seed current_digest count) =
    (let count' = count + 1 in
     if sint count' mod 500000 = 0 \<and> stop then (Finished, [])
     else (case seed_check ty sty current_digest of
         Ok found \<Rightarrow>
           if found then (Finished, [(current_digest, current_seed)])
           else (Running current_digest (compute_digest P current_digest code stg) count', [])
       | Err e \<Rightarrow> (Finished, [])
       | Panic m \<Rightarrow> (Finished, [])))"

definition spawn_worker :: "prims \<Rightarrow> u8 list \<Rightarrow> digest \<Rightarrow> digest \<Rightarrow> nat \<Rightarrow> worker" where
  "spawn_worker P init_seed code stg count =
    (let current_seed = init_seed_word P (init_seed[0 := init_seed ! 0 + of_nat count]) in
     Running current_seed (compute_digest P current_seed code stg) 0)"

definition search_init :: "prims \<Rightarrow> u8 list \<Rightarrow> digest \<Rightarrow> digest \<Rightarrow> nat \<Rightarrow> search_state" where
  "search_init P init_seed code stg thread_count =
     \<lparr> ss_stop = False, ss_channel = [],
       ss_workers = map (spawn_worker P init_seed code stg) [0..<thread_count],
       ss_received = None \<rparr>"

inductive search_step ::
    "prims \<Rightarrow> account_type \<Rightarrow> account_storage_type \<Rightarrow> digest \<Rightarrow> digest \<Rightarrow> search_state \<Rightarrow> search_state \<Rightarrow> bool"
  for P ty sty code stg where
  work: "i < length (ss_workers s) \<Longrightarrow> ss_workers s ! i \<noteq> Finished \<Longrightarrow>
     worker_step P ty sty code stg (ss_stop s) (ss_workers s ! i) = (w, sent) \<Longrightarrow>
     search_step P ty sty code stg s
       (s\<lparr> ss_workers := (ss_workers s)[i := w], ss_channel := ss_channel s @ sent \<rparr>)"
| receive: "ss_received s = None \<Longrightarrow> ss_channel s = m # ms \<Longrightarrow>
     search_step P ty sty code stg s (s\<lparr> ss_channel := ms, ss_received := Some m \<rparr>)"
| signal: "ss_received s = Some m \<Longrightarrow> \<not> ss_stop s \<Longrightarrow>
     search_step P ty sty code stg s (s\<lparr> ss_stop := True \<rparr>)"

text \<open>The value returned once a message was received and the stop flag was set.\<close>

definition search_result :: "search_state \<Rightarrow> (word4, account_error) result option" where
  "search_result s = (if ss_stop s then map_option (\<lambda>(d, seed). Ok seed) (ss_received s) else None)"

fun worker_inv :: "prims \<Rightarrow> digest \<Rightarrow> digest \<Rightarrow> worker \<Rightarrow> bool" where
  "worker_inv P code stg Finished \<longleftrightarrow> True"
| "worker_inv P code stg (Running seed d count) \<longleftrightarrow> d = compute_digest P seed code stg"

definition search_inv ::
    "prims \<Rightarrow> account_type \<Rightarrow> account_storage_type \<Rightarrow> digest \<Rightarrow> digest \<Rightarrow> search_state \<Rightarrow> bool" where
  "search_inv P ty sty code stg s \<longleftrightarrow>
     list_all (worker_inv P code stg) (ss_workers s) \<and>
     list_all (\<lambda>(d, seed). seed_good P ty sty code stg seed) (ss_channel s) \<and>
     (\<forall>d seed. ss_received s = Some (d, seed) \<longrightarrow> seed_good P ty sty code stg seed) \<and>
     (ss_stop s \<longrightarrow> ss_received s \<noteq> None) \<and>
     (Finished \<in> set (ss_workers s) \<longrightarrow> ss_channel s \<noteq> [] \<or> ss_received s \<noteq> None)"

lemma worker_step_inv:
  assumes "worker_step P ty sty code stg stop w = (w', sent)" "worker_inv P code stg w"
  shows "worker_inv P code stg w'"
    and "list_all (\<lambda>(d, seed). seed_good P ty sty code stg seed) sent"
    and "w \<noteq> Finished \<Longrightarrow> w' = Finished \<Longrightarrow> sent = [] \<Longrightarrow> stop"
  using assms by (cases w; auto simp: seed_check_good Let_def split: if_splits)+

lemma search_init_inv: "search_inv P ty sty code stg (search_init P init_seed code stg n)"
  by (auto simp: search_inv_def search_init_def spawn_worker_def list_all_iff Let_def)

lemma search_step_inv:
  assumes "search_step P ty sty code stg s s'" "search_inv P ty sty code stg s"
  shows "search_inv P ty sty code stg s'"
  using assms
proof (induction rule: search_step.induct)
  case (work i s w sent)
  then have inv: "worker_inv P code stg (ss_workers s ! i)"
    by (simp add: search_inv_def list_all_length)
  note ws = worker_step_inv [OF work.hyps(3) inv]
  have "list_all (worker_inv P code stg) ((ss_workers s)[i := w])"
    using work.prems ws(1) unfolding search_inv_def
    by (metis list_all_length length_list_update nth_list_update_eq nth_list_update_neq)
  moreover have "Finished \<in> set ((ss_workers s)[i := w]) \<Longrightarrow> w = Finished \<or> Finished \<in> set (ss_workers s)"
    using set_update_subset_insert [of "ss_workers s" i w] by auto
  ultimately show ?case
    using work.prems ws(2) ws(3) [OF work.hyps(2)] unfolding search_inv_def by auto
next
  case (receive s m ms)
  then show ?case by (auto simp: search_inv_def)
next
  case (signal s m)
  then show ?case by (auto simp: search_inv_def)
qed

lemma search_reachable_inv:
  "(search_step P ty sty code stg)\<^sup>*\<^sup>* (search_init P init_seed code stg n) s \<Longrightarrow>
   search_inv P ty sty code stg s"
  by (induction rule: rtranclp_induct) (auto intro: search_step_inv search_init_inv)

lemma search_step_workers:
  "search_step P ty sty code stg s s' \<Longrightarrow> length (ss_workers s') = length (ss_workers s)"
  by (induction rule: search_step.induct) simp_all

lemma search_reachable_workers:
  "(search_step P ty sty code stg)\<^sup>*\<^sup>* (search_init P init_seed code stg n) s \<Longrightarrow>
   length (ss_workers s) = n"
  by (induction rule: rtranclp_induct) (simp_all add: search_init_def search_step_workers)

lemma search_inv_progress:
  assumes inv: "search_inv P ty sty code stg s" and "ss_workers s \<noteq> []" "\<not> ss_stop s"
  shows "\<exists>s'. search_step P ty sty code stg s s'"
proof (cases "ss_received s")
  case (Some m)
  with assms show ?thesis by (meson search_step.signal)
next
  case None
  show ?thesis
  proof (cases "ss_channel s")
    case (Cons m ms)
    with None show ?thesis by (meson search_step.receive)
  next
    case Nil
    with inv None have "Finished \<notin> set (ss_workers s)" by (simp add: search_inv_def)
    with assms(2) have "0 < length (ss_workers s)" "ss_workers s ! 0 \<noteq> Finished"
      by (auto, metis length_greater_0_conv nth_mem)
    then show ?thesis by (metis search_step.work surj_pair)
  qed
qed

section \<open>Theorems\<close>

text \<open>
  C19. The single-threaded seed search returns exactly when one of the seeds it visits
  (the initial seed and its iterated digests) is suitable; it then returns the first such
  seed, and never an error or a panic.
\<close>

theorem get_account_seed_single_returns:
  "get_account_seed_single P init_seed ty sty code stg = Some r \<longleftrightarrow>
    (\<exists>n. r = Ok (seed_iter P code stg n (init_seed_word P init_seed)) \<and>
         seed_good P ty sty code stg (seed_iter P code stg n (init_seed_word P init_seed)) \<and>
         \<not> (\<exists>k<n. seed_good P ty sty code stg (seed_iter P code stg k (init_seed_word P init_seed))))"
  unfolding get_account_seed_single_def Let_def seed_loop_iff by blast

text \<open>
  A seed returned by the single-threaded search gives an account identifier: creating
  the identifier from it succeeds, and the identifier has the requested account type and
  storage type.
\<close>

theorem get_account_seed_single_sound:
  assumes "get_account_seed_single P init_seed ty sty code stg = Some (Ok seed)"
  shows "\<exists>i. account_id_new P seed code stg = Ok i \<and> account_type i = ty
    \<and> storage_type i = (Ok sty :: (account_storage_type, account_error) result)"
proof -
  from assms have "seed_good P ty sty code stg seed"
    unfolding get_account_seed_single_def Let_def seed_loop_iff by auto
  then show ?thesis
    by (auto simp: seed_good_def storage_type_bits split: result.splits if_splits)
qed

definition sample_init_seed :: "u8 list" where
  "sample_init_seed = [0, 0, 0, 0, 0, 0, 0, 16, 0, 0, 0, 0, 0, 0, 0, 0,
     0, 0, 0, 0, 0, 0, 0, 0, 0, 0, 0, 0, 0, 0, 0, 0]"

lemma sample_init_word: "init_seed_word sample_prims sample_init_seed = W 0x1000000000000000 0 0 0"
  by (simp add: init_seed_word_def sample_init_seed_def sample_prims_def)

lemma sample_seed_good:
  "seed_good sample_prims RegularAccountUpdatableCode OnChain EMPTY_WORD EMPTY_WORD
     (W 0x1000000000000000 0 0 0)"
proof -
  have "compute_digest sample_prims (W 0x1000000000000000 0 0 0) EMPTY_WORD EMPTY_WORD
      = W 0x1000000011F5E2C7 16 0 0"
    by (simp add: compute_digest_elements sample_prims_def sample_hash_def)
  then have "account_id_new sample_prims (W 0x1000000000000000 0 0 0) EMPTY_WORD EMPTY_WORD
      = Ok (AccountId 0x1000000011F5E2C7)"
    by (simp add: account_id_new_Ok account_id_valid_def bit_eval)
  then show ?thesis
    by (simp add: seed_good_def account_type_def account_type_of_bits storage_type_bits)
qed

lemma sample_seed_found:
  "get_account_seed_single sample_prims sample_init_seed RegularAccountUpdatableCode OnChain
     EMPTY_WORD EMPTY_WORD = Some (Ok (W 0x1000000000000000 0 0 0))"
  by (simp add: get_account_seed_single_def sample_init_word seed_loop_unfold sample_seed_good)

theorem get_account_seed_single_sound_witness:
  "\<exists>i. account_id_new sample_prims (W 0x1000000000000000 0 0 0) EMPTY_WORD EMPTY_WORD = Ok i
     \<and> account_type i = RegularAccountUpdatableCode
     \<and> storage_type i = (Ok OnChain :: (account_storage_type, account_error) result)"
  by (rule get_account_seed_single_sound [OF sample_seed_found])

text \<open>
  C18. In every interleaving of the concurrent search, a seed that is returned gives an
  account identifier of the requested account and storage type, and the search cannot get
  stuck before it returns.
\<close>

theorem concurrent_search_sound:
  assumes "(search_step P ty sty code stg)\<^sup>*\<^sup>* (search_init P init_seed code stg threads) s"
    and "0 < threads"
  shows "(case search_result s of
            None \<Rightarrow> \<exists>s'. search_step P ty sty code stg s s'
          | Some r \<Rightarrow> \<exists>seed. r = Ok seed \<and> seed_good P ty sty code stg seed)"
proof -
  have inv: "search_inv P ty sty code stg s" by (rule search_reachable_inv [OF assms(1)])
  have "ss_workers s \<noteq> []" using search_reachable_workers [OF assms(1)] assms(2) by auto
  with inv search_inv_progress [OF inv] show ?thesis
    by (auto simp: search_result_def search_inv_def split: option.splits)
qed

lemma sample_search_init:
  "(search_step sample_prims RegularAccountUpdatableCode OnChain EMPTY_WORD EMPTY_WORD)\<^sup>*\<^sup>*
     (search_init sample_prims sample_init_seed EMPTY_WORD EMPTY_WORD 2)
     (search_init sample_prims sample_init_seed EMPTY_WORD EMPTY_WORD 2)"
  by (rule rtranclp.rtrancl_refl)

theorem concurrent_search_sound_witness:
  "\<exists>s'. search_step sample_prims RegularAccountUpdatableCode OnChain EMPTY_WORD EMPTY_WORD
     (search_init sample_prims sample_init_seed EMPTY_WORD EMPTY_WORD 2) s'"
  using concurrent_search_sound [OF sample_search_init]
  by (simp add: search_result_def search_init_def)

end
