(* ===== verification/Token_Symbol.thy ===== *)
theory Token_Symbol
  imports Primitives
begin

text \<open>
  Token symbols (\<open>objects/src/assets/token_symbol.rs\<close>): up to six upper-case letters as a
  number in base 26.  A \<open>&str\<close> is the string of its UTF-8 bytes: its length is \<open>len()\<close>, and
  all its characters are ASCII upper case exactly if all its bytes are.
\<close>

section \<open>Definitions\<close>

datatype token_symbol = TokenSymbol (symbol_felt: felt)

definition MAX_SYMBOL_LENGTH :: nat where
  "MAX_SYMBOL_LENGTH = 6"

definition MAX_ENCODED_VALUE :: u64 where
  "MAX_ENCODED_VALUE = 26 ^ MAX_SYMBOL_LENGTH"

definition is_ascii_uppercase :: "char \<Rightarrow> bool" where
  "is_ascii_uppercase c \<longleftrightarrow> 65 \<le> (of_char c :: nat) \<and> (of_char c :: nat) \<le> 90"

fun encode_loop :: "string \<Rightarrow> u64 \<Rightarrow> (u64, asset_error) result" where
  "encode_loop [] acc = Ok acc"
| "encode_loop (c # cs) acc =
    (let digit = of_nat (of_char c) - 65 in
     if digit < 26 then encode_loop cs (acc * 26 + digit) else Panic ''digit < 26'')"

definition encode_symbol_to_felt :: "prims \<Rightarrow> string \<Rightarrow> (felt, asset_error) result" where
  "encode_symbol_to_felt P s =
    (if s = [] \<or> length s > MAX_SYMBOL_LENGTH
     then Err (TokenSymbolError ''Token symbol must be between 1 and 6 characters long.'')
     else if list_ex (\<lambda>c. \<not> is_ascii_uppercase c) s
     then Err (TokenSymbolError ''Token Symbol contains characters that are not ASCII upper case'')
     else map_ok (felt_new P) (encode_loop s 0))"

fun decode_loop :: "nat \<Rightarrow> u64 \<Rightarrow> string \<Rightarrow> string" where
  "decode_loop 0 rem acc = acc"
| "decode_loop (Suc n) rem acc =
    (let digit = (ucast (rem mod 26) :: u8) in decode_loop n (rem div 26) (char_of (unat (digit + 65)) # acc))"

definition decode_felt_to_symbol :: "felt \<Rightarrow> (string, asset_error) result" where
  "decode_felt_to_symbol x =
    (if x < 26 ^ MAX_SYMBOL_LENGTH then Ok (decode_loop 6 x []) else Panic ''encoded_value'')"

definition token_symbol_new :: "prims \<Rightarrow> string \<Rightarrow> (token_symbol, asset_error) result" where
  "token_symbol_new P s = and_then (encode_symbol_to_felt P s) (\<lambda>x. Ok (TokenSymbol x))"

definition token_symbol_to_str :: "token_symbol \<Rightarrow> (string, asset_error) result" where
  "token_symbol_to_str t = decode_felt_to_symbol (symbol_felt t)"

definition token_symbol_try_from_felt :: "felt \<Rightarrow> (token_symbol, asset_error) result" where
  "token_symbol_try_from_felt x =
    (if x \<ge> MAX_ENCODED_VALUE then Err (TokenSymbolError ''Encoded value is too large'') else Ok (TokenSymbol x))"

section \<open>Letters and base 26 numbers\<close>

definition letter :: "nat \<Rightarrow> char" where
  "letter k = char_of (k + 65)"

definition letter_value :: "char \<Rightarrow> nat" where
  "letter_value c = of_char c - 65"

fun symbol_value :: "string \<Rightarrow> nat \<Rightarrow> nat" where
  "symbol_value [] acc = acc"
| "symbol_value (c # cs) acc = symbol_value cs (acc * 26 + letter_value c)"

lemma letter_value_less: "is_ascii_uppercase c \<Longrightarrow> letter_value c < 26"
  by (auto simp: is_ascii_uppercase_def letter_value_def)

lemma letter_letter_value: "is_ascii_uppercase c \<Longrightarrow> letter (letter_value c) = c"
  by (simp add: is_ascii_uppercase_def letter_def letter_value_def)

lemma symbol_value_append: "symbol_value (s @ [c]) acc = symbol_value s acc * 26 + letter_value c"
  by (induction s acc rule: symbol_value.induct) simp_all

lemma symbol_value_bound:
  "list_all is_ascii_uppercase s \<Longrightarrow> symbol_value s acc < (acc + 1) * 26 ^ length s"
proof (induction s acc rule: symbol_value.induct)
  case (2 c cs acc)
  then have "acc * 26 + letter_value c + 1 \<le> (acc + 1) * 26" using letter_value_less [of c] by simp
  then have le: "(acc * 26 + letter_value c + 1) * 26 ^ length cs \<le> (acc + 1) * 26 * 26 ^ length cs"
    by (rule mult_le_mono1)
  have "symbol_value cs (acc * 26 + letter_value c) < (acc * 26 + letter_value c + 1) * 26 ^ length cs"
    using 2 by auto
  also note le
  finally show ?case by (simp only: symbol_value.simps list.size power_Suc power_add add_Suc_right add_0_right mult.assoc)
qed simp

lemma unat_letter_digit:
  assumes "is_ascii_uppercase c"
  shows "unat (of_nat (of_char c) - 65 :: u64) = letter_value c"
proof -
  have "unat (of_nat (of_char c) :: u64) = of_char c"
    using assms by (simp add: is_ascii_uppercase_def unat_of_nat)
  with assms show ?thesis by (auto simp: is_ascii_uppercase_def letter_value_def unat_sub word_le_nat_alt)
qed

lemma encode_loop_value:
  assumes "list_all is_ascii_uppercase s" "(unat acc + 1) * 26 ^ length s \<le> 26 ^ 6"
  shows "\<exists>x. encode_loop s acc = Ok x \<and> unat x = symbol_value s (unat acc)"
  using assms
proof (induction s arbitrary: acc)
  case (Cons c cs)
  let ?d = "of_nat (of_char c) - 65 :: u64"
  have c: "is_ascii_uppercase c" "unat ?d = letter_value c" "letter_value c < 26"
    using Cons.prems(1) unat_letter_digit letter_value_less by auto
  have "(unat acc + 1) * 26 \<le> (unat acc + 1) * 26 ^ length (c # cs)" by (intro mult_le_mono2) simp
  with Cons.prems(2) have "(unat acc + 1) * 26 \<le> 26 ^ 6" by linarith
  then have acc: "unat (acc * 26 + ?d) = unat acc * 26 + letter_value c"
    using c by (simp add: unat_word_ariths)
  have "(unat acc * 26 + letter_value c + 1) * 26 ^ length cs \<le> (unat acc + 1) * 26 * 26 ^ length cs"
    using c(3) by (intro mult_le_mono1) simp
  also have "\<dots> \<le> 26 ^ 6" using Cons.prems(2) by (simp only: list.size power_Suc add_Suc_right add_0_right mult.assoc)
  finally have "(unat (acc * 26 + ?d) + 1) * 26 ^ length cs \<le> 26 ^ 6" by (simp only: acc)
  with Cons.IH [of "acc * 26 + ?d"] Cons.prems(1) acc c show ?case
    by (simp add: Let_def word_less_nat_alt)
qed simp

text \<open>Decoding writes the last \<open>n\<close> base 26 digits as letters.\<close>

fun base26 :: "nat \<Rightarrow> nat \<Rightarrow> string" where
  "base26 0 x = []"
| "base26 (Suc n) x = base26 n (x div 26) @ [letter (x mod 26)]"

lemma length_base26 [simp]: "length (base26 n x) = n"
  by (induction n arbitrary: x) simp_all

lemma decode_loop_base26: "decode_loop n x acc = base26 n (unat x) @ acc"
proof (induction n arbitrary: x acc)
  case (Suc n)
  have "unat (ucast (x mod 26) :: u8) = unat x mod 26"
    by (simp add: unsigned_ucast_eq unat_mod take_bit_nat_eq_self)
  then have "char_of (unat ((ucast (x mod 26) :: u8) + 65)) = letter (unat x mod 26)"
    by (simp add: letter_def unat_word_ariths)
  with Suc show ?case by (simp add: Let_def unat_div)
qed simp

lemma base26_zero: "base26 n 0 = replicate n (letter 0)"
  by (induction n) (simp_all add: replicate_append_same)

lemma base26_symbol_value:
  "list_all is_ascii_uppercase s \<Longrightarrow> length s \<le> n \<Longrightarrow>
   base26 n (symbol_value s 0) = replicate (n - length s) (letter 0) @ s"
proof (induction s arbitrary: n rule: rev_induct)
  case (snoc c s)
  then obtain m where n: "n = Suc m" by (cases n) auto
  have c: "letter_value c < 26" "letter (letter_value c) = c"
    using snoc.prems letter_value_less letter_letter_value by auto
  with snoc n show ?case by (simp add: symbol_value_append)
qed (simp add: base26_zero)

lemma is_ascii_uppercase_letter: "k < 26 \<Longrightarrow> is_ascii_uppercase (letter k)" "k < 26 \<Longrightarrow> letter_value (letter k) = k"
  by (simp_all add: is_ascii_uppercase_def letter_def letter_value_def)

lemma base26_uppercase: "list_all is_ascii_uppercase (base26 n x)"
  by (induction n arbitrary: x) (simp_all add: is_ascii_uppercase_letter)

lemma symbol_value_base26: "x < 26 ^ n \<Longrightarrow> symbol_value (base26 n x) 0 = x"
  by (induction n arbitrary: x)
    (simp_all add: symbol_value_append is_ascii_uppercase_letter less_mult_imp_div_less mult.commute)

context felt_spec
begin

lemma encode_symbol_ok:
  assumes "s \<noteq> []" "length s \<le> 6" "list_all is_ascii_uppercase s"
  shows "\<exists>x. encode_symbol_to_felt P s = Ok x \<and> unat x = symbol_value s 0 \<and> x < MAX_ENCODED_VALUE"
proof -
  have le: "(26 :: nat) ^ length s \<le> 26 ^ 6" using assms(2) by (intro power_increasing) simp_all
  then obtain x where x: "encode_loop s 0 = Ok x" "unat x = symbol_value s 0"
    using encode_loop_value [OF assms(3), of 0] by auto
  have "symbol_value s 0 < 26 ^ 6"
    using symbol_value_bound [OF assms(3), of 0] le by simp
  then have "x < MAX_ENCODED_VALUE" "felt_ok P x"
    using x(2) by (auto simp: MAX_ENCODED_VALUE_def MAX_SYMBOL_LENGTH_def word_less_nat_alt intro: felt_ok_63_bits)
  with assms x show ?thesis
    by (auto simp: encode_symbol_to_felt_def MAX_SYMBOL_LENGTH_def felt_new_id list_ex_iff list_all_iff)
qed

end

section \<open>Property\<close>

text \<open>
  Token symbols as field elements.  A symbol is accepted exactly if it has between one
  and six letters, all upper case.  Its encoding is below \<open>26^6\<close> and decodes to the symbol
  with letters \<open>A\<close> put in front up to length six: only symbols of six letters are decoded to
  themselves.  Conversely every field element accepted as a symbol decodes to a symbol that
  encodes to it.
\<close>

theorem token_symbol_round_trip:
  assumes "felt_spec P"
  shows "(if 1 \<le> length s \<and> length s \<le> 6 \<and> list_all is_ascii_uppercase s
      then \<exists>t. token_symbol_new P s = Ok t \<and> symbol_felt t < 26 ^ 6 \<and>
        token_symbol_to_str t = Ok (replicate (6 - length s) CHR ''A'' @ s)
      else \<exists>e. token_symbol_new P s = Err e) \<and>
    (token_symbol_try_from_felt x = Ok t \<longrightarrow>
      (\<exists>u. token_symbol_to_str t = Ok u \<and> length u = 6 \<and> token_symbol_new P u = Ok t))"
proof (intro conjI impI)
  have A: "letter 0 = CHR ''A''" by (simp add: letter_def char_of_def bit_0)
  show "if 1 \<le> length s \<and> length s \<le> 6 \<and> list_all is_ascii_uppercase s
      then \<exists>t. token_symbol_new P s = Ok t \<and> symbol_felt t < 26 ^ 6 \<and>
        token_symbol_to_str t = Ok (replicate (6 - length s) CHR ''A'' @ s)
      else \<exists>e. token_symbol_new P s = Err e"
  proof (cases "1 \<le> length s \<and> length s \<le> 6 \<and> list_all is_ascii_uppercase s")
    case True
    then have s: "s \<noteq> []" "length s \<le> 6" "list_all is_ascii_uppercase s" by auto
    from felt_spec.encode_symbol_ok [OF assms s] obtain y where
      "encode_symbol_to_felt P s = Ok y" "unat y = symbol_value s 0" "y < MAX_ENCODED_VALUE" by blast
    with True base26_symbol_value [OF s(3,2)] show ?thesis
      by (simp add: token_symbol_new_def token_symbol_to_str_def decode_felt_to_symbol_def decode_loop_base26
          MAX_ENCODED_VALUE_def MAX_SYMBOL_LENGTH_def A)
  next
    case False
    then show ?thesis
      by (auto simp: token_symbol_new_def encode_symbol_to_felt_def MAX_SYMBOL_LENGTH_def list_ex_iff list_all_iff
          Suc_le_eq)
  qed
next
  assume "token_symbol_try_from_felt x = Ok t"
  then have t: "t = TokenSymbol x" "x < 26 ^ 6"
    by (auto simp: token_symbol_try_from_felt_def MAX_ENCODED_VALUE_def MAX_SYMBOL_LENGTH_def not_le split: if_splits)
  then have "unat x < 26 ^ 6" by (simp add: word_less_nat_alt)
  moreover have "base26 6 (unat x) \<noteq> []" by (metis length_base26 list.size(3) numeral_eq_Suc zero_neq_numeral)
  ultimately obtain y where "encode_symbol_to_felt P (base26 6 (unat x)) = Ok y" "unat y = unat x"
    using felt_spec.encode_symbol_ok [OF assms _ _ base26_uppercase, of 6 "unat x"] symbol_value_base26 [of "unat x" 6]
    by auto
  with t show "\<exists>u. token_symbol_to_str t = Ok u \<and> length u = 6 \<and> token_symbol_new P u = Ok t"
    by (intro exI [of _ "base26 6 (unat x)"])
      (simp add: token_symbol_new_def token_symbol_to_str_def decode_felt_to_symbol_def decode_loop_base26
          MAX_SYMBOL_LENGTH_def word_unat_eq_iff)
qed

theorem token_symbol_round_trip_witness:
  "\<exists>t. token_symbol_new sample_prims ''A'' = Ok t \<and> token_symbol_to_str t = Ok ''AAAAAA''"
  using token_symbol_round_trip [OF sample_felt_laws.felt_spec_axioms, of "''A''"]
  by (simp add: is_ascii_uppercase_def numeral_eq_Suc) blast

end
