(* ===== verification/Standard.thy ===== *)
theory Standard
  imports Transaction_Inputs Seed Token_Symbol
begin

text \<open>
  The standard accounts and notes of \<open>miden-lib\<close>: \<open>accounts/wallets/mod.rs\<close>,
  \<open>accounts/faucets/mod.rs\<close>, \<open>notes/mod.rs\<close> and \<open>notes/utils.rs\<close>.

  The compiled note scripts (files of the build), the parser of modules, the module of the faucet
  in the Miden library, the conversion of a public key to a word and the random generator are
  arguments.  Accounts are created with the single-threaded seed search, which is the one of the
  default features; the result is \<open>None\<close> if the search does not return.
\<close>

section \<open>Accounts\<close>

datatype 'k auth_scheme = RpoFalcon512 (pub_key: 'k)

definition MAX_MAX_SUPPLY :: u64 where
  "MAX_MAX_SUPPLY = 2 ^ 63 - 1"

definition MAX_DECIMALS :: u8 where
  "MAX_DECIMALS = 12"

text \<open>The common end of both constructors: an account without assets, its seed and its identifier.\<close>

definition new_account ::
    "prims \<Rightarrow> 'v smt_ops \<Rightarrow> 's simple_smt_ops \<Rightarrow> u8 list \<Rightarrow> account_type \<Rightarrow> account_storage_type
      \<Rightarrow> ('m, 's) account_code \<Rightarrow> 's account_storage \<Rightarrow> (('v, 's, 'm) account \<times> word4, account_error) result option" where
  "new_account P T S init_seed ty sty code st =
    (case expect ''error on empty vault'' (vault_new P T []) of
       Ok vault \<Rightarrow>
         map_option (\<lambda>found.
             and_then found (\<lambda>seed.
             and_then (account_id_new P seed (code_root S code) (storage_root S st)) (\<lambda>i.
               Ok (account_new i vault st code 0, seed))))
           (get_account_seed_single P init_seed ty sty (code_root S code) (storage_root S st))
     | Err e \<Rightarrow> Some (Err e)
     | Panic m \<Rightarrow> Some (Panic m))"

definition create_basic_fungible_faucet ::
    "prims \<Rightarrow> 'v smt_ops \<Rightarrow> 's simple_smt_ops \<Rightarrow> 'm asm_ops \<Rightarrow> (string \<Rightarrow> 'm option) \<Rightarrow> ('k \<Rightarrow> word4)
      \<Rightarrow> u8 list \<Rightarrow> token_symbol \<Rightarrow> u8 \<Rightarrow> felt \<Rightarrow> account_storage_type \<Rightarrow> 'k auth_scheme
      \<Rightarrow> (('v, 's, 'm) account \<times> word4, account_error) result option" where
  "create_basic_fungible_faucet P T S A get_module_ast key_word init_seed symbol decimals max_supply sty auth =
    (let auth_data = (case auth of RpoFalcon512 key \<Rightarrow> key_word key);
         prepared =
           and_then (expect_some ''Getting module AST failed''
             (get_module_ast ''miden::contracts::faucets::basic_fungible'')) (\<lambda>ast.
           and_then (code_new P S A ast) (\<lambda>code.
           if decimals > MAX_DECIMALS
             then Err (FungibleFaucetInvalidMetadata ''Decimals must be less than 13'')
           else if max_supply > MAX_MAX_SUPPLY
             then Err (FungibleFaucetInvalidMetadata ''Max supply must be < 2^63'')
           else
             and_then (storage_new P S
               [\<lparr> item_index = 0, item_slot = storage_slot_new_value auth_data \<rparr>,
                \<lparr> item_index = 1, item_slot = storage_slot_new_value
                    (W max_supply (felt_new P (ucast decimals)) (symbol_felt symbol) 0) \<rparr>]) (\<lambda>st.
             Ok (code, st)))) in
     case prepared of
       Ok (code, st) \<Rightarrow> new_account P T S init_seed FungibleFaucet sty code st
     | Err e \<Rightarrow> Some (Err e)
     | Panic m \<Rightarrow> Some (Panic m))"

definition create_basic_wallet ::
    "prims \<Rightarrow> 'v smt_ops \<Rightarrow> 's simple_smt_ops \<Rightarrow> 'm asm_ops \<Rightarrow> (string \<Rightarrow> ('m, assembly_error) result) \<Rightarrow> ('k \<Rightarrow> word4)
      \<Rightarrow> u8 list \<Rightarrow> 'k auth_scheme \<Rightarrow> account_type \<Rightarrow> account_storage_type
      \<Rightarrow> (('v, 's, 'm) account \<times> word4, account_error) result option" where
  "create_basic_wallet P T S A parse key_word init_seed auth ty sty =
    (if ty = FungibleFaucet \<or> ty = NonFungibleFaucet
     then Some (Err (AccountIdInvalidFieldElement ''Basic wallet accounts cannot have a faucet account type''))
     else
       let (auth_scheme_procedure, storage_slot_0_data) =
             (case auth of RpoFalcon512 key \<Rightarrow> (''basic::auth_tx_rpo_falcon512'', key_word key));
           account_code_string = concat (map (\<lambda>l. CHR 0x0A # ''    '' @ l)
             [''use.miden::contracts::wallets::basic->basic_wallet'', ''use.miden::contracts::auth::basic'']) @ [CHR 0x0A]
             @ concat (map (\<lambda>l. CHR 0x0A # ''    '' @ l)
             [''export.basic_wallet::receive_asset'', ''export.basic_wallet::send_asset'',
              ''export.'' @ auth_scheme_procedure]) @ CHR 0x0A # CHR 0x0A # ''    '';
           prepared =
             and_then (map_err AccountCodeAssemblerError (parse account_code_string)) (\<lambda>ast.
             and_then (code_new P S A ast) (\<lambda>code.
             and_then (storage_new P S [\<lparr> item_index = 0, item_slot = storage_slot_new_value storage_slot_0_data \<rparr>]) (\<lambda>st.
             Ok (code, st)))) in
       case prepared of
         Ok (code, st) \<Rightarrow> new_account P T S init_seed ty sty code st
       | Err e \<Rightarrow> Some (Err e)
       | Panic m \<Rightarrow> Some (Panic m))"

section \<open>Notes\<close>

definition build_note_script :: "('p, 'b) prog_ops \<Rightarrow> u8 list \<Rightarrow> ('p note_script, note_error) result" where
  "build_note_script Q bytes =
     and_then (map_err NoteDeserializationError (program_from_bytes Q bytes)) (\<lambda>script_ast.
     and_then (note_script_new Q script_ast) (\<lambda>(note_script, _). Ok note_script))"

definition build_p2id_recipient ::
    "prims \<Rightarrow> ('p, 'b) prog_ops \<Rightarrow> u8 list \<Rightarrow> account_id \<Rightarrow> word4 \<Rightarrow> (digest, note_error) result" where
  "build_p2id_recipient P Q p2id target serial_num =
     and_then (build_note_script Q p2id) (\<lambda>note_script.
       let serial_num_hash = hash_merge P serial_num EMPTY_WORD;
           merge_script = hash_merge P serial_num_hash (script_hash note_script) in
       Ok (hash_merge P merge_script (hash_elements P [id_felt target, 0, 0, 0])))"

definition create_p2id_note ::
    "prims \<Rightarrow> ('p, 'b) prog_ops \<Rightarrow> u8 list \<Rightarrow> ('r \<Rightarrow> word4 \<times> 'r)
      \<Rightarrow> account_id \<Rightarrow> account_id \<Rightarrow> asset list \<Rightarrow> note_type \<Rightarrow> 'r \<Rightarrow> ('p miden_note, note_error) result" where
  "create_p2id_note P Q p2id draw_word sender target assets ty rng =
     and_then (build_note_script Q p2id) (\<lambda>note_script.
     and_then (note_inputs_new P [id_felt target]) (\<lambda>inputs.
     and_then (note_tag_from_account_id target Local) (\<lambda>tag.
     let (serial_num, rng) = draw_word rng in
     and_then (note_metadata_new sender ty tag 0) (\<lambda>metadata.
     and_then (note_assets_new P assets) (\<lambda>vault.
       Ok (note_new P vault metadata (note_recipient_new P serial_num note_script inputs)))))))"

definition create_p2idr_note ::
    "prims \<Rightarrow> ('p, 'b) prog_ops \<Rightarrow> u8 list \<Rightarrow> ('r \<Rightarrow> word4 \<times> 'r)
      \<Rightarrow> account_id \<Rightarrow> account_id \<Rightarrow> asset list \<Rightarrow> note_type \<Rightarrow> u32 \<Rightarrow> 'r \<Rightarrow> ('p miden_note, note_error) result" where
  "create_p2idr_note P Q p2idr draw_word sender target assets ty recall_height rng =
     and_then (build_note_script Q p2idr) (\<lambda>note_script.
     and_then (note_inputs_new P [id_felt target, felt_new P (ucast recall_height)]) (\<lambda>inputs.
     and_then (note_tag_from_account_id target Local) (\<lambda>tag.
     let (serial_num, rng) = draw_word rng in
     and_then (note_assets_new P assets) (\<lambda>vault.
     and_then (note_metadata_new sender ty tag 0) (\<lambda>metadata.
       Ok (note_new P vault metadata (note_recipient_new P serial_num note_script inputs)))))))"

definition create_swap_note ::
    "prims \<Rightarrow> ('p, 'b) prog_ops \<Rightarrow> u8 list \<Rightarrow> u8 list \<Rightarrow> ('r \<Rightarrow> word4 \<times> 'r)
      \<Rightarrow> account_id \<Rightarrow> asset \<Rightarrow> asset \<Rightarrow> note_type \<Rightarrow> 'r \<Rightarrow> ('p miden_note \<times> word4, note_error) result" where
  "create_swap_note P Q swap p2id draw_word sender offered_asset requested_asset ty rng =
     and_then (build_note_script Q swap) (\<lambda>note_script.
     let (payback_serial_num, rng) = draw_word rng in
     and_then (build_p2id_recipient P Q p2id sender payback_serial_num) (\<lambda>payback_recipient.
     let asset_word = asset_to_word P requested_asset in
     and_then (note_tag_from_account_id sender Local) (\<lambda>payback_tag.
     and_then (note_inputs_new P (elements payback_recipient @ elements asset_word
         @ [felt_new P (ucast (tag_inner payback_tag))])) (\<lambda>inputs.
     let tag = NoteTag 0; (serial_num, rng) = draw_word rng in
     and_then (note_metadata_new sender ty tag 0) (\<lambda>metadata.
     and_then (note_assets_new P [offered_asset]) (\<lambda>vault.
       Ok (note_new P vault metadata (note_recipient_new P serial_num note_script inputs), payback_serial_num)))))))"

section \<open>New accounts\<close>

definition no_seed ::
    "prims \<Rightarrow> 's simple_smt_ops \<Rightarrow> u8 list \<Rightarrow> account_type \<Rightarrow> account_storage_type \<Rightarrow> ('m, 's) account_code \<Rightarrow> 's account_storage \<Rightarrow> bool" where
  "no_seed P S init_seed ty sty code st \<longleftrightarrow>
    (\<forall>n. \<not> seed_good P ty sty (code_root S code) (storage_root S st)
       (seed_iter P (code_root S code) (storage_root S st) n (init_seed_word P init_seed)))"

text \<open>
  What a constructor of accounts promises: a well-formed account of the requested kind without
  assets, in the state before its first transaction, with a seed that such a transaction accepts.
\<close>

definition fresh_account ::
    "prims \<Rightarrow> 'v smt_ops \<Rightarrow> 's simple_smt_ops \<Rightarrow> account_type \<Rightarrow> account_storage_type \<Rightarrow> ('v, 's, 'm) account \<Rightarrow> word4 \<Rightarrow> bool" where
  "fresh_account P T S ty sty a seed \<longleftrightarrow>
     account_inv P T S a \<and> account_type (acct_id a) = ty \<and>
     storage_type (acct_id a) = (Ok sty :: (account_storage_type, account_error) result) \<and>
     vault_assets T (acct_vault a) = [] \<and> acct_nonce a = 0 \<and> validate_account_seed P S a (Some seed) = Ok ()"

lemma seed_found:
  assumes "get_account_seed_single P init_seed ty sty code stg = Some r"
  obtains seed i where "r = Ok seed" "account_id_new P seed code stg = Ok i" "account_type i = ty"
    "storage_type i = (Ok sty :: (account_storage_type, account_error) result)"
proof -
  from assms obtain seed where "r = Ok seed" unfolding get_account_seed_single_def Let_def seed_loop_iff by blast
  with assms get_account_seed_single_sound [of P init_seed ty sty code stg seed] that show thesis by blast
qed

lemma seed_not_found:
  assumes "get_account_seed_single P init_seed ty sty (code_root S code) (storage_root S st) = None"
  shows "no_seed P S init_seed ty sty code st"
proof (rule ccontr)
  let ?good = "\<lambda>n. seed_good P ty sty (code_root S code) (storage_root S st)
    (seed_iter P (code_root S code) (storage_root S st) n (init_seed_word P init_seed))"
  assume "\<not> no_seed P S init_seed ty sty code st"
  then have "\<exists>n. ?good n" by (simp add: no_seed_def)
  then have "\<exists>n. ?good n \<and> (\<forall>k<n. \<not> ?good k)" by (rule exists_least_iff [THEN iffD1])
  then have "\<exists>r. get_account_seed_single P init_seed ty sty (code_root S code) (storage_root S st) = Some r"
    unfolding get_account_seed_single_def Let_def seed_loop_iff by blast
  with assms show False by simp
qed

lemma new_account_outcome:
  assumes spec: "account_spec P T S" and inv: "code_inv P S code" "storage_inv P S st"
  obtains "new_account P T S init_seed ty sty code st = None" "no_seed P S init_seed ty sty code st"
  | a seed where "new_account P T S init_seed ty sty code st = Some (Ok (a, seed))" "fresh_account P T S ty sty a seed"
      "acct_code a = code" "acct_storage a = st"
proof -
  have laws: "felt_spec P" "smt_spec T" "hash_spec P"
    using spec by (simp_all add: account_spec_def vault_spec_def storage_spec_def)
  obtain v where v: "vault_new P T [] = Ok v" "vault_inv P T v" "vault_assets T v = []"
    using vault_new_holds_assets [OF laws(1,2), of "[]"] by (auto split: result.splits)
  show thesis
  proof (cases "get_account_seed_single P init_seed ty sty (code_root S code) (storage_root S st)")
    case None
    then have "no_seed P S init_seed ty sty code st" by (rule seed_not_found)
    with None v that(1) show thesis by (simp add: new_account_def)
  next
    case (Some r)
    then obtain seed i where s: "r = Ok seed" "account_id_new P seed (code_root S code) (storage_root S st) = Ok i"
      "account_type i = ty" "storage_type i = (Ok sty :: (account_storage_type, account_error) result)"
      by (rule seed_found)
    let ?a = "account_new i v st code 0"
    have "felt_ok P (w0 (hash_elements P es))" for es
      using hash_spec.hash_elements_ok [OF laws(3), of es] by (cases "hash_elements P es") simp
    with s(2) have "account_id_ok P i" by (auto simp: account_id_new_Ok account_id_ok_def compute_digest_elements)
    then have "fresh_account P T S ty sty ?a seed"
      using s v inv felt_spec.felt_ok_zero [OF laws(1)] by (simp add: fresh_account_def account_inv_def account_new_def validate_account_seed_Ok seed_consistent_def)
    with Some s v that(2) [of ?a seed] show thesis by (simp add: new_account_def account_new_def)
  qed
qed


lemma code_new_outcome:
  assumes "storage_spec P S" "asm_spec P A"
  shows "case code_new P S A m of
      Ok c \<Rightarrow> code_inv P S c \<and> module_ast c = m
    | Err e \<Rightarrow> (\<exists>x. e = AccountCodeAssemblerError x) \<or> e = AccountCodeNoProcedures \<or> (\<exists>n. e = AccountCodeTooManyProcedures 256 n)
    | Panic x \<Rightarrow> compile_module A m = Panic x"
  using code_new_cases [OF assms, of m] by (auto split: result.splits if_splits)

lemma storage_new_values:
  assumes spec: "storage_spec P S" and "distinct is" "255 \<notin> set is" "length ws = length is" "list_all (word_ok P) ws"
  obtains st where "storage_new P S (map2 (\<lambda>i w. \<lparr> item_index = i, item_slot = storage_slot_new_value w \<rparr>) is ws) = Ok st"
    "storage_inv P S st"
    "\<And>i. slots_abs S st i = (case map_of (zip is ws) i of Some w \<Rightarrow> w
       | None \<Rightarrow> if i = 255 then layout_hash P (layout st) else EMPTY_WORD)"
proof -
  let ?items = "map2 (\<lambda>i w. \<lparr> item_index = i, item_slot = storage_slot_new_value w \<rparr>) is ws"
  have idx: "map item_index ?items = is" using assms(4) by (simp add: comp_def split_beta)
  have "item_index ` set ?items = set is" by (simp only: idx flip: set_map)
  with assms(2,3) idx have new: "distinct (map item_index ?items)" "255 \<notin> item_index ` set ?items" by simp_all
  have vals: "item_values ?items = zip is ws"
    by (simp add: item_values_def storage_slot_new_value_def comp_def split_beta)
  obtain st where st: "storage_new P S ?items = Ok st"
    "\<And>i. slots_abs S st i = (case map_of (item_values ?items) i of Some v \<Rightarrow> v
        | None \<Rightarrow> if i = 255 then layout_hash P (layout st) else EMPTY_WORD)"
    by (rule storage_spec.storage_new_ok [OF spec new]) blast
  moreover have "storage_inv P S st"
    by (rule storage_spec.storage_new_inv [OF spec st(1)])
      (use assms(5) in \<open>auto simp: list_all_iff storage_slot_new_value_def dest: set_zip_rightD\<close>)
  ultimately show thesis using that vals by simp
qed


section \<open>New notes\<close>

definition local_tag :: "account_id \<Rightarrow> note_tag" where
  "local_tag i = NoteTag (ucast (drop_bit 34 (id_felt i AND 0xffff000000000000)))"

text \<open>A well-formed note with the given contents.\<close>

definition standard_note ::
    "prims \<Rightarrow> 'p miden_note \<Rightarrow> account_id \<Rightarrow> note_type \<Rightarrow> note_tag \<Rightarrow> felt list \<Rightarrow> asset list \<Rightarrow> word4 \<Rightarrow> 'p note_script \<Rightarrow> bool" where
  "standard_note P n sender ty tag values as serial_num script \<longleftrightarrow>
     note_ok P n \<and> nt_metadata n = \<lparr> md_sender = sender, md_note_type = ty, md_tag = tag, md_aux = 0 \<rparr> \<and>
     na_assets (nt_assets n) = as \<and> ni_values (rcp_inputs (nt_recipient n)) = values \<and>
     rcp_serial_num (nt_recipient n) = serial_num \<and> rcp_script (nt_recipient n) = script"

lemma local_tag_Ok: "note_tag_from_account_id i Local = Ok (local_tag i)"
  by (simp add: note_tag_from_account_id_def local_tag_def)

lemma local_tag_ok: "tag_type_ok (local_tag i) ty" "execution_mode (local_tag i) = Local" "is_single_target (local_tag i)"
  using local_tag_bits [of "id_felt i"] by (cases ty; simp add: local_tag_def note_tag_bits)+

lemma default_tag_ok: "tag_type_ok (NoteTag 0) ty"
  by (cases ty) simp_all

lemma note_metadata_new_tag:
  "tag_type_ok tag ty \<Longrightarrow> note_metadata_new s ty tag a = Ok \<lparr> md_sender = s, md_note_type = ty, md_tag = tag, md_aux = a \<rparr>"
  by (simp add: note_metadata_new_Ok)

lemma build_note_script_ok:
  assumes "prog_spec P Q" "build_note_script Q bytes = Ok script"
  shows "script_ok P script"
  using assms prog_spec.block_hash_ok [OF assms(1)]
  by (auto simp: build_note_script_def note_script_new_def script_ok_def res_simps)

lemma standard_note_new:
  assumes "felt_spec P" "account_id_ok P sender" "tag_type_ok tag ty" "script_ok P script" "word_ok P serial_num"
    "list_all (felt_ok P) values" "note_inputs_new P values = Ok inputs" "list_all (asset_ok P) as" "note_assets_new P as = Ok vault"
  shows "standard_note P (note_new P vault \<lparr> md_sender = sender, md_note_type = ty, md_tag = tag, md_aux = 0 \<rparr>
    (note_recipient_new P serial_num script inputs)) sender ty tag values as serial_num script"
  using assms felt_spec.felt_ok_zero [OF assms(1)] note_assets_new_assets [OF assms(9)]
  by (auto simp: standard_note_def note_ok_def note_assets_ok_def metadata_ok_def recipient_ok_def note_inputs_ok_def
      note_inputs_new_Ok)

lemma note_assets_new_no_Panic: "note_assets_new P as \<noteq> Panic m"
proof -
  have "check_unique_assets as \<noteq> Panic m" by (induction as) (auto split: if_splits)
  then show ?thesis by (auto simp: note_assets_new_def res_simps)
qed

lemma note_assets_new_single: "\<exists>vault. note_assets_new P [a] = Ok vault"
  by (simp add: note_assets_new_Ok)

lemma u32_felt_ok:
  assumes "felt_spec P"
  shows "felt_ok P (ucast (x :: u32))"
  using unsigned_less [of x, where 'a = nat]
  by (intro felt_spec.felt_ok_63_bits [OF assms]) (simp add: unsigned_ucast_eq take_bit_nat_eq_self)

text \<open>The common shape of the two pay-to-id constructors, whatever the order of their last checks.\<close>

lemma pay_to_id_outcome:
  assumes spec: "felt_spec P" "prog_spec P Q" and "account_id_ok P sender" "list_all (asset_ok P) as" "word_ok P serial_num"
    "list_all (felt_ok P) values" "length values \<le> 128"
    and r: "\<And>script inputs vault. build_note_script Q bytes = Ok script \<Longrightarrow> note_inputs_new P values = Ok inputs \<Longrightarrow>
        note_assets_new P as = Ok vault \<Longrightarrow>
        r = Ok (note_new P vault \<lparr> md_sender = sender, md_note_type = ty, md_tag = local_tag target, md_aux = 0 \<rparr>
          (note_recipient_new P serial_num script inputs))"
      "\<And>script e. build_note_script Q bytes = Ok script \<Longrightarrow> note_assets_new P as = Err e \<Longrightarrow> r = Err e"
      "\<And>e. build_note_script Q bytes = Err e \<Longrightarrow> r = Err e" "\<And>m. build_note_script Q bytes = Panic m \<Longrightarrow> r = Panic m"
  shows "case r of
      Ok n \<Rightarrow> \<exists>script. build_note_script Q bytes = Ok script \<and>
        standard_note P n sender ty (local_tag target) values as serial_num script
    | Err e \<Rightarrow> build_note_script Q bytes = Err e \<or> note_assets_new P as = Err e
    | Panic m \<Rightarrow> build_note_script Q bytes = Panic m"
proof (cases "build_note_script Q bytes")
  case (Ok script)
  obtain inputs where inputs: "note_inputs_new P values = Ok inputs" using assms(7) by (simp add: note_inputs_new_Ok)
  show ?thesis
  proof (cases "note_assets_new P as")
    case (Ok vault)
    with standard_note_new [OF spec(1) assms(3) local_tag_ok(1) build_note_script_ok [OF spec(2) \<open>build_note_script Q bytes = Ok script\<close>]
        assms(5,6) inputs assms(4), of vault] r(1) \<open>build_note_script Q bytes = Ok script\<close> inputs
    show ?thesis by simp
  qed (use Ok r note_assets_new_no_Panic in simp_all)
qed (use r in simp_all)

lemma swap_outcome:
  assumes spec: "felt_spec P" "hash_spec P" "prog_spec P Q" and ok: "account_id_ok P sender" "asset_ok P offered" "asset_ok P requested"
    "\<And>r. word_ok P (fst (draw_word r))"
  shows "case create_swap_note P Q swap p2id draw_word sender offered requested ty rng of
      Ok (n, payback) \<Rightarrow> payback = fst (draw_word rng) \<and> (\<exists>script recipient.
        build_note_script Q swap = Ok script \<and> build_p2id_recipient P Q p2id sender payback = Ok recipient \<and>
        standard_note P n sender ty (NoteTag 0)
          (elements recipient @ elements (asset_to_word P requested) @ [ucast (tag_inner (local_tag sender))]) [offered]
          (fst (draw_word (snd (draw_word rng)))) script)
    | Err e \<Rightarrow> build_note_script Q swap = Err e \<or> build_note_script Q p2id = Err e
    | Panic m \<Rightarrow> build_note_script Q swap = Panic m \<or> build_note_script Q p2id = Panic m"
proof (cases "build_note_script Q swap")
  case swap: (Ok script)
  show ?thesis
  proof (cases "build_note_script Q p2id")
    case (Ok p2id_script)
    then obtain recipient where rcp: "build_p2id_recipient P Q p2id sender (fst (draw_word rng)) = Ok recipient" "word_ok P recipient"
      using hash_spec.hash_merge_ok [OF spec(2)] by (auto simp: build_p2id_recipient_def Let_def)
    let ?vs = "elements recipient @ elements (asset_to_word P requested) @ [ucast (tag_inner (local_tag sender))]"
    have felts: "list_all (felt_ok P) ?vs"
      using rcp(2) felt_spec.asset_word_ok [OF spec(1) ok(3)] u32_felt_ok [OF spec(1)] by (simp add: word_ok_iff)
    have "length (elements w) = 4" for w by (cases w) simp
    then obtain inputs where inputs: "note_inputs_new P ?vs = Ok inputs" by (simp add: note_inputs_new_Ok)
    obtain vault where vault: "note_assets_new P [offered] = Ok vault" using note_assets_new_single by blast
    show ?thesis
      using swap rcp(1) inputs vault note_metadata_new_tag [OF default_tag_ok] ok(2)
        standard_note_new [OF spec(1) ok(1) default_tag_ok build_note_script_ok [OF spec(3) swap] ok(4) felts inputs _ vault]
      by (simp add: create_swap_note_def split_beta Let_def local_tag_Ok felt_spec.felt_new_u32 [OF spec(1)])
  qed (use swap in \<open>simp_all add: create_swap_note_def build_p2id_recipient_def split_beta\<close>)
qed (simp_all add: create_swap_note_def)

section \<open>A concrete wallet\<close>

lemma sample_fold_zeros: "((*) 3 ^^ n) x = 3 ^ n * (x :: u64)"
  by (induction n) (simp_all add: algebra_simps)

lemma initial_layout_eq: "initial_layout = replicate 255 (Value 0) @ [Value 64]"
  by (rule nth_equalityI)
    (auto simp: initial_layout_def NUM_STORAGE_SLOTS_def DEFAULT_SLOT_TYPE_def SLOT_LAYOUT_COMMITMENT_INDEX_def nth_append nth_list_update)

lemma sample_default_layout: "layout_hash sample_prims initial_layout = W 6331011081977637895 256 0 0"
  by (simp add: initial_layout_eq layout_hash_def sample_prims_def sample_hash_def sample_fold_zeros)

lemma initial_layout_update: "i < 255 \<Longrightarrow> initial_layout[i := Value 0] = initial_layout"
  by (simp add: initial_layout_eq list_update_append list_update_same_conv)

lemma sample_wallet_storage:
  "storage_new sample_prims (sample_ssmt 8) [\<lparr> item_index = 0, item_slot = storage_slot_new_value (W 1 2 3 4) \<rparr>]
   = Ok \<lparr> slots = [(0, W 1 2 3 4), (255, W 6331011081977637895 256 0 0)], layout = initial_layout \<rparr>"
  by (simp add: storage_new_def storage_slot_new_value_def initial_layout_update sample_default_layout SLOT_LAYOUT_COMMITMENT_INDEX_def
    sample_ssmt_def)

lemma sample_wallet_root:
  "storage_root (sample_ssmt 8) \<lparr> slots = [(0, W 1 2 3 4), (255, W 6331011081977637895 256 0 0)], layout = initial_layout \<rparr>
   = W 15872102573544507186 0 0 0"
proof -
  have "{x \<in> set (AList.clearjunk [(0 :: u64, W 1 2 3 4), (255, W 6331011081977637895 256 0 0)]). snd x \<noteq> EMPTY_WORD \<and> unat (fst x) < 2 ^ 8}
    = {(0, W 1 2 3 4), (255, W 6331011081977637895 256 0 0)}" by auto
  then show ?thesis by (simp add: storage_root_def sample_ssmt_def)
qed

lemma sample_wallet_code:
  "code_new sample_prims (sample_ssmt 8) sample_asm [W 1 2 3 4] = Ok (sample_code [W 1 2 3 4]\<lparr>module_ast := [W 1 2 3 4]\<rparr>)"
  by (simp add: code_new_def sample_asm_def sample_felt_ok build_procedure_tree_def procedure_leaves_def sample_ssmt_def sample_code_def)

lemma sample_wallet_code_root: "code_root (sample_ssmt 8) (sample_code [W 1 2 3 4]\<lparr>module_ast := [W 1 2 3 4]\<rparr>) = W 50 0 0 0"
proof -
  have "{x \<in> set (AList.clearjunk [(0 :: u64, W 1 2 3 4)]). snd x \<noteq> EMPTY_WORD \<and> unat (fst x) < 2 ^ 8} = {(0, W 1 2 3 4)}"
    by auto
  then show ?thesis by (simp add: code_root_def sample_ssmt_def sample_code_def procedure_leaves_def)
qed

lemma sample_first_seed:
  assumes "init_seed_word sample_prims init = s" "compute_digest sample_prims s code stg = W x 16 0 0" "account_id_valid (AccountId x)"
    "account_type (AccountId x) = ty" "storage_type (AccountId x) = (Ok sty :: (account_storage_type, unit) result)"
  shows "get_account_seed_single sample_prims init ty sty code stg = Some (Ok s)"
proof -
  have "account_id_new sample_prims s code stg = Ok (AccountId x)" using assms by (simp add: account_id_new_Ok)
  with assms have "seed_good sample_prims ty sty code stg s" by (simp add: seed_good_def)
  then show ?thesis by (simp add: get_account_seed_single_def assms(1) seed_loop_unfold)
qed

definition sample_wallet_init :: "u8 list" where
  "sample_wallet_init = [20, 165, 66, 82, 224, 76, 175, 202, 0, 0, 0, 0, 0, 0, 0, 0,
     0, 0, 0, 0, 0, 0, 0, 0, 0, 0, 0, 0, 0, 0, 0, 0]"

lemma sample_wallet_seed:
  "get_account_seed_single sample_prims sample_wallet_init RegularAccountUpdatableCode OnChain (W 50 0 0 0) (W 15872102573544507186 0 0 0)
   = Some (Ok (W 0xcaaf4ce05242a514 0 0 0))"
  by (rule sample_first_seed [where x = "0x100000000000001F"])
    (simp_all add: sample_wallet_init_def init_seed_word_def compute_digest_elements sample_prims_def sample_hash_def
      account_id_valid_def bit_eval account_type_def account_type_of_bits storage_type_bits)

lemma sample_faucet_storage:
  "storage_new sample_prims (sample_ssmt 8) [\<lparr> item_index = 0, item_slot = storage_slot_new_value (W 1 2 3 4) \<rparr>,
     \<lparr> item_index = 1, item_slot = storage_slot_new_value (W 1000 8 5 0) \<rparr>]
   = Ok \<lparr> slots = [(0, W 1 2 3 4), (1, W 1000 8 5 0), (255, W 6331011081977637895 256 0 0)], layout = initial_layout \<rparr>"
  by (simp add: storage_new_def storage_slot_new_value_def initial_layout_update [of 0] initial_layout_update [of "Suc 0"]
    sample_default_layout SLOT_LAYOUT_COMMITMENT_INDEX_def sample_ssmt_def)

lemma sample_faucet_root:
  "storage_root (sample_ssmt 8) \<lparr> slots = [(0, W 1 2 3 4), (1, W 1000 8 5 0), (255, W 6331011081977637895 256 0 0)],
     layout = initial_layout \<rparr> = W 15872102573544509284 0 0 0"
proof -
  have "{x \<in> set (AList.clearjunk [(0 :: u64, W 1 2 3 4), (1, W 1000 8 5 0), (255, W 6331011081977637895 256 0 0)]).
      snd x \<noteq> EMPTY_WORD \<and> unat (fst x) < 2 ^ 8}
    = {(0, W 1 2 3 4), (1, W 1000 8 5 0), (255, W 6331011081977637895 256 0 0)}" by auto
  then show ?thesis by (simp add: storage_root_def sample_ssmt_def)
qed

definition sample_faucet_init :: "u8 list" where
  "sample_faucet_init = [162, 155, 112, 81, 224, 76, 175, 218, 0, 0, 0, 0, 0, 0, 0, 0,
     0, 0, 0, 0, 0, 0, 0, 0, 0, 0, 0, 0, 0, 0, 0, 0]"

lemma sample_faucet_seed:
  "get_account_seed_single sample_prims sample_faucet_init FungibleFaucet OnChain (W 50 0 0 0) (W 15872102573544509284 0 0 0)
   = Some (Ok (W 0xdaaf4ce051709ba2 0 0 0))"
  by (rule sample_first_seed [where x = "0x200000000000001F"])
    (simp_all add: sample_faucet_init_def init_seed_word_def compute_digest_elements sample_prims_def sample_hash_def
      account_id_valid_def bit_eval account_type_def account_type_of_bits storage_type_bits)

section \<open>Properties\<close>

text \<open>
  C15. Basic wallets.  A wallet of a faucet type is refused.  Otherwise a returned wallet is a
  fresh account of the requested type and storage type that holds the public key in slot 0 and
  nothing else; the constructor only fails for the reasons of the code constructor, only panics
  if the parser or the assembler does, and only fails to return if no seed it visits is suitable.
\<close>

theorem basic_wallet_outcome:
  assumes spec: "account_spec P T S" "asm_spec P A" and key: "word_ok P (key_word key)"
  shows "case create_basic_wallet P T S A parse key_word init_seed (RpoFalcon512 key) ty sty of
      Some (Ok (a, seed)) \<Rightarrow> ty \<notin> {FungibleFaucet, NonFungibleFaucet} \<and> fresh_account P T S ty sty a seed \<and>
        (\<forall>i. i \<noteq> 255 \<longrightarrow> slots_abs S (acct_storage a) i = (if i = 0 then key_word key else EMPTY_WORD))
    | Some (Err e) \<Rightarrow>
        if ty \<in> {FungibleFaucet, NonFungibleFaucet}
        then e = AccountIdInvalidFieldElement ''Basic wallet accounts cannot have a faucet account type''
        else (\<exists>x. e = AccountCodeAssemblerError x) \<or> e = AccountCodeNoProcedures \<or> (\<exists>n. e = AccountCodeTooManyProcedures 256 n)
    | Some (Panic m) \<Rightarrow> (\<exists>src. parse src = Panic m) \<or> (\<exists>ast. compile_module A ast = Panic m)
    | None \<Rightarrow> \<exists>code st. code_new P S A (module_ast code) = Ok code \<and>
        storage_new P S [\<lparr> item_index = 0, item_slot = storage_slot_new_value (key_word key) \<rparr>] = Ok st \<and>
        no_seed P S init_seed ty sty code st"
proof (cases "ty \<in> {FungibleFaucet, NonFungibleFaucet}")
  case False
  have S: "storage_spec P S" using spec(1) by (simp add: account_spec_def)
  obtain src where src: "create_basic_wallet P T S A parse key_word init_seed (RpoFalcon512 key) ty sty =
    (case and_then (map_err AccountCodeAssemblerError (parse src)) (\<lambda>ast. and_then (code_new P S A ast) (\<lambda>code.
       and_then (storage_new P S [\<lparr> item_index = 0, item_slot = storage_slot_new_value (key_word key) \<rparr>]) (\<lambda>st. Ok (code, st)))) of
       Ok (code, st) \<Rightarrow> new_account P T S init_seed ty sty code st | Err e \<Rightarrow> Some (Err e) | Panic m \<Rightarrow> Some (Panic m))"
    using False unfolding create_basic_wallet_def Let_def by (simp only: auth_scheme.case prod.case) auto
  obtain st where st: "storage_new P S [\<lparr> item_index = 0, item_slot = storage_slot_new_value (key_word key) \<rparr>] = Ok st"
    "storage_inv P S st" "\<And>i. i \<noteq> 255 \<Longrightarrow> slots_abs S st i = (if i = 0 then key_word key else EMPTY_WORD)"
    by (rule storage_new_values [OF S, of "[0]" "[key_word key]"]) (use key in \<open>auto split: if_splits\<close>)
  show ?thesis
  proof (cases "parse src")
    case (Ok ast)
    show ?thesis
    proof (cases "code_new P S A ast")
      case (Ok code)
      then have code: "code_inv P S code" "module_ast code = ast" using code_new_outcome [OF S spec(2), of ast] by simp_all
      have "create_basic_wallet P T S A parse key_word init_seed (RpoFalcon512 key) ty sty = new_account P T S init_seed ty sty code st"
        unfolding src using \<open>parse src = Ok ast\<close> Ok st(1) by simp
      with False st Ok code(2) show ?thesis
        by (cases rule: new_account_outcome [OF spec(1) code(1) st(2), of init_seed ty sty]) auto
    qed (use code_new_outcome [OF S spec(2), of ast] Ok False src in auto)
  qed (use False src in auto)
qed (auto simp: create_basic_wallet_def)


theorem basic_wallet_outcome_witness:
  "\<exists>a seed. create_basic_wallet sample_prims sample_smt (sample_ssmt 8) sample_asm (\<lambda>_. Ok [W 1 2 3 4]) id
      sample_wallet_init
      (RpoFalcon512 (W 1 2 3 4)) RegularAccountUpdatableCode OnChain = Some (Ok (a, seed)) \<and>
    fresh_account sample_prims sample_smt (sample_ssmt 8) RegularAccountUpdatableCode OnChain a seed \<and>
    slots_abs (sample_ssmt 8) (acct_storage a) 0 = W 1 2 3 4"
proof -
  let ?r = "create_basic_wallet sample_prims sample_smt (sample_ssmt 8) sample_asm (\<lambda>_. Ok [W 1 2 3 4]) id sample_wallet_init
    (RpoFalcon512 (W 1 2 3 4)) RegularAccountUpdatableCode OnChain"
  obtain seed i where s: "account_id_new sample_prims seed (W 50 0 0 0) (W 15872102573544507186 0 0 0) = Ok i"
    "seed = W 0xcaaf4ce05242a514 0 0 0"
    by (rule seed_found [OF sample_wallet_seed]) simp
  then have "\<exists>a seed. ?r = Some (Ok (a, seed))"
    unfolding create_basic_wallet_def Let_def auth_scheme.case prod.case id_apply result.case map_err.simps and_then.simps
      sample_wallet_code sample_wallet_storage
    by (simp add: new_account_def sample_wallet_root sample_wallet_code_root sample_wallet_seed vault_new_def sample_smt_def)
  then obtain a seed where r: "?r = Some (Ok (a, seed))" by blast
  have "word_ok sample_prims (id (W 1 2 3 4))" by (simp add: sample_felt_ok)
  from basic_wallet_outcome [where key_word = id and key = "W 1 2 3 4" and parse = "\<lambda>_. Ok [W 1 2 3 4]" and
      init_seed = sample_wallet_init and ty = RegularAccountUpdatableCode and sty = OnChain,
      OF sample_account_laws.account_spec_axioms sample_asm_laws.asm_spec_axioms this] r
  show ?thesis by auto
qed

text \<open>
  C16. Basic fungible faucets.  A returned faucet is a fresh fungible faucet of the requested
  storage type whose slots hold the public key and the token metadata, which is within its bounds:
  at most 12 decimals and a supply below 2^63, so that the metadata word is canonical.  Metadata
  out of bounds is always refused, whatever the code of the faucet.
\<close>

theorem basic_fungible_faucet_outcome:
  assumes spec: "account_spec P T S" "asm_spec P A" and key: "word_ok P (key_word key)"
    and felts: "felt_ok P max_supply" "felt_ok P (symbol_felt symbol)"
  shows "case create_basic_fungible_faucet P T S A get_module_ast key_word init_seed symbol decimals max_supply sty (RpoFalcon512 key) of
      Some (Ok (a, seed)) \<Rightarrow> decimals \<le> 12 \<and> unat max_supply < 2 ^ 63 \<and> fresh_account P T S FungibleFaucet sty a seed \<and>
        (\<forall>i. i \<noteq> 255 \<longrightarrow> slots_abs S (acct_storage a) i = (if i = 0 then key_word key
           else if i = 1 then W max_supply (ucast decimals) (symbol_felt symbol) 0 else EMPTY_WORD))
    | Some (Err e) \<Rightarrow>
        (decimals > 12 \<or> unat max_supply \<ge> 2 ^ 63) \<and> (\<exists>x. e = FungibleFaucetInvalidMetadata x) \<or>
        (\<exists>x. e = AccountCodeAssemblerError x) \<or> e = AccountCodeNoProcedures \<or> (\<exists>n. e = AccountCodeTooManyProcedures 256 n)
    | Some (Panic m) \<Rightarrow> get_module_ast ''miden::contracts::faucets::basic_fungible'' = None \<or> (\<exists>ast. compile_module A ast = Panic m)
    | None \<Rightarrow> decimals \<le> 12 \<and> unat max_supply < 2 ^ 63 \<and> (\<exists>code st. code_new P S A (module_ast code) = Ok code \<and>
        no_seed P S init_seed FungibleFaucet sty code st)"
proof (cases "get_module_ast ''miden::contracts::faucets::basic_fungible''")
  case (Some ast)
  have S: "storage_spec P S" and F: "felt_spec P" using spec(1) by (simp_all add: account_spec_def vault_spec_def)
  have cap: "max_supply > MAX_MAX_SUPPLY \<longleftrightarrow> unat max_supply \<ge> 2 ^ 63"
    by (simp add: MAX_MAX_SUPPLY_def word_less_nat_alt) arith
  let ?meta = "W max_supply (ucast decimals) (symbol_felt symbol) 0"
  have "felt_ok P (ucast decimals)" using unat_u8_less [of decimals] by (intro felt_spec.felt_ok_63_bits [OF F]) simp
  then have d: "felt_new P (ucast decimals) = ucast decimals" "felt_ok P (ucast decimals)"
    by (simp_all add: felt_spec.felt_new_id [OF F])
  obtain st where st: "storage_new P S [\<lparr> item_index = 0, item_slot = storage_slot_new_value (key_word key) \<rparr>,
      \<lparr> item_index = 1, item_slot = storage_slot_new_value ?meta \<rparr>] = Ok st"
    "storage_inv P S st"
    "\<And>i. i \<noteq> 255 \<Longrightarrow> slots_abs S st i = (if i = 0 then key_word key else if i = 1 then ?meta else EMPTY_WORD)"
    by (rule storage_new_values [OF S, of "[0, 1]" "[key_word key, ?meta]"])
      (use key felts d felt_spec.felt_ok_zero [OF F] in \<open>auto split: if_splits\<close>)
  show ?thesis
  proof (cases "code_new P S A ast")
    case (Ok code)
    then have code: "code_inv P S code" "module_ast code = ast" using code_new_outcome [OF S spec(2), of ast] by simp_all
    show ?thesis
    proof (cases "decimals > 12 \<or> max_supply > MAX_MAX_SUPPLY")
      case False
      then have "create_basic_fungible_faucet P T S A get_module_ast key_word init_seed symbol decimals max_supply sty (RpoFalcon512 key)
          = new_account P T S init_seed FungibleFaucet sty code st"
        using Some Ok st(1) by (simp add: create_basic_fungible_faucet_def d MAX_DECIMALS_def)
      with False st Ok code(2) cap show ?thesis
        by (cases rule: new_account_outcome [OF spec(1) code(1) st(2), of init_seed FungibleFaucet sty]) (auto simp: not_less)
    qed (use Some Ok cap in \<open>auto simp: create_basic_fungible_faucet_def MAX_DECIMALS_def\<close>)
  qed (use code_new_outcome [OF S spec(2), of ast] Some in \<open>auto simp: create_basic_fungible_faucet_def\<close>)
qed (simp add: create_basic_fungible_faucet_def)


theorem basic_fungible_faucet_outcome_witness:
  "(\<exists>a seed. create_basic_fungible_faucet sample_prims sample_smt (sample_ssmt 8) sample_asm (\<lambda>_. Some [W 1 2 3 4]) id
      sample_faucet_init (TokenSymbol 5) 8 1000 OnChain (RpoFalcon512 (W 1 2 3 4)) = Some (Ok (a, seed)) \<and>
    fresh_account sample_prims sample_smt (sample_ssmt 8) FungibleFaucet OnChain a seed \<and>
    slots_abs (sample_ssmt 8) (acct_storage a) 1 = W 1000 8 5 0)"
proof -
  let ?r = "create_basic_fungible_faucet sample_prims sample_smt (sample_ssmt 8) sample_asm (\<lambda>_. Some [W 1 2 3 4]) id
      sample_faucet_init (TokenSymbol 5) 8 1000 OnChain (RpoFalcon512 (W 1 2 3 4))"
  obtain seed i where s: "account_id_new sample_prims seed (W 50 0 0 0) (W 15872102573544509284 0 0 0) = Ok i"
    "seed = W 0xdaaf4ce051709ba2 0 0 0"
    by (rule seed_found [OF sample_faucet_seed]) simp
  have d: "felt_new sample_prims 8 = 8" by (simp add: sample_prims_def)
  from s have "\<exists>a seed. ?r = Some (Ok (a, seed))"
    by (simp add: create_basic_fungible_faucet_def MAX_DECIMALS_def MAX_MAX_SUPPLY_def d sample_wallet_code sample_faucet_storage
      new_account_def vault_new_def)
     (simp add: sample_smt_def sample_faucet_root sample_wallet_code_root sample_faucet_seed)
  then obtain a seed where r: "?r = Some (Ok (a, seed))" by blast
  have ok: "word_ok sample_prims (id (W 1 2 3 4))" "felt_ok sample_prims 1000" "felt_ok sample_prims (symbol_felt (TokenSymbol 5))"
    by (simp_all add: sample_felt_ok)
  from basic_fungible_faucet_outcome [where key_word = id and key = "W 1 2 3 4" and get_module_ast = "\<lambda>_. Some [W 1 2 3 4]" and
      init_seed = sample_faucet_init and sty = OnChain and decimals = 8,
      OF sample_account_laws.account_spec_axioms sample_asm_laws.asm_spec_axioms ok] r
  show ?thesis by auto
qed

text \<open>
  C17. Standard notes.  Pay-to-id notes, with or without recall, are created exactly if their
  script can be built and their assets can be put into one note; swap notes exactly if both
  scripts can be built.  A created note is well-formed and has the given sender, type and assets, a
  serial number drawn from the generator, and as inputs the target, the target and the recall
  height, or the payback recipient, the requested asset and the tag of the sender.  Pay-to-id notes
  carry the local tag of the target.  The errors are those of the scripts and of the assets.
\<close>

theorem standard_notes_created:
  assumes spec: "felt_spec P" "hash_spec P" "prog_spec P Q" and ids: "account_id_ok P sender" "account_id_ok P target"
    and ok: "list_all (asset_ok P) as" "asset_ok P offered" "asset_ok P requested" "\<And>r. word_ok P (fst (draw_word r))"
  shows "(case create_p2id_note P Q p2id draw_word sender target as ty rng of
        Ok n \<Rightarrow> \<exists>script. build_note_script Q p2id = Ok script \<and>
          standard_note P n sender ty (local_tag target) [id_felt target] as (fst (draw_word rng)) script
      | Err e \<Rightarrow> build_note_script Q p2id = Err e \<or> note_assets_new P as = Err e
      | Panic m \<Rightarrow> build_note_script Q p2id = Panic m) \<and>
    (case create_p2idr_note P Q p2idr draw_word sender target as ty height rng of
        Ok n \<Rightarrow> \<exists>script. build_note_script Q p2idr = Ok script \<and>
          standard_note P n sender ty (local_tag target) [id_felt target, ucast height] as (fst (draw_word rng)) script
      | Err e \<Rightarrow> build_note_script Q p2idr = Err e \<or> note_assets_new P as = Err e
      | Panic m \<Rightarrow> build_note_script Q p2idr = Panic m) \<and>
    (case create_swap_note P Q swap p2id draw_word sender offered requested ty rng of
        Ok (n, payback) \<Rightarrow> payback = fst (draw_word rng) \<and> (\<exists>script recipient.
          build_note_script Q swap = Ok script \<and> build_p2id_recipient P Q p2id sender payback = Ok recipient \<and>
          standard_note P n sender ty (NoteTag 0)
            (elements recipient @ elements (asset_to_word P requested) @ [ucast (tag_inner (local_tag sender))]) [offered]
            (fst (draw_word (snd (draw_word rng)))) script)
      | Err e \<Rightarrow> build_note_script Q swap = Err e \<or> build_note_script Q p2id = Err e
      | Panic m \<Rightarrow> build_note_script Q swap = Panic m \<or> build_note_script Q p2id = Panic m)"
proof (intro conjI)
  have id: "felt_ok P (id_felt target)" using ids(2) by (simp add: account_id_ok_def)
  note laws = spec(1,3) ids(1) ok(1) ok(4) [of rng]
  show "case create_p2id_note P Q p2id draw_word sender target as ty rng of
        Ok n \<Rightarrow> \<exists>script. build_note_script Q p2id = Ok script \<and>
          standard_note P n sender ty (local_tag target) [id_felt target] as (fst (draw_word rng)) script
      | Err e \<Rightarrow> build_note_script Q p2id = Err e \<or> note_assets_new P as = Err e
      | Panic m \<Rightarrow> build_note_script Q p2id = Panic m"
    by (rule pay_to_id_outcome [OF laws])
      (simp_all add: id create_p2id_note_def note_inputs_new_def MAX_INPUTS_PER_NOTE_def split_beta local_tag_Ok
        note_metadata_new_tag local_tag_ok)
  show "case create_p2idr_note P Q p2idr draw_word sender target as ty height rng of
        Ok n \<Rightarrow> \<exists>script. build_note_script Q p2idr = Ok script \<and>
          standard_note P n sender ty (local_tag target) [id_felt target, ucast height] as (fst (draw_word rng)) script
      | Err e \<Rightarrow> build_note_script Q p2idr = Err e \<or> note_assets_new P as = Err e
      | Panic m \<Rightarrow> build_note_script Q p2idr = Panic m"
    by (rule pay_to_id_outcome [OF laws])
      (simp_all add: id create_p2idr_note_def note_inputs_new_def MAX_INPUTS_PER_NOTE_def split_beta local_tag_Ok
        note_metadata_new_tag local_tag_ok felt_spec.felt_new_u32 [OF spec(1)] u32_felt_ok [OF spec(1)])
qed (rule swap_outcome [OF spec ids(1) ok(2,3,4)])


text \<open>A generator that alternates between two words.\<close>

definition sample_draw_word :: "nat \<Rightarrow> word4 \<times> nat" where
  "sample_draw_word r = (W (if even r then 1 else 5) 2 3 4, Suc r)"

theorem standard_notes_created_witness:
  "\<exists>n swap_note. create_p2id_note sample_prims sample_prog [1, 7, 0] sample_draw_word sample_faucet sample_faucet [sample_coin] Public 0 = Ok n \<and>
    note_ok sample_prims n \<and> ni_values (rcp_inputs (nt_recipient n)) = [0x200000000000001F] \<and>
    create_swap_note sample_prims sample_prog [1, 9, 0] [1, 7, 0] sample_draw_word sample_faucet sample_coin sample_nft Public 0
      = Ok (swap_note, W 1 2 3 4) \<and> rcp_serial_num (nt_recipient swap_note) = W 5 2 3 4"
proof -
  have scripts: "\<exists>s. build_note_script sample_prog [1, 7, 0] = Ok s" "\<exists>s. build_note_script sample_prog [1, 9, 0] = Ok s"
    by (simp_all add: build_note_script_def note_script_new_def sample_prog_def)
  have draw: "word_ok sample_prims (fst (sample_draw_word r))" for r by (simp add: sample_draw_word_def sample_felt_ok)
  have i: "account_id_ok sample_prims sample_faucet"
    by (simp add: sample_faucet_def account_id_ok_def account_id_valid_def bit_eval sample_felt_ok)
  have "list_all (asset_ok sample_prims) [sample_coin]" by simp
  from standard_notes_created [where draw_word = sample_draw_word and rng = 0 and p2id = "[1, 7, 0]" and p2idr = "[1, 8, 0]" and height = 3 and
      swap = "[1, 9, 0]" and ty = Public,
      OF sample_felt_laws.felt_spec_axioms sample_hash_laws.hash_spec_axioms sample_prog_laws.prog_spec_axioms i i this sample_assets_ok draw]
    scripts note_assets_new_single [of sample_prims sample_coin]
  show ?thesis
    by (cases "create_p2id_note sample_prims sample_prog [1, 7, 0] sample_draw_word sample_faucet sample_faucet [sample_coin] Public 0";
        cases "create_swap_note sample_prims sample_prog [1, 9, 0] [1, 7, 0] sample_draw_word sample_faucet sample_coin sample_nft Public 0")
      (auto simp: standard_note_def sample_draw_word_def, simp add: sample_faucet_def)
qed

text \<open>
  The payback recipient of a swap note.  The recipient that a swap note prescribes for the payback
  note hashes four input elements, whereas the recipient of a pay-to-id note to the sender with the
  payback serial number hashes its inputs padded to eight elements.  Unless the hash function
  collides, the two recipients differ.
\<close>

theorem payback_recipient_differs:
  assumes "build_note_script Q p2id = Ok script" "note_inputs_new P [id_felt sender] = Ok inputs"
    and "build_p2id_recipient P Q p2id sender serial_num = Ok recipient"
    and "hash_elements P [id_felt sender, 0, 0, 0] \<noteq> hash_elements P [id_felt sender, 0, 0, 0, 0, 0, 0, 0]"
    and "\<And>a b c. hash_merge P a b = hash_merge P a c \<Longrightarrow> b = c"
  shows "recipient \<noteq> rcp_digest (note_recipient_new P serial_num script inputs)"
proof
  have "next_multiple_of 1 8 = 8" by (simp add: next_multiple_of_def)
  then have "pad_inputs [id_felt sender] = [id_felt sender, 0, 0, 0, 0, 0, 0, 0]"
    by (simp add: pad_inputs_def resize_def numeral_eq_Suc)
  then have "ni_hash inputs = hash_elements P [id_felt sender, 0, 0, 0, 0, 0, 0, 0]" using assms(2) by (auto simp: note_inputs_new_Ok)
  moreover assume "recipient = rcp_digest (note_recipient_new P serial_num script inputs)"
  ultimately show False
    using assms(1,3,4) assms(5) [of "hash_merge P (hash_merge P serial_num EMPTY_WORD) (script_hash script)"]
    by (simp add: build_p2id_recipient_def note_recipient_new_def compute_recipient_digest_def Let_def)
qed

end
