(* ===== verification/Spec2Isabelle.thy ===== *)
theory Spec2Isabelle
  imports Executor Standard
begin

text \<open>
  A verification development for the rollup protocol of the Miden base repository: the crates
  \<open>objects\<close> (protocol objects), \<open>miden-lib\<close> (interface of the transaction kernel, standard
  accounts and notes) and \<open>miden-tx\<close> (compiler, executor, prover and verifier of transactions).

  \<^bold>\<open>The program.\<close>  An account has an identifier, a vault of assets, 256 storage slots, code and a
  nonce.  Notes carry assets between accounts.  A transaction consumes notes and creates notes for
  one account: the data store delivers the transaction inputs, the compiler links the note scripts and
  the transaction script with the kernel, the executor runs the program on a host that answers the
  events of the kernel and tracks the changes of the account, the prover repeats the run from the
  transaction witness and builds a proven transaction, and the verifier checks its proof.

  \<^bold>\<open>Conventions.\<close>  A Rust function becomes a HOL function of the same name, suffixed or prefixed
  with its type where names clash; a struct becomes a record, an enum a datatype.  Fallible code returns
  a \<open>result\<close> (Prelude): \<open>Ok\<close>, \<open>Err\<close>, or \<open>Panic\<close> for a failing \<open>expect\<close>, \<open>unwrap\<close> or assertion.  A
  method with \<open>&mut self\<close> returns the new state and its result, so the state left behind by an
  early return is visible.  Integers keep their width and wrap.  A field element is its canonical
  integer.  The model is of a release build without the \<open>testing\<close> feature.

  \<^bold>\<open>Code of other crates\<close> is a parameter: a record of operations, with a locale that states their
  documented behaviour.  Field, hash function and byte streams are \<open>prims\<close> (Primitives, locales
  \<open>felt_spec\<close>, \<open>hash_spec\<close>, \<open>io_spec\<close>); sparse Merkle trees are \<open>smt_ops\<close> (Vault) and
  \<open>simple_smt_ops\<close> (Storage); the assembler is \<open>asm_ops\<close>, \<open>prog_ops\<close> and \<open>assembler_ops\<close>; Merkle paths,
  the Merkle mountain range, advice maps, operand stacks, the advice provider, the state of the
  process and the virtual machine, its prover and its verifier are further records or functions.
  Among their laws are that the openings of a note tree lead to its root (Block, \<open>opening_spec\<close>), what the
  operand stacks look like from the top (Kernel, \<open>stack_view\<close>), and that a run can be repeated from the
  recorded advice (Executor, \<open>replay_spec\<close>).
  Every locale is interpreted: contracts of other crates on concrete sample operations, contracts
  between components of the repository on the definitions of the model.

  \<^bold>\<open>Theories.\<close>
  \<^item> Prelude: results, integers, byte strings, codecs.  Types: data and error enumerations
    (\<open>errors.rs\<close>, \<open>constants.rs\<close>).  Primitives: operations of other crates.
  \<^item> Account_Id, Seed (\<open>accounts/account_id.rs\<close>, \<open>seed.rs\<close>): identifiers, their encodings and
    proof of work; the seed search.  Theorems: when an identifier is created, round trips, what the
    search returns and when, and that every interleaving of the concurrent search is sound.
  \<^item> Asset, Token_Symbol, Vault (\<open>assets\<close>): encodings, vault keys, and the refinement of an abstract
    vault of balances by the tree operations.
  \<^item> Delta, Storage, Account_Code, Account (\<open>accounts\<close>): deltas and their validation; slots, layout and
    its commitment; procedure trees; the account invariant, the effect of a delta, monotonicity of
    the nonce, round trips.
  \<^item> Note_Metadata, Note_Contents, Note (\<open>notes\<close>): tags, metadata, assets, inputs, scripts,
    recipients, identifiers and nullifiers, with their encodings.
  \<^item> Block (\<open>block\<close>, \<open>batches\<close>): headers and note trees, with the paths from notes to the root.  Collections: the contract shared by the
    bounded, duplicate-free lists of input and output notes.
  \<^item> Transaction_Inputs, Transaction_Outputs, Transaction_Args (\<open>transaction\<close>): which inputs are accepted,
    output notes, the builder of proven transactions, and the stages of a transaction.
  \<^item> Memory_Layout, Kernel (\<open>miden-lib/src/transaction\<close>): the memory map of the kernel; its events,
    its stacks, the advice it gets, from which every value on its input stack can be recomputed, and the
    parsing of its outputs.
  \<^item> Delta_Tracker, Host (\<open>miden-tx/src/host\<close>): the handlers of events; when the tracker panics; the
    relation \<open>kernel_run\<close> interleaves the changes the kernel makes with the events it emits, and the delta
    tracked along a run whose steps are all \<open>replayable\<close> is shown to replay it.  A delta cannot express
    zero amounts, writes to slots the account may not change, and new code, which the kernel permits.
  \<^item> Compiler (\<open>miden-tx/src/compiler\<close>): the compatibility check and the linking of a transaction.
  \<^item> Executor (\<open>miden-tx/src/executor\<close>, \<open>prover\<close>, \<open>verifier\<close>): what an executed transaction
    satisfies, that proving keeps it, and that what is proven is accepted by the verifier if the kernel
    halts as its epilogue promises (\<open>kernel_finalized\<close>).
  \<^item> Standard (\<open>miden-lib/src/accounts\<close>, \<open>notes\<close>): basic wallets, fungible faucets and the P2ID,
    P2IDR and SWAP notes.
  \<^item> This theory: what the composition of executor, host, tracker and account shows, namely that the
    delta of an executed transaction carries the account to the state the kernel committed to.

  \<^bold>\<open>Loops.\<close>  Recursion is structural, except for the seed search, which need not end: it is a
  \<open>partial_function\<close> with value \<open>None\<close> for a search that does not return, and it is characterised
  exactly when it returns.  No definition uses fuel.  The concurrent search is an inductive step
  relation over its workers and the channel.

  \<^bold>\<open>Bounds.\<close>  255 storage slots besides the layout commitment, 256 procedures, 256 assets and 128 inputs per
  note, 1023 input notes and 4096 output notes, 2^63 - 1 units of an asset.  A delta has at
  most 65535 added and 65535 removed assets, and a note with 256 assets cannot be read back; theorems
  state these conditions where they matter.

  \<^bold>\<open>Not modelled.\<close>  The assembly of the kernel, of the library and of the note scripts
  (\<open>miden-lib/asm\<close>), since the virtual machine is not part of the repository: what the kernel does
  to the account and what its epilogue leaves are assumptions of the theorems on the host (\<open>kernel_run\<close>), on
  executed transactions (\<open>commits_to\<close>) and on the verifier (\<open>kernel_finalized\<close>), each about the run that
  the theorem is about.  The loading of the
  library and the build script of \<open>miden-lib\<close>, file access of account data, logging, \<open>serde\<close> and
  \<open>Display\<close> implementations beyond the error messages the code inspects, the \<open>mock\<close> crate, tests and
  benchmarks: input and output, derived code or test fixtures.
\<close>

section \<open>From execution to the next account state\<close>

text \<open>
  The stubs that commit to a state the kernel has reached: those of a well-formed account with this
  vault, these slots, this nonce and this code root.
\<close>

definition commits_to ::
    "prims \<Rightarrow> 'v smt_ops \<Rightarrow> 's simple_smt_ops \<Rightarrow> 'm itself \<Rightarrow> account_id \<Rightarrow> kernel_account \<Rightarrow> account_stub \<Rightarrow> bool" where
  "commits_to P T S code i k stub \<longleftrightarrow>
     (\<exists>b :: ('v, 's, 'm) account. account_inv P T S b \<and> kernel_start T S b = k \<and> acct_id b = i \<and> stub = account_to_stub T S b)"

definition tracked_assets :: "('w, 'p) transaction_host \<Rightarrow> nat" where
  "tracked_assets h = (let v = dt_vault (th_account_delta h) in length (vt_fungible v) + length (vt_non_fungible v))"

lemma commits_to_stub:
  assumes "account_spec P T S" "commits_to P T S TYPE('m) i k stub" "account_inv P T S a'" "kernel_start T S a' = k" "acct_id a' = i"
  shows "account_to_stub T S (a' :: ('v, 's, 'm) account) = stub"
  using assms by (auto simp: commits_to_def kernel_start_def intro!: account_spec.account_stub_abs)

lemma account_hash_stub: "account_hash P T S a = account_stub_hash P (account_to_stub T S a)"
  by (simp add: account_hash_def account_stub_hash_def account_to_stub_def)

text \<open>
  C1. An executed transaction carries the account to its committed state.  Take an executed transaction on
  a well-formed account without zero balances, and the run behind it: the kernel inputs of its inputs and
  arguments, the host started on the recorder that holds them, and the execution of its program.  Suppose that
  in this run the kernel worked on the account while the host answered its events, in steps that a delta can
  express (assets with non-zero amounts, slots that the account may change, no change of the code), that the
  nonce did not wrap around, which the epilogue checks, that at most 65535 assets were touched, and that the
  final account in the outputs commits to the state the kernel reached.  Then the delta of the transaction
  can be applied to the account of its inputs, and the result is a well-formed account whose stub is the
  final account of the transaction outputs, so its hash is the final account hash.
\<close>

theorem executed_delta_replays:
  fixes tx :: "('v, 's, 'm, 'g, 'p, 'd, 'c, 'a) executed_transaction"
  assumes spec: "account_spec P T S"
    and exec: "execute_transaction P T S G X V N D M H R fsub Q B execute ex i block_ref ids args = Ok tx"
    and a: "a = ti_account (ex_tx_inputs tx)" "account_inv P T S a" "vault_positive (vault_abs T (acct_vault a))"
    and run: "get_kernel_inputs P T S G X V N D (ex_tx_inputs tx) (ex_tx_args tx) (adv_default V)
        = (Ok (si, adv) :: (_, transaction_executor_error) result)"
      "host_new P M H (account_to_stub T S a) (rec_of_inputs R adv) = (Ok h0 :: (_, transaction_executor_error) result)"
      "execute (ex_program tx) si h0 (te_exec_options ex) = (h, Ok so)"
    and kernel: "kernel_run P Q' H Z F (acct_id a) (h0, kernel_start T S a) steps (h, k)" "list_all (replayable (acct_storage a)) steps"
      "acct_nonce a \<le> ka_nonce k" "tracked_assets h \<le> 65535" "commits_to P T S TYPE('m) (acct_id a) k (to_account (ex_tx_outputs tx))"
  shows "\<exists>a'. account_apply_delta P T S a (ex_account_delta tx) = (a', Ok ()) \<and> account_inv P T S a' \<and>
    account_to_stub T S a' = to_account (ex_tx_outputs tx) \<and>
    account_hash P T S a' = account_stub_hash P (to_account (ex_tx_outputs tx))"
proof -
  obtain ti prog si' adv' h0' so' h' where tx:
    "get_kernel_inputs P T S G X V N D ti args (adv_default V) = (Ok (si', adv') :: (_, transaction_executor_error) result)"
    "host_new P M H (account_to_stub T S (ti_account ti)) (rec_of_inputs R adv') = (Ok h0' :: (_, transaction_executor_error) result)"
    "execute prog si' h0' (te_exec_options ex) = (h', Ok so')" "build_executed_transaction P X D R fsub prog args ti so' h' = Ok tx"
    by (rule execute_transaction_Ok [OF exec])
  obtain delta where b: "tracker_into_delta P (th_account_delta h') = (Ok delta :: (_, transaction_executor_error) result)"
    "ex_program tx = prog" "ex_tx_inputs tx = ti" "ex_account_delta tx = delta" "ex_tx_args tx = args"
    by (rule build_executed_transaction_Ok [OF tx(4)]) blast
  have "h' = h" using tx(1-3) run a(1) b(2,3,5) by simp
  with b have delta: "tracker_into_delta P (th_account_delta h) = (Ok delta :: (_, transaction_executor_error) result)" by simp
  obtain a' where a': "account_apply_delta P T S a delta = (a', Ok ())" "kernel_start T S a' = k" "acct_id a' = acct_id a" "account_inv P T S a'"
    using kernel_delta_applies [OF spec a(2,3) run(2) kernel(1,2) refl kernel(4) [unfolded tracked_assets_def Let_def] delta kernel(3)] by blast
  with commits_to_stub [OF spec kernel(5) a'(4,2,3)] b(4) show ?thesis by (auto simp: account_hash_stub)
qed

text \<open>A machine that adds an asset, writes slot 4 and increments the nonce of the sample account.\<close>

definition sample_machine :: "((digest \<times> felt list) list, u8 list) transaction_host \<Rightarrow> ((digest \<times> felt list) list, u8 list) transaction_host" where
  "sample_machine h = (let d = th_account_delta h in
     h\<lparr>th_account_delta := increment_nonce sample_prims (d\<lparr>dt_vault := tracker_add_asset sample_prims (dt_vault d) sample_nft,
       dt_storage := slot_update (dt_storage d) 4 (W 1 2 3 4)\<rparr>) 1\<rparr>)"

definition sample_end :: kernel_account where
  "sample_end = (let k = kernel_start sample_smt (sample_ssmt 8) (sample_account EMPTY_WORD) in
     k\<lparr>ka_vault := fst (abs_add (ka_vault k) sample_nft), ka_slots := (ka_slots k)(4 := W 1 2 3 4), ka_nonce := 4\<rparr>)"

lemma sample_account_parts:
  "acct_vault (sample_account EMPTY_WORD) = sample_vault" "acct_nonce (sample_account EMPTY_WORD) = 3"
  "acct_storage (sample_account EMPTY_WORD) = sample_storage EMPTY_WORD" "acct_id (sample_account EMPTY_WORD) = sample_faucet"
  by (simp_all add: sample_account_def account_new_def)

lemma sample_account_ok: "account_inv sample_prims sample_smt (sample_ssmt 8) (sample_account EMPTY_WORD)"
  by (rule sample_account_inv) (simp add: sample_felt_ok)

lemma sample_machine_run:
  "kernel_run sample_prims sample_prog sample_tree_provider sample_process sample_show acct
     (h, kernel_start sample_smt (sample_ssmt 8) (sample_account EMPTY_WORD)) [AddAsset sample_nft, SetItem 4 (W 1 2 3 4), IncrNonce 1]
     (sample_machine h, sample_end)"
  using sample_kernel_run [OF refl refl refl, where h = h and acct = acct] by (simp add: sample_machine_def sample_end_def sample_kernel_start Let_def)

lemma sample_machine_tracked:
  assumes "th_account_delta h = delta_tracker_new sample_final_stub"
  shows "tracked_assets (sample_machine h) = 1" "slot_updates (dt_storage (th_account_delta (sample_machine h))) \<noteq> []"
  by (simp_all add: tracked_assets_def sample_machine_def Let_def assms delta_tracker_new_def increment_nonce_def vault_tracker_default_def
      sample_nft_def update_asset_delta_def slot_update_def)

lemma sample_replayed:
  obtains delta b where "account_inv sample_prims sample_smt (sample_ssmt 8) b" "kernel_start sample_smt (sample_ssmt 8) b = sample_end"
    "acct_id b = sample_faucet" "acct_code b = acct_code (sample_account EMPTY_WORD)" "ad_nonce delta = Some 4"
    "\<And>h. th_account_delta h = delta_tracker_new sample_final_stub \<Longrightarrow>
      tracker_into_delta sample_prims (th_account_delta (sample_machine h)) = (Ok delta :: (_, transaction_executor_error) result)"
proof -
  let ?a = "sample_account EMPTY_WORD"
  obtain h0 where h0: "host_new sample_prims sample_merkle sample_tree_provider (account_to_stub sample_smt (sample_ssmt 8) ?a) []
      = (Ok h0 :: (((digest \<times> felt list) list, u8 list) transaction_host, unit) result)"
    "th_account_delta h0 = delta_tracker_new sample_final_stub"
    by (rule sample_host_new) (simp add: sample_tx_inputs_def)
  have "vault_positive (vault_abs sample_smt (acct_vault ?a))" using sample_vault_positive by (simp add: sample_account_parts)
  note replays = kernel_delta_replays [OF sample_account_laws.account_spec_axioms sample_account_ok this h0(1) sample_machine_run
      sample_steps_replayable [folded sample_account_parts(3)] refl, where 'e = transaction_executor_error]
  have "ka_nonce sample_end = 4" by (simp add: sample_end_def Let_def)
  with replays sample_machine_tracked [OF h0(2)] obtain delta b where
    d: "tracker_into_delta sample_prims (th_account_delta (sample_machine h0)) = (Ok delta :: (_, transaction_executor_error) result)"
    and b: "account_apply_delta sample_prims sample_smt (sample_ssmt 8) ?a delta = (b, Ok ())" "kernel_start sample_smt (sample_ssmt 8) b = sample_end"
      "acct_id b = acct_id ?a" "acct_code b = acct_code ?a" "account_inv sample_prims sample_smt (sample_ssmt 8) b"
    by (auto simp: tracked_assets_def Let_def host_into_parts_def res_simps sample_account_parts)
  have nonce: "acct_nonce b = 4" using arg_cong [OF b(2), of ka_nonce] \<open>ka_nonce sample_end = 4\<close> by (simp add: kernel_start_def)
  have "ad_nonce delta = Some 4"
    using b(1) nonce sample_account_parts(2)
    by (auto simp: account_apply_delta_def set_nonce_def Let_def split: prod.splits result.splits option.splits if_splits)
  moreover have "th_account_delta (sample_machine h) = th_account_delta (sample_machine h0)"
    if "th_account_delta h = delta_tracker_new sample_final_stub" for h
    using that h0(2) by (simp add: sample_machine_def Let_def)
  ultimately show thesis using that [OF b(5,2) _ b(4)] d b(3) by (simp add: sample_account_parts)
qed

lemma sample_machine_notes: "th_output_notes (sample_machine h) = th_output_notes h"
  by (simp add: sample_machine_def Let_def)

theorem executed_delta_replays_witness:
  "\<exists>s tx a'. stub_execute sample_machine s sample_faucet 2 [] sample_tx_args = Ok tx \<and>
     account_apply_delta sample_prims sample_smt (sample_ssmt 8) (sample_account EMPTY_WORD) (ex_account_delta tx) = (a', Ok ()) \<and>
     acct_nonce a' = 4 \<and> account_to_stub sample_smt (sample_ssmt 8) a' = s"
proof -
  let ?a = "sample_account EMPTY_WORD"
  obtain delta b where b: "account_inv sample_prims sample_smt (sample_ssmt 8) b" "kernel_start sample_smt (sample_ssmt 8) b = sample_end"
    "acct_id b = sample_faucet" "acct_code b = acct_code ?a" "ad_nonce delta = Some 4"
    "\<And>h. th_account_delta h = delta_tracker_new sample_final_stub \<Longrightarrow>
      tracker_into_delta sample_prims (th_account_delta (sample_machine h)) = (Ok delta :: (_, transaction_executor_error) result)"
    by (rule sample_replayed) (rule that)
  define s where "s = account_to_stub sample_smt (sample_ssmt 8) b"
  have end_nonce: "ka_nonce sample_end = 4" by (simp add: sample_end_def Let_def)
  have s: "stub_id s = sample_faucet" "stub_nonce s = 4"
    using b(3) end_nonce unfolding b(2) [symmetric] by (simp_all add: s_def account_to_stub_def kernel_start_def)
  obtain tx where tx: "stub_execute sample_machine s sample_faucet 2 [] sample_tx_args = Ok tx" "ex_tx_inputs tx = sample_tx_inputs"
    "ex_tx_outputs tx = \<lparr> to_account = s, to_output_notes = \<lparr> outs_notes = [], outs_commitment = EMPTY_WORD \<rparr> \<rparr>" "ex_tx_args tx = sample_tx_args"
    by (rule stub_executed [OF s(1), of sample_machine delta]) (use b(5,6) s(2) sample_machine_notes in auto)
  have a: "?a = ti_account (ex_tx_inputs tx)" by (simp add: tx(2) sample_tx_inputs_def)
  have pos: "vault_positive (vault_abs sample_smt (acct_vault ?a))" using sample_vault_positive by (simp add: sample_account_parts)
  have commits: "commits_to sample_prims sample_smt (sample_ssmt 8) TYPE(digest list) (acct_id ?a) sample_end (to_account (ex_tx_outputs tx))"
    using b(1-3) by (auto simp: commits_to_def s_def tx(3) sample_account_parts)
  obtain si adv where ki: "get_kernel_inputs sample_prims sample_smt (sample_ssmt 8) sample_mmr sample_stack sample_advice sample_nodes sample_map
      (ex_tx_inputs tx) (ex_tx_args tx) (adv_default sample_advice) = (Ok (si, adv) :: (_, transaction_executor_error) result)"
    using sample_kernel_inputs unfolding tx(2,4) by blast
  obtain h0 where h0: "host_new sample_prims sample_merkle sample_tree_provider (account_to_stub sample_smt (sample_ssmt 8) ?a)
      (rec_of_inputs (stub_recorder s) adv) = (Ok h0 :: (((digest \<times> felt list) list, u8 list) transaction_host, transaction_executor_error) result)"
    "th_account_delta h0 = delta_tracker_new sample_final_stub"
    by (rule sample_host_new) (simp add: sample_tx_inputs_def stub_recorder_def)
  have "\<exists>a'. account_apply_delta sample_prims sample_smt (sample_ssmt 8) ?a (ex_account_delta tx) = (a', Ok ()) \<and>
      account_inv sample_prims sample_smt (sample_ssmt 8) a' \<and> account_to_stub sample_smt (sample_ssmt 8) a' = to_account (ex_tx_outputs tx) \<and>
      account_hash sample_prims sample_smt (sample_ssmt 8) a' = account_stub_hash sample_prims (to_account (ex_tx_outputs tx))"
    by (rule executed_delta_replays [OF sample_account_laws.account_spec_axioms tx(1) a sample_account_ok pos ki h0(1) refl
          sample_machine_run sample_steps_replayable [folded sample_account_parts(3)] _ _ commits])
      (simp_all add: sample_account_parts end_nonce sample_machine_tracked(1) [OF h0(2)])
  then obtain a' where a': "account_apply_delta sample_prims sample_smt (sample_ssmt 8) ?a (ex_account_delta tx) = (a', Ok ())"
    "account_to_stub sample_smt (sample_ssmt 8) a' = to_account (ex_tx_outputs tx)" by blast
  have "acct_nonce a' = stub_nonce (account_to_stub sample_smt (sample_ssmt 8) a')" by (simp add: account_to_stub_def)
  with a' tx s(2) show ?thesis by auto
qed

end
